(* ===== verification/Prelude.thy ===== *)
theory Prelude
  imports Main "HOL-Library.Word" "HOL-Library.Monad_Syntax"
begin

text \<open>
  What every component of the model shares: the error numbers the kernel
  returns, assertions, the first-match loops over fixed tables, and lemmas on
  lists and machine words.

  A C \<open>int\<close> that carries a status or an identifier is an \<^typ>\<open>int\<close>:
  a negative value is an error code, as in the source.  A function of the source
  that contains a \<open>KASSERT\<close> or a \<open>kpanic\<close> returns an \<^typ>\<open>'a option\<close>, and
  \<^const>\<open>None\<close> is the kernel panic.
\<close>

section \<open>Error numbers\<close>

text \<open>The POSIX error numbers that the sources return (negated).\<close>

abbreviation EIO :: int where "EIO \<equiv> 5"
abbreviation EBADF :: int where "EBADF \<equiv> 9"
abbreviation EAGAIN :: int where "EAGAIN \<equiv> 11"
abbreviation EACCES :: int where "EACCES \<equiv> 13"
abbreviation EFAULT :: int where "EFAULT \<equiv> 14"
abbreviation EBUSY :: int where "EBUSY \<equiv> 16"
abbreviation EINVAL :: int where "EINVAL \<equiv> 22"
abbreviation ENOSYS :: int where "ENOSYS \<equiv> 38"
abbreviation ENOMSG :: int where "ENOMSG \<equiv> 42"
abbreviation ENOTSUP :: int where "ENOTSUP \<equiv> 95"
abbreviation EADDRINUSE :: int where "EADDRINUSE \<equiv> 98"

section \<open>Assertions\<close>

definition KASSERT :: "bool \<Rightarrow> unit option" where
  "KASSERT b = (if b then Some () else None)"

lemma KASSERT_True [simp]: "KASSERT True = Some ()"
  and KASSERT_False [simp]: "KASSERT False = None"
  by (simp_all add: KASSERT_def)

lemma KASSERT_bind_Some_iff [simp]:
  "Option.bind (KASSERT b) f = Some r \<longleftrightarrow> b \<and> f () = Some r"
  by (simp add: KASSERT_def)

section \<open>First match in a table\<close>

text \<open>
  The loop \<open>for (i = 0; i < n; i++) if (P(tab[i])) break;\<close> over a table:
  the index where it stops, \<^const>\<open>None\<close> when it runs to the end.
\<close>

primrec first_index :: "('a \<Rightarrow> bool) \<Rightarrow> 'a list \<Rightarrow> nat option" where
  "first_index P [] = None"
| "first_index P (x # xs) =
    (if P x then Some 0 else map_option Suc (first_index P xs))"

lemma first_index_None_iff: "first_index P xs = None \<longleftrightarrow> (\<forall>x\<in>set xs. \<not> P x)"
  by (induction xs) auto

lemma first_index_None_nth:
  "first_index P xs = None \<longleftrightarrow> (\<forall>i<length xs. \<not> P (xs ! i))"
  by (simp add: first_index_None_iff all_set_conv_all_nth)

lemma first_index_SomeD:
  assumes "first_index P xs = Some i"
  shows "i < length xs" "P (xs ! i)" "\<And>j. j < i \<Longrightarrow> \<not> P (xs ! j)"
proof -
  have "i < length xs \<and> P (xs ! i) \<and> (\<forall>j<i. \<not> P (xs ! j))"
    using assms
    by (induction xs arbitrary: i) (auto split: if_splits simp: nth_Cons split: nat.splits)
  then show "i < length xs" "P (xs ! i)" "\<And>j. j < i \<Longrightarrow> \<not> P (xs ! j)"
    by blast+
qed

lemma first_index_Some_iff:
  "first_index P xs = Some i \<longleftrightarrow>
    i < length xs \<and> P (xs ! i) \<and> (\<forall>j<i. \<not> P (xs ! j))"
proof (induction xs arbitrary: i)
  case (Cons x xs)
  then show ?case
    by (cases i) (auto simp: less_Suc_eq_0_disj)
qed simp

lemma first_index_exists:
  "i < length xs \<Longrightarrow> P (xs ! i) \<Longrightarrow> \<exists>k. first_index P xs = Some k \<and> k \<le> i"
proof (induction xs arbitrary: i)
  case (Cons x xs)
  then show ?case
    by (cases i) force+
qed simp

section \<open>Access by a computed index\<close>

text \<open>An access to an array at an index the source does not check: outside the array it
  has no defined result, which is \<^const>\<open>None\<close> like a panic.\<close>

definition fetch :: "'a list \<Rightarrow> int \<Rightarrow> 'a option" where
  "fetch xs i = (if 0 \<le> i \<and> i < int (length xs) then Some (xs ! nat i) else None)"

lemma fetch_Some_iff: "fetch xs i = Some x \<longleftrightarrow> 0 \<le> i \<and> i < int (length xs) \<and> x = xs ! nat i"
  by (auto simp: fetch_def)

section \<open>Counting in a table\<close>

definition count_if :: "('a \<Rightarrow> bool) \<Rightarrow> 'a list \<Rightarrow> nat" where
  "count_if P xs = length (filter P xs)"

lemma count_if_Nil [simp]: "count_if P [] = 0"
  and count_if_Cons [simp]: "count_if P (x # xs) = (if P x then 1 else 0) + count_if P xs"
  by (simp_all add: count_if_def)

lemma count_if_le_length: "count_if P xs \<le> length xs"
  by (simp add: count_if_def)

lemma count_if_update_same:
  "i < length xs \<Longrightarrow> P y = P (xs ! i) \<Longrightarrow> count_if P (xs[i := y]) = count_if P xs"
proof (induction xs arbitrary: i)
  case (Cons x xs)
  then show ?case by (cases i) auto
qed simp

lemma count_if_update_set:
  "i < length xs \<Longrightarrow> \<not> P (xs ! i) \<Longrightarrow> P y \<Longrightarrow>
    count_if P (xs[i := y]) = Suc (count_if P xs)"
proof (induction xs arbitrary: i)
  case (Cons x xs)
  then show ?case by (cases i) auto
qed simp

lemma count_if_update_reset:
  "i < length xs \<Longrightarrow> P (xs ! i) \<Longrightarrow> \<not> P y \<Longrightarrow>
    Suc (count_if P (xs[i := y])) = count_if P xs"
proof (induction xs arbitrary: i)
  case (Cons x xs)
  then show ?case by (cases i) auto
qed simp

lemma count_if_pos: "i < length xs \<Longrightarrow> P (xs ! i) \<Longrightarrow> 0 < count_if P xs"
  unfolding count_if_def by (metis filter_empty_conv length_greater_0_conv nth_mem)

lemma count_if_full_iff: "count_if P xs = length xs \<longleftrightarrow> (\<forall>i<length xs. P (xs ! i))"
  unfolding count_if_def
  by (metis all_set_conv_all_nth filter_id_conv length_filter_less nat_less_le)

end
