(* ===== verification/Memory_Layout.thy ===== *)
theory Memory_Layout
  imports Prelude
begin

unbundle bit_operations_syntax

text \<open>
  The memory layout of the platform and the address predicates of
  \<^verbatim>\<open>include/nanvix/kernel/mm.h\<close>.

  The base addresses, the sizes, and the page geometry are constants of the
  hardware abstraction layer, which is not part of the sources; they are the
  fields of the record \<^verbatim>\<open>layout\<close>.  The unsigned types \<open>vaddr_t\<close>, \<open>paddr_t\<close>,
  \<open>frame_t\<close> and \<open>bitmap_t\<close> are also the platform's: they are machine words of one
  width \<open>'w\<close>, and arithmetic on them wraps.
\<close>

record (overloaded) ('w :: len) layout =
  UBASE_VIRT :: "'w word"
  UBASE_PHYS :: "'w word"
  UMEM_SIZE  :: "'w word"
  KBASE_VIRT :: "'w word"
  KMEM_SIZE  :: "'w word"
  KPOOL_VIRT :: "'w word"
  KPOOL_PHYS :: "'w word"
  KPOOL_SIZE :: "'w word"
  PAGE_SIZE  :: "'w word"
  PAGE_SHIFT :: nat
  PAGE_MASK  :: "'w word"
  PGTAB_MASK :: "'w word"

definition mm_is_uaddr :: "('w::len) layout \<Rightarrow> 'w word \<Rightarrow> bool" where
  "mm_is_uaddr lay vaddr \<longleftrightarrow>
    UBASE_VIRT lay \<le> vaddr \<and> vaddr < UBASE_VIRT lay + UMEM_SIZE lay"

text \<open>
  The predicates of kernel addresses and of memory areas depend on the target;
  \<open>target\<close> is the set of preprocessor symbols the source tests.
\<close>

datatype target = qemu_x86 | optimsoc | qemu_openrisc | other_target

definition mm_is_kaddr :: "target \<Rightarrow> ('w::len) layout \<Rightarrow> 'w word \<Rightarrow> bool" where
  "mm_is_kaddr tgt lay vaddr \<longleftrightarrow>
    (if tgt \<noteq> qemu_x86
     then (KBASE_VIRT lay \<le> vaddr \<and> vaddr < KBASE_VIRT lay + KMEM_SIZE lay)
        \<or> (KPOOL_VIRT lay \<le> vaddr \<and> vaddr < KPOOL_VIRT lay + KPOOL_SIZE lay)
     else True)"

definition KMEM_AREA :: int where "KMEM_AREA = 0"
definition UMEM_AREA :: int where "UMEM_AREA = 1"

definition mm_check_area ::
  "target \<Rightarrow> ('w::len) layout \<Rightarrow> 'w word \<Rightarrow> 'w word \<Rightarrow> int \<Rightarrow> bool" where
  "mm_check_area tgt lay vaddr sz area \<longleftrightarrow>
    (if tgt = qemu_x86
     then (if area = UMEM_AREA
           then mm_is_uaddr lay vaddr \<and> mm_is_uaddr lay (vaddr + sz)
           else mm_is_kaddr tgt lay vaddr \<and> mm_is_kaddr tgt lay (vaddr + sz))
     else if tgt = optimsoc \<or> tgt = qemu_openrisc
     then mm_is_kaddr tgt lay vaddr \<and> mm_is_kaddr tgt lay (vaddr + sz)
     else True)"

text \<open>
  What the platform's documentation promises of the page geometry: a page is
  \<open>2 ^ PAGE_SHIFT\<close> bytes and the mask clears the offset within a page.
\<close>

definition page_geometry :: "('w::len) layout \<Rightarrow> bool" where
  "page_geometry lay \<longleftrightarrow>
    PAGE_SHIFT lay < LENGTH('w) \<and> PAGE_SIZE lay = push_bit (PAGE_SHIFT lay) 1
    \<and> PAGE_MASK lay = NOT (PAGE_SIZE lay - 1)"

lemma unat_pow2: "n < LENGTH('w) \<Longrightarrow> unat (2 ^ n :: 'w::len word) = 2 ^ n"
  using unat_of_nat [of "2 ^ n", where 'a = 'w] by simp

lemma unat_PAGE_SIZE:
  "page_geometry (lay :: ('w::len) layout) \<Longrightarrow> unat (PAGE_SIZE lay) = 2 ^ PAGE_SHIFT lay"
  by (simp add: page_geometry_def unat_pow2)

lemma unat_drop_bit_word: "unat (drop_bit n (w :: 'w::len word)) = unat w div 2 ^ n"
  unfolding unat_drop_bit_eq by (simp add: drop_bit_eq_div)

text \<open>An area that does not wrap around the address space contains exactly the
  addresses between its ends.\<close>

lemma mm_is_uaddr_unat:
  assumes "unat (UBASE_VIRT lay) + unat (UMEM_SIZE lay) < 2 ^ LENGTH('w)"
  shows "mm_is_uaddr (lay :: ('w::len) layout) v \<longleftrightarrow>
    unat (UBASE_VIRT lay) \<le> unat v \<and> unat v < unat (UBASE_VIRT lay) + unat (UMEM_SIZE lay)"
  using assms by (simp add: mm_is_uaddr_def word_le_nat_alt word_less_nat_alt unat_word_ariths)

section \<open>A concrete platform\<close>

text \<open>A 32-bit platform, used to show that the hypotheses on layouts can hold.\<close>

definition sample_layout :: "32 layout" where
  "sample_layout =
    \<lparr> UBASE_VIRT = 0x80000000, UBASE_PHYS = 0x01000000, UMEM_SIZE = 0x20000,
      KBASE_VIRT = 0x00100000, KMEM_SIZE = 0x00100000,
      KPOOL_VIRT = 0x00400000, KPOOL_PHYS = 0x00400000, KPOOL_SIZE = 0x4000,
      PAGE_SIZE = 0x1000, PAGE_SHIFT = 12, PAGE_MASK = 0xfffff000, PGTAB_MASK = 0xffc00000 \<rparr>"

lemma sample_layout_fields [simp]:
  "UBASE_VIRT sample_layout = 0x80000000" "UBASE_PHYS sample_layout = 0x01000000"
  "UMEM_SIZE sample_layout = 0x20000"
  "KBASE_VIRT sample_layout = 0x00100000" "KMEM_SIZE sample_layout = 0x00100000"
  "KPOOL_VIRT sample_layout = 0x00400000" "KPOOL_PHYS sample_layout = 0x00400000"
  "KPOOL_SIZE sample_layout = 0x4000"
  "PAGE_SIZE sample_layout = 0x1000" "PAGE_SHIFT sample_layout = 12"
  "PAGE_MASK sample_layout = 0xfffff000" "PGTAB_MASK sample_layout = 0xffc00000"
  by (simp_all add: sample_layout_def)

lemma sample_page_geometry: "page_geometry sample_layout"
  by (simp add: page_geometry_def)



end
