(* ===== verification/Interfaces.thy ===== *)
theory Interfaces
  imports Prelude
begin

text \<open>
  The contracts between components.  A locale fixes the operations a client
  calls and assumes the laws the provider promises; the lemmas of the locale are
  what the clients use.  Each locale is interpreted, in the theory of the
  component that provides it, on the definitions that model that component.
\<close>

section \<open>Page allocators\<close>

text \<open>
  The page frame allocator and the kernel page pool give out pages of a fixed
  finite set.  \<^emph>\<open>alloc\<close> either returns a page that was not in use or
  reports that every page is in use; \<^emph>\<open>release\<close> takes a page back and
  refuses one that is not in use.
\<close>

locale page_allocator =
  fixes inv :: "'s \<Rightarrow> bool"
    and alloc :: "'s \<Rightarrow> 'p option \<times> 's"
    and release :: "'p \<Rightarrow> 's \<Rightarrow> int \<times> 's"
    and in_use :: "'s \<Rightarrow> 'p set"
    and pages :: "'p set"
  assumes finite_pages: "inv s \<Longrightarrow> finite pages"
    and in_use_pages: "inv s \<Longrightarrow> in_use s \<subseteq> pages"
    and alloc_None: "inv s \<Longrightarrow> alloc s = (None, s') \<Longrightarrow> s' = s \<and> in_use s = pages"
    and alloc_Some: "inv s \<Longrightarrow> alloc s = (Some p, s') \<Longrightarrow>
      inv s' \<and> p \<in> pages - in_use s \<and> in_use s' = insert p (in_use s)"
    and release_used: "inv s \<Longrightarrow> p \<in> in_use s \<Longrightarrow> release p s = (r, s') \<Longrightarrow>
      r = 0 \<and> inv s' \<and> in_use s' = in_use s - {p}"
    and release_free: "inv s \<Longrightarrow> p \<in> pages - in_use s \<Longrightarrow> release p s = (r, s') \<Longrightarrow>
      r < 0 \<and> s' = s"

text \<open>Taking pages one after the other until the allocator refuses or the
  requested number is reached.\<close>

fun take_pages :: "('s \<Rightarrow> 'p option \<times> 's) \<Rightarrow> nat \<Rightarrow> 's \<Rightarrow> 'p list \<times> 's" where
  "take_pages alloc 0 s = ([], s)"
| "take_pages alloc (Suc n) s =
    (case alloc s of
       (None, s') \<Rightarrow> ([], s')
     | (Some p, s') \<Rightarrow> (let (ps, s'') = take_pages alloc n s' in (p # ps, s'')))"

context page_allocator
begin

lemma alloc_succeeds:
  assumes "inv s" and "in_use s \<noteq> pages"
  obtains p s' where "alloc s = (Some p, s')"
  using assms alloc_None by (cases "alloc s", cases "fst (alloc s)") auto

lemma alloc_exhausted:
  assumes "inv s" and "in_use s = pages"
  shows "alloc s = (None, s)"
proof (cases "alloc s")
  case (Pair o' s')
  then show ?thesis
    using assms alloc_None [of s s'] alloc_Some [of s _ s'] by (cases o') auto
qed

lemma alloc_release:
  assumes "inv s" and "alloc s = (Some p, s')"
  shows "fst (release p s') = 0 \<and> in_use (snd (release p s')) = in_use s
    \<and> inv (snd (release p s'))"
proof -
  have p: "inv s'" "p \<notin> in_use s" "in_use s' = insert p (in_use s)"
    using alloc_Some [OF assms] by auto
  obtain r s'' where "release p s' = (r, s'')" by fastforce
  then show ?thesis using release_used [of s' p r s''] p by auto
qed

lemma release_twice:
  assumes "inv s" and "p \<in> in_use s"
  shows "fst (release p s) = 0 \<and> fst (release p (snd (release p s))) < 0"
proof -
  obtain r s' where rel: "release p s = (r, s')" by fastforce
  then have s': "r = 0" "inv s'" "in_use s' = in_use s - {p}"
    using release_used assms by blast+
  moreover have "p \<in> pages" using in_use_pages assms by blast
  ultimately show ?thesis
    using release_free [of s' p] rel by (cases "release p s'") auto
qed

lemma take_pages_spec:
  assumes "inv s" and "take_pages alloc n s = (ps, s')"
  shows "inv s' \<and> distinct ps \<and> set ps \<inter> in_use s = {} \<and> set ps \<subseteq> pages
    \<and> in_use s' = in_use s \<union> set ps \<and> length ps = min n (card (pages - in_use s))"
  using assms
proof (induction n arbitrary: s ps)
  case 0
  then show ?case by simp
next
  case (Suc n)
  show ?case
  proof (cases "alloc s")
    case (Pair o' s1)
    show ?thesis
    proof (cases o')
      case None
      then have "s1 = s" "in_use s = pages"
        using alloc_None Pair Suc.prems(1) by auto
      then show ?thesis using Suc.prems Pair None by simp
    next
      case (Some p)
      obtain qs where rest: "take_pages alloc n s1 = (qs, s')" and ps: "ps = p # qs"
        using Suc.prems(2) Pair Some by (auto split: prod.splits)
      have p: "inv s1" "p \<in> pages - in_use s" "in_use s1 = insert p (in_use s)"
        using alloc_Some [OF Suc.prems(1)] Pair Some by auto
      have "card (pages - in_use s) = Suc (card (pages - in_use s1))"
        using p finite_pages [OF p(1)]
        by (metis Diff_insert card_Suc_Diff1 finite_Diff)
      then show ?thesis using Suc.IH [OF p(1) rest] p ps by auto
    qed
  qed
qed

end

section \<open>Queues of turns\<close>

text \<open>
  Parties that share a channel wait for their turn in a bounded queue.  A request
  joins at the end when there is room; completing is accepted from the party at
  the front alone, and \<^emph>\<open>verify\<close> tells whether a party is at the front.
\<close>

locale turn_queue =
  fixes inv :: "'s \<Rightarrow> bool"
    and waiting :: "'s \<Rightarrow> 'p list"
    and capacity :: "'s \<Rightarrow> nat"
    and valid :: "'s \<Rightarrow> 'p \<Rightarrow> bool"
    and request :: "'p \<Rightarrow> 's \<Rightarrow> (int \<times> 's) option"
    and complete :: "'p \<Rightarrow> 's \<Rightarrow> (int \<times> 's) option"
    and verify :: "'p \<Rightarrow> 's \<Rightarrow> bool option"
  assumes waiting_valid: "inv s \<Longrightarrow> p \<in> set (waiting s) \<Longrightarrow> valid s p"
    and request_room: "inv s \<Longrightarrow> valid s p \<Longrightarrow> length (waiting s) < capacity s \<Longrightarrow>
      \<exists>s'. request p s = Some (0, s') \<and> inv s' \<and> waiting s' = waiting s @ [p]
        \<and> capacity s' = capacity s \<and> valid s' = valid s"
    and request_full: "inv s \<Longrightarrow> valid s p \<Longrightarrow> \<not> length (waiting s) < capacity s \<Longrightarrow>
      request p s = Some (- EBUSY, s)"
    and complete_turn: "inv s \<Longrightarrow> waiting s = p # ps \<Longrightarrow>
      \<exists>s'. complete p s = Some (0, s') \<and> inv s' \<and> waiting s' = ps
        \<and> capacity s' = capacity s \<and> valid s' = valid s"
    and complete_other: "inv s \<Longrightarrow> valid s p \<Longrightarrow> (\<forall>ps. waiting s \<noteq> p # ps) \<Longrightarrow>
      complete p s = Some (- EINVAL, s)"
    and verify_front: "inv s \<Longrightarrow> valid s p \<Longrightarrow> verify p s = Some (\<exists>ps. waiting s = p # ps)"

text \<open>Completing the operations of a list of parties, one after the other; it
  stops at the first refusal.\<close>

fun complete_all ::
  "('p \<Rightarrow> 's \<Rightarrow> (int \<times> 's) option) \<Rightarrow> 'p list \<Rightarrow> 's \<Rightarrow> 's option" where
  "complete_all complete [] s = Some s"
| "complete_all complete (p # ps) s =
    do { (r, s') \<leftarrow> complete p s; if r < 0 then None else complete_all complete ps s' }"

context turn_queue
begin

lemma turn_unique:
  assumes "inv s" "valid s p" "valid s q" "verify p s = Some True" "verify q s = Some True"
  shows "p = q"
  using assms verify_front by auto

lemma complete_in_order:
  assumes "inv s" and "waiting s = ps @ qs"
  shows "\<exists>s'. complete_all complete ps s = Some s' \<and> inv s' \<and> waiting s' = qs
    \<and> capacity s' = capacity s \<and> valid s' = valid s"
  using assms
proof (induction ps arbitrary: s)
  case (Cons p ps)
  then obtain s' where s': "complete p s = Some (0, s')" "inv s'" "waiting s' = ps @ qs"
      "capacity s' = capacity s" "valid s' = valid s"
    using complete_turn [of s p "ps @ qs"] by auto
  from Cons.IH [OF s'(2,3)] s' show ?case by auto
qed auto

lemma complete_out_of_order:
  assumes "inv s" and "valid s q" and "waiting s = p # ps" and "p \<noteq> q"
  shows "complete q s = Some (- EINVAL, s)"
  using assms complete_other by auto

lemma request_gets_turn:
  assumes "inv s" and "valid s p" and "length (waiting s) < capacity s"
  shows "\<exists>s' s''. request p s = Some (0, s') \<and> complete_all complete (waiting s) s' = Some s''
    \<and> verify p s'' = Some True \<and> waiting s'' = [p]"
proof -
  obtain s' where s': "request p s = Some (0, s')" "inv s'" "waiting s' = waiting s @ [p]"
      "valid s' = valid s"
    using request_room [OF assms] by auto
  obtain s'' where s'': "complete_all complete (waiting s) s' = Some s''" "inv s''"
      "waiting s'' = [p]" "valid s'' = valid s'"
    using complete_in_order [OF s'(2,3)] by auto
  have "verify p s'' = Some True"
    using verify_front [OF s''(2), of p] s'' s' assms by simp
  then show ?thesis using s' s'' by blast
qed

lemma request_keeps_turn:
  assumes "inv s" and "valid s p" and "valid s q" and "verify q s = Some True"
    and "request p s = Some (r, s')"
  shows "verify q s' = Some True"
proof (cases "length (waiting s) < capacity s")
  case True
  then show ?thesis
    using request_room [OF assms(1,2)] verify_front assms by fastforce
next
  case False
  then show ?thesis using request_full assms by auto
qed

end

end
