(* ===== verification/Frame.thy ===== *)
theory Frame
  imports Memory_Layout Interfaces
begin

text \<open>
  The page frame allocator: \<^verbatim>\<open>src/kernel/mm/frame.c\<close> and the inline
  functions on frames of \<^verbatim>\<open>include/nanvix/kernel/mm.h\<close>.  The allocator's
  only state is the bitmap \<open>frames\<close>.

  The bitmap routines belong to the support library and are the fields of
  \<open>bitmap_ops\<close>; \<open>bitmap_laws\<close> states what their documentation says.
\<close>

section \<open>Frame numbers\<close>

definition NUM_UFRAMES :: "('w::len) layout \<Rightarrow> 'w word" where
  "NUM_UFRAMES lay = UMEM_SIZE lay div PAGE_SIZE lay"

definition FRAME_NULL :: "('w::len) word" where
  "FRAME_NULL = - 1"

definition frame_is_valid_id :: "('w::len) layout \<Rightarrow> 'w word \<Rightarrow> bool" where
  "frame_is_valid_id lay i \<longleftrightarrow> i < NUM_UFRAMES lay"

definition frame_id_to_num :: "('w::len) layout \<Rightarrow> 'w word \<Rightarrow> 'w word" where
  "frame_id_to_num lay i =
    (if \<not> frame_is_valid_id lay i then FRAME_NULL
     else drop_bit (PAGE_SHIFT lay) (UBASE_PHYS lay) + i)"

definition frame_is_valid_num :: "('w::len) layout \<Rightarrow> 'w word \<Rightarrow> bool" where
  "frame_is_valid_num lay frame \<longleftrightarrow>
    drop_bit (PAGE_SHIFT lay) (UBASE_PHYS lay) \<le> frame
    \<and> frame < drop_bit (PAGE_SHIFT lay) (UBASE_PHYS lay) + NUM_UFRAMES lay"

definition frame_num_to_id :: "('w::len) layout \<Rightarrow> 'w word \<Rightarrow> int" where
  "frame_num_to_id lay frame =
    (if \<not> frame_is_valid_num lay frame then - 1
     else sint (frame - drop_bit (PAGE_SHIFT lay) (UBASE_PHYS lay)))"

section \<open>The allocator\<close>

record (overloaded) ('b, 'w :: len) bitmap_ops =
  bitmap_check_bit   :: "'b \<Rightarrow> 'w word \<Rightarrow> 'w word"
  bitmap_first_free  :: "'b \<Rightarrow> nat \<Rightarrow> 'w word"
  bitmap_set         :: "'b \<Rightarrow> 'w word \<Rightarrow> 'b"
  bitmap_clear       :: "'b \<Rightarrow> 'w word \<Rightarrow> 'b"
  bitmap_zero        :: "'b \<Rightarrow> nat \<Rightarrow> 'b"
  BITMAP_FULL        :: "'w word"
  BITMAP_WORD_LENGTH :: nat
  BITMAP_WORD_SIZE   :: nat

definition FRAMES_LENGTH :: "('w::len) layout \<Rightarrow> ('b, 'w) bitmap_ops \<Rightarrow> nat" where
  "FRAMES_LENGTH lay bm = unat (NUM_UFRAMES lay) div BITMAP_WORD_LENGTH bm"

definition FRAMES_SIZE :: "('w::len) layout \<Rightarrow> ('b, 'w) bitmap_ops \<Rightarrow> nat" where
  "FRAMES_SIZE lay bm = FRAMES_LENGTH lay bm * BITMAP_WORD_SIZE bm"

definition frame_is_allocated ::
  "('w::len) layout \<Rightarrow> ('b, 'w) bitmap_ops \<Rightarrow> 'w word \<Rightarrow> 'b \<Rightarrow> 'w word" where
  "frame_is_allocated lay bm frame frames =
    (if \<not> frame_is_valid_num lay frame then 0
     else let bit = word_of_int (frame_num_to_id lay frame)
          in bitmap_check_bit bm frames bit)"

definition frame_alloc ::
  "('w::len) layout \<Rightarrow> ('b, 'w) bitmap_ops \<Rightarrow> 'b \<Rightarrow> 'w word \<times> 'b" where
  "frame_alloc lay bm frames =
    (let bit = bitmap_first_free bm frames (FRAMES_SIZE lay bm)
     in if bit = BITMAP_FULL bm then (FRAME_NULL, frames)
        else (frame_id_to_num lay bit, bitmap_set bm frames bit))"

definition frame_free ::
  "('w::len) layout \<Rightarrow> ('b, 'w) bitmap_ops \<Rightarrow> 'w word \<Rightarrow> 'b \<Rightarrow> int \<times> 'b" where
  "frame_free lay bm frame frames =
    (if \<not> frame_is_valid_num lay frame then (- EINVAL, frames)
     else let bit = word_of_int (frame_num_to_id lay frame)
          in if bitmap_check_bit bm frames bit = 0 then (- EFAULT, frames)
             else (0, bitmap_clear bm frames bit))"

text \<open>\<open>frame_init\<close> clears the bitmap unless the kernel is built for fast boot,
  in which case the loader has already zeroed it.\<close>

definition frame_init ::
  "bool \<Rightarrow> ('w::len) layout \<Rightarrow> ('b, 'w) bitmap_ops \<Rightarrow> 'b \<Rightarrow> 'b" where
  "frame_init fast_boot lay bm frames =
    (if \<not> fast_boot then bitmap_zero bm frames (FRAMES_SIZE lay bm) else frames)"

section \<open>Hypotheses on the platform\<close>

text \<open>The documented behaviour of the bitmap routines: setting and clearing
  change one bit, clearing the storage clears every bit of it, and the search
  yields the lowest clear bit among the first \<open>8 * sz\<close> ones.\<close>

definition bitmap_laws :: "('b, 'w::len) bitmap_ops \<Rightarrow> bool" where
  "bitmap_laws bm \<longleftrightarrow>
    8 * BITMAP_WORD_SIZE bm = BITMAP_WORD_LENGTH bm \<and> 0 < BITMAP_WORD_LENGTH bm
    \<and> (\<forall>b i j. bitmap_check_bit bm (bitmap_set bm b i) j \<noteq> 0 \<longleftrightarrow>
          i = j \<or> bitmap_check_bit bm b j \<noteq> 0)
    \<and> (\<forall>b i j. bitmap_check_bit bm (bitmap_clear bm b i) j \<noteq> 0 \<longleftrightarrow>
          i \<noteq> j \<and> bitmap_check_bit bm b j \<noteq> 0)
    \<and> (\<forall>b sz j. unat j < 8 * sz \<longrightarrow> bitmap_check_bit bm (bitmap_zero bm b sz) j = 0)
    \<and> (\<forall>b sz. (\<forall>i. unat i < 8 * sz \<longrightarrow> bitmap_check_bit bm b i \<noteq> 0) \<longrightarrow>
          bitmap_first_free bm b sz = BITMAP_FULL bm)
    \<and> (\<forall>b sz i. unat i < 8 * sz \<longrightarrow> bitmap_check_bit bm b i = 0 \<longrightarrow>
          unat (bitmap_first_free bm b sz) < 8 * sz
          \<and> bitmap_check_bit bm b (bitmap_first_free bm b sz) = 0
          \<and> (\<forall>j < bitmap_first_free bm b sz. bitmap_check_bit bm b j \<noteq> 0))"

lemma bitmap_check_set:
  "bitmap_laws bm \<Longrightarrow> bitmap_check_bit bm (bitmap_set bm b i) j \<noteq> 0 \<longleftrightarrow>
    i = j \<or> bitmap_check_bit bm b j \<noteq> 0"
  by (simp add: bitmap_laws_def)

lemma bitmap_check_clear:
  "bitmap_laws bm \<Longrightarrow> bitmap_check_bit bm (bitmap_clear bm b i) j \<noteq> 0 \<longleftrightarrow>
    i \<noteq> j \<and> bitmap_check_bit bm b j \<noteq> 0"
  by (simp add: bitmap_laws_def)

text \<open>The physical user memory lies below the top of the frame number space and
  its size in frames is positive as an \<open>int\<close>.\<close>

definition frame_layout :: "('w::len) layout \<Rightarrow> bool" where
  "frame_layout lay \<longleftrightarrow>
    unat (drop_bit (PAGE_SHIFT lay) (UBASE_PHYS lay)) + unat (NUM_UFRAMES lay)
      < 2 ^ LENGTH('w)
    \<and> 2 * unat (NUM_UFRAMES lay) < 2 ^ LENGTH('w)"

text \<open>The environment of the allocator: its number of frames is a multiple of the
  bitmap's word length and the marker of a full bitmap is not a bit of it.\<close>

definition frame_env :: "('w::len) layout \<Rightarrow> ('b, 'w) bitmap_ops \<Rightarrow> bool" where
  "frame_env lay bm \<longleftrightarrow> bitmap_laws bm \<and> frame_layout lay
    \<and> BITMAP_WORD_LENGTH bm dvd unat (NUM_UFRAMES lay)
    \<and> unat (NUM_UFRAMES lay) \<le> unat (BITMAP_FULL bm)"

section \<open>Conversions between identifiers and frame numbers\<close>

abbreviation uframe_base :: "('w::len) layout \<Rightarrow> 'w word" where
  "uframe_base lay \<equiv> drop_bit (PAGE_SHIFT lay) (UBASE_PHYS lay)"

lemma frame_is_valid_num_unat:
  assumes "frame_layout lay"
  shows "frame_is_valid_num lay f \<longleftrightarrow>
    unat (uframe_base lay) \<le> unat f \<and> unat f < unat (uframe_base lay) + unat (NUM_UFRAMES lay)"
  using assms
  by (simp add: frame_is_valid_num_def frame_layout_def word_le_nat_alt word_less_nat_alt
      unat_word_ariths)

lemma unat_frame_id_to_num:
  assumes "frame_layout lay" and "frame_is_valid_id lay i"
  shows "unat (frame_id_to_num lay i) = unat (uframe_base lay) + unat i"
  using assms
  by (simp add: frame_id_to_num_def frame_is_valid_id_def frame_layout_def word_less_nat_alt
      unat_word_ariths)

lemma frame_id_to_num_valid:
  assumes "frame_layout lay" and "frame_is_valid_id lay i"
  shows "frame_is_valid_num lay (frame_id_to_num lay i)"
  using assms unat_frame_id_to_num [OF assms]
  by (simp add: frame_is_valid_num_unat frame_is_valid_id_def word_less_nat_alt)

lemma valid_num_not_null:
  assumes "frame_layout (lay :: ('w::len) layout)" and "frame_is_valid_num lay f"
  shows "f \<noteq> FRAME_NULL"
proof
  assume "f = FRAME_NULL"
  then have "unat f = 2 ^ LENGTH('w) - 1" by (simp add: FRAME_NULL_def unsigned_minus_1_eq_mask mask_eq_exp_minus_1)
  with assms show False by (auto simp: frame_is_valid_num_unat frame_layout_def)
qed

lemma frame_bit_unat:
  assumes "frame_layout lay" and "frame_is_valid_num lay f"
  shows "unat (f - uframe_base lay) = unat f - unat (uframe_base lay)"
    and "word_of_int (frame_num_to_id lay f) = f - uframe_base lay"
    and "frame_is_valid_id lay (f - uframe_base lay)"
proof -
  show *: "unat (f - uframe_base lay) = unat f - unat (uframe_base lay)"
    using assms by (simp add: frame_is_valid_num_unat unat_sub_if')
  show "word_of_int (frame_num_to_id lay f) = f - uframe_base lay"
    using assms(2) by (simp add: frame_num_to_id_def)
  show "frame_is_valid_id lay (f - uframe_base lay)"
    using assms by (auto simp: frame_is_valid_id_def frame_is_valid_num_unat word_less_nat_alt *)
qed

lemma sint_small:
  "2 * unat (x :: 'w::len word) < 2 ^ LENGTH('w) \<Longrightarrow> sint x = int (unat x)"
proof -
  assume a: "2 * unat x < 2 ^ LENGTH('w)"
  have "(2::nat) ^ LENGTH('w) = 2 * 2 ^ (LENGTH('w) - 1)"
    by (metis Suc_diff_1 len_gt_0 power_Suc)
  with a have "int (unat x) < 2 ^ (LENGTH('w) - 1)"
    by (metis mult_less_cancel1 of_nat_less_iff of_nat_numeral of_nat_power)
  moreover have "- (2 ^ (LENGTH('w) - 1)) \<le> int (unat x)"
    by (rule order_trans [of _ 0]) simp_all
  ultimately show ?thesis
    by (simp add: sint_uint signed_take_bit_int_eq_self)
qed

section \<open>The allocated frames\<close>

text \<open>The abstract state of the allocator: the set of frames in use.\<close>

definition uframes :: "('w::len) layout \<Rightarrow> 'w word set" where
  "uframes lay = {f. frame_is_valid_num lay f}"

definition frames_in_use ::
  "('w::len) layout \<Rightarrow> ('b, 'w) bitmap_ops \<Rightarrow> 'b \<Rightarrow> 'w word set" where
  "frames_in_use lay bm frames = {f. frame_is_allocated lay bm f frames \<noteq> 0}"

lemma frames_in_use_iff:
  assumes "frame_layout lay"
  shows "f \<in> frames_in_use lay bm frames \<longleftrightarrow>
    f \<in> uframes lay \<and> bitmap_check_bit bm frames (f - uframe_base lay) \<noteq> 0"
  using assms
  by (auto simp: frames_in_use_def uframes_def frame_is_allocated_def frame_bit_unat
      split: if_splits)

lemma frames_size_bits:
  "frame_env lay bm \<Longrightarrow> 8 * FRAMES_SIZE lay bm = unat (NUM_UFRAMES lay)"
proof -
  assume env: "frame_env lay bm"
  then have "8 * FRAMES_SIZE lay bm = FRAMES_LENGTH lay bm * BITMAP_WORD_LENGTH bm"
    unfolding FRAMES_SIZE_def frame_env_def bitmap_laws_def
    by (metis mult.left_commute)
  with env show ?thesis by (simp add: FRAMES_LENGTH_def frame_env_def)
qed

text \<open>The search of the bitmap, restated for frame identifiers.\<close>

lemma first_free_frame:
  assumes env: "frame_env lay bm"
    and k: "k = bitmap_first_free bm frames (FRAMES_SIZE lay bm)"
  shows "k = BITMAP_FULL bm \<Longrightarrow>
      frame_is_valid_id lay i \<Longrightarrow> bitmap_check_bit bm frames i \<noteq> 0"
    and "k \<noteq> BITMAP_FULL bm \<Longrightarrow> frame_is_valid_id lay k
      \<and> bitmap_check_bit bm frames k = 0
      \<and> (\<forall>j < k. bitmap_check_bit bm frames j \<noteq> 0)"
proof -
  note laws = env [unfolded frame_env_def bitmap_laws_def] frames_size_bits [OF env]
  have found: "frame_is_valid_id lay i \<Longrightarrow> bitmap_check_bit bm frames i = 0 \<Longrightarrow>
      frame_is_valid_id lay k \<and> bitmap_check_bit bm frames k = 0
      \<and> (\<forall>j < k. bitmap_check_bit bm frames j \<noteq> 0)" for i
    using laws k unfolding frame_is_valid_id_def word_less_nat_alt by metis
  show "bitmap_check_bit bm frames i \<noteq> 0"
    if "k = BITMAP_FULL bm" "frame_is_valid_id lay i"
    using found [of i] that laws by (auto simp: frame_is_valid_id_def word_less_nat_alt)
  show "frame_is_valid_id lay k \<and> bitmap_check_bit bm frames k = 0
      \<and> (\<forall>j < k. bitmap_check_bit bm frames j \<noteq> 0)"
    if "k \<noteq> BITMAP_FULL bm"
  proof (cases "\<forall>i. frame_is_valid_id lay i \<longrightarrow> bitmap_check_bit bm frames i \<noteq> 0")
    case True
    then have "k = BITMAP_FULL bm"
      using laws k unfolding frame_is_valid_id_def word_less_nat_alt by metis
    with that show ?thesis by simp
  qed (use found in blast)
qed

lemma frame_alloc_full:
  assumes env: "frame_env lay bm" and alloc: "frame_alloc lay bm frames = (FRAME_NULL, frames')"
  shows "frames' = frames \<and> frames_in_use lay bm frames = uframes lay"
proof -
  define k where "k = bitmap_first_free bm frames (FRAMES_SIZE lay bm)"
  have lay: "frame_layout lay" using env by (simp add: frame_env_def)
  have full: "k = BITMAP_FULL bm"
  proof (rule ccontr)
    assume "k \<noteq> BITMAP_FULL bm"
    then have "frame_is_valid_id lay k" and "frame_id_to_num lay k = FRAME_NULL"
      using first_free_frame(2) [OF env k_def] alloc
      by (auto simp: frame_alloc_def Let_def k_def split: if_splits)
    then show False
      using frame_id_to_num_valid [OF lay] valid_num_not_null [OF lay] by metis
  qed
  moreover have "f \<in> frames_in_use lay bm frames" if "f \<in> uframes lay" for f
    using that first_free_frame(1) [OF env k_def full] frame_bit_unat(3) [OF lay]
    by (simp add: frames_in_use_iff lay uframes_def)
  ultimately show ?thesis
    using alloc by (auto simp: frame_alloc_def Let_def k_def frames_in_use_iff lay)
qed

lemma frame_alloc_fresh:
  assumes env: "frame_env lay bm" and alloc: "frame_alloc lay bm frames = (f, frames')"
    and nn: "f \<noteq> FRAME_NULL"
  shows "f \<in> uframes lay - frames_in_use lay bm frames"
    and "frames_in_use lay bm frames' = insert f (frames_in_use lay bm frames)"
    and "g \<in> uframes lay \<Longrightarrow> g < f \<Longrightarrow> g \<in> frames_in_use lay bm frames"
proof -
  define k where "k = bitmap_first_free bm frames (FRAMES_SIZE lay bm)"
  have lay: "frame_layout lay" and laws: "bitmap_laws bm"
    using env by (simp_all add: frame_env_def)
  have k: "k \<noteq> BITMAP_FULL bm" and f: "f = frame_id_to_num lay k"
    and frames': "frames' = bitmap_set bm frames k"
    using alloc nn by (auto simp: frame_alloc_def Let_def k_def split: if_splits)
  note ff = first_free_frame(2) [OF env k_def k]
  have fk: "f - uframe_base lay = k"
    using ff f by (simp add: frame_id_to_num_def)
  have fu: "f \<in> uframes lay"
    using ff f frame_id_to_num_valid [OF lay] by (simp add: uframes_def)
  then show "f \<in> uframes lay - frames_in_use lay bm frames"
    using ff fk by (simp add: frames_in_use_iff lay)
  show "frames_in_use lay bm frames' = insert f (frames_in_use lay bm frames)"
  proof (rule set_eqI)
    fix x
    have "k = x - uframe_base lay \<longleftrightarrow> x = f" using fk by auto
    then show "x \<in> frames_in_use lay bm frames' \<longleftrightarrow>
        x \<in> insert f (frames_in_use lay bm frames)"
      using fu by (simp add: frames_in_use_iff lay frames' bitmap_check_set laws) blast
  qed
  show "g \<in> frames_in_use lay bm frames" if g: "g \<in> uframes lay" "g < f"
  proof -
    have "unat (g - uframe_base lay) < unat (f - uframe_base lay)"
      using g fu frame_bit_unat(1) [OF lay] frame_is_valid_num_unat [OF lay]
      by (simp add: uframes_def word_less_nat_alt)
    then show ?thesis using g ff fk by (simp add: frames_in_use_iff lay word_less_nat_alt)
  qed
qed

lemma frame_free_used:
  assumes env: "frame_env lay bm" and f: "f \<in> frames_in_use lay bm frames"
    and free: "frame_free lay bm f frames = (r, frames')"
  shows "r = 0 \<and> frames_in_use lay bm frames' = frames_in_use lay bm frames - {f}"
proof -
  have lay: "frame_layout lay" and laws: "bitmap_laws bm"
    using env by (simp_all add: frame_env_def)
  have valid: "frame_is_valid_num lay f"
    and set: "bitmap_check_bit bm frames (f - uframe_base lay) \<noteq> 0"
    using f by (auto simp: frames_in_use_iff lay uframes_def)
  then have r: "r = 0" and frames': "frames' = bitmap_clear bm frames (f - uframe_base lay)"
    using free by (auto simp: frame_free_def frame_bit_unat(2) [OF lay valid] split: if_splits)
  have "frames_in_use lay bm frames' = frames_in_use lay bm frames - {f}"
    unfolding frames'
    by (rule set_eqI) (simp add: frames_in_use_iff lay bitmap_check_clear laws, blast)
  with r show ?thesis by simp
qed

lemma frame_free_unused:
  assumes lay: "frame_layout lay" and f: "f \<notin> frames_in_use lay bm frames"
  shows "frame_free lay bm f frames =
    (if f \<in> uframes lay then (- EFAULT, frames) else (- EINVAL, frames))"
  using f frame_bit_unat(2) [OF lay]
  by (auto simp: frame_free_def frames_in_use_iff lay uframes_def)

lemma finite_uframes [simp]: "finite (uframes lay)"
  by (rule finite)

section \<open>The allocator as a page allocator\<close>

definition frame_alloc_option ::
  "('w::len) layout \<Rightarrow> ('b, 'w) bitmap_ops \<Rightarrow> 'b \<Rightarrow> 'w word option \<times> 'b" where
  "frame_alloc_option lay bm frames =
    (case frame_alloc lay bm frames of
      (f, frames') \<Rightarrow> (if f = FRAME_NULL then None else Some f, frames'))"

interpretation frames: page_allocator
  "\<lambda>_. frame_env lay bm" "frame_alloc_option lay bm" "frame_free lay bm"
  "frames_in_use lay bm" "uframes lay"
  for lay bm
proof (standard, goal_cases)
  case (2 s)
  then show ?case by (auto simp: frames_in_use_iff frame_env_def)
next
  case (3 s s')
  then show ?case
    using frame_alloc_full [of lay bm s s']
    by (auto simp: frame_alloc_option_def split: prod.splits if_splits)
next
  case (4 s p s')
  then have "frame_alloc lay bm s = (p, s')" "p \<noteq> FRAME_NULL"
    by (auto simp: frame_alloc_option_def split: prod.splits if_splits)
  then show ?case using frame_alloc_fresh(1,2) [OF 4(1)] 4(1) by simp
next
  case (5 s p r s')
  then show ?case using frame_free_used [OF 5] by simp
next
  case (6 s p r s')
  then show ?case by (auto simp: frame_free_unused frame_env_def)
qed simp

section \<open>A concrete platform\<close>

text \<open>On the sample layout there are 32 user frames; the bitmap is kept as a
  predicate on bit numbers.  The hypotheses above can hold.\<close>

definition sample_bitmap :: "(32 word \<Rightarrow> bool, 32) bitmap_ops" where
  "sample_bitmap =
    \<lparr> bitmap_check_bit = (\<lambda>b i. if b i then 1 else 0),
      bitmap_first_free = (\<lambda>b n.
        case first_index (\<lambda>i. \<not> b (of_nat i)) [0..<min (8 * n) (2 ^ 32)] of
          None \<Rightarrow> 0xffffffff | Some i \<Rightarrow> of_nat i),
      bitmap_set = (\<lambda>b i. b(i := True)),
      bitmap_clear = (\<lambda>b i. b(i := False)),
      bitmap_zero = (\<lambda>b n i. if unat i < 8 * n then False else b i),
      BITMAP_FULL = 0xffffffff, BITMAP_WORD_LENGTH = 32, BITMAP_WORD_SIZE = 4 \<rparr>"

lemma sample_first_free:
  fixes b :: "32 word \<Rightarrow> bool"
  assumes "unat i < 8 * n" and "\<not> b i"
  shows "\<exists>k. first_index (\<lambda>i. \<not> b (of_nat i)) [0..<min (8 * n) (2 ^ 32)] = Some k
    \<and> k < 8 * n \<and> k < 2 ^ 32 \<and> \<not> b (of_nat k) \<and> (\<forall>j < of_nat k. b j)"
proof -
  have "unat i < 2 ^ 32" using unsigned_less [of i, where 'a = nat] by simp
  then obtain k where k: "first_index (\<lambda>i. \<not> b (of_nat i)) [0..<min (8 * n) (2 ^ 32)] = Some k"
    using first_index_exists [of "unat i" "[0..<min (8 * n) (2 ^ 32)]" "\<lambda>i. \<not> b (of_nat i)"] assms
    by auto
  have kn: "k < 8 * n" "k < 2 ^ 32" and kb: "\<not> b (of_nat k)"
    using first_index_SomeD(1,2) [OF k] by auto
  have "b j" if "j < of_nat k" for j
  proof -
    have "unat j < k" using that kn by (simp add: word_less_nat_alt unat_of_nat)
    then show ?thesis using first_index_SomeD(3) [OF k, of "unat j"] kn by simp
  qed
  with k kn kb show ?thesis by blast
qed

lemma sample_bitmap_simps [simp]:
  "bitmap_check_bit sample_bitmap b i = 0 \<longleftrightarrow> \<not> b i"
  "bitmap_set sample_bitmap b i = b(i := True)"
  "bitmap_clear sample_bitmap b i = b(i := False)"
  "bitmap_zero sample_bitmap b n = (\<lambda>i. if unat i < 8 * n then False else b i)"
  "BITMAP_FULL sample_bitmap = 0xffffffff"
  "BITMAP_WORD_LENGTH sample_bitmap = 32"
  "BITMAP_WORD_SIZE sample_bitmap = 4"
  by (simp_all add: sample_bitmap_def)

lemma sample_bitmap_laws: "bitmap_laws sample_bitmap"
proof -
  have full: "bitmap_first_free sample_bitmap b n = 0xffffffff"
    if "\<forall>i. unat i < 8 * n \<longrightarrow> b i" for b n
  proof -
    have "first_index (\<lambda>i. \<not> b (of_nat i)) [0..<min (8 * n) (2 ^ 32)] = None"
      unfolding first_index_None_iff
    proof
      fix x assume "x \<in> set [0..<min (8 * n) (2 ^ 32)]"
      then show "\<not> \<not> b (of_nat x)"
        using that [rule_format, of "of_nat x"] by (simp add: unat_of_nat)
    qed
    then show ?thesis by (simp add: sample_bitmap_def)
  qed
  have free: "unat (bitmap_first_free sample_bitmap b n) < 8 * n
      \<and> \<not> b (bitmap_first_free sample_bitmap b n)
      \<and> (\<forall>j < bitmap_first_free sample_bitmap b n. b j)"
    if "unat i < 8 * n" "\<not> b i" for b i n
    using sample_first_free [of i n b, OF that] by (auto simp: sample_bitmap_def unat_of_nat)
  have "\<forall>b n. (\<forall>i. unat i < 8 * n \<longrightarrow> b i) \<longrightarrow>
      bitmap_first_free sample_bitmap b n = 0xffffffff"
    using full by blast
  moreover have "\<forall>b n i. unat i < 8 * n \<longrightarrow> \<not> b i \<longrightarrow>
      unat (bitmap_first_free sample_bitmap b n) < 8 * n
      \<and> \<not> b (bitmap_first_free sample_bitmap b n)
      \<and> (\<forall>j < bitmap_first_free sample_bitmap b n. b j)"
    using free by blast
  ultimately show ?thesis
    unfolding bitmap_laws_def by simp blast
qed

lemma sample_layout_values [simp]:
  "NUM_UFRAMES sample_layout = 32"
  "drop_bit 12 (0x01000000 :: 32 word) = 0x1000"
  by (simp_all add: NUM_UFRAMES_def drop_bit_eq_div)

lemma sample_frames_size [simp]: "FRAMES_SIZE sample_layout sample_bitmap = 4"
  by (simp add: FRAMES_SIZE_def FRAMES_LENGTH_def)

lemma sample_frame_layout: "frame_layout sample_layout"
  by (simp add: frame_layout_def)

lemma sample_frame_env: "frame_env sample_layout sample_bitmap"
  by (simp add: frame_env_def sample_bitmap_laws sample_frame_layout)

section \<open>Properties\<close>

text \<open>(C9) The allocation is first-fit and exact.  \<open>frame_alloc\<close> returns \<open>FRAME_NULL\<close>
  only when every user frame is allocated, and then leaves the bitmap as it was;
  otherwise it returns the lowest user frame that was free, and after the call
  exactly that frame has become allocated.\<close>

theorem frame_alloc_first_fit:
  assumes "frame_env lay bm" and "frame_alloc lay bm frames = (f, frames')"
  shows "(f = FRAME_NULL \<and> frames' = frames
      \<and> (\<forall>g. frame_is_valid_num lay g \<longrightarrow> frame_is_allocated lay bm g frames \<noteq> 0))
    \<or> (frame_is_valid_num lay f \<and> frame_is_allocated lay bm f frames = 0
      \<and> (\<forall>g < f. frame_is_valid_num lay g \<longrightarrow> frame_is_allocated lay bm g frames \<noteq> 0)
      \<and> (\<forall>g. frame_is_allocated lay bm g frames' \<noteq> 0 \<longleftrightarrow>
            g = f \<or> frame_is_allocated lay bm g frames \<noteq> 0))"
proof (cases "f = FRAME_NULL")
  case True
  then show ?thesis
    using frame_alloc_full [of lay bm frames frames'] assms
    by (auto simp: frames_in_use_def uframes_def)
next
  case False
  then show ?thesis
    using frame_alloc_fresh [OF assms False] by (auto simp: frames_in_use_def uframes_def)
qed

theorem frame_alloc_first_fit_witness:
  "frame_env sample_layout sample_bitmap
    \<and> frame_alloc sample_layout sample_bitmap (\<lambda>i. i < 2) = (0x1002, \<lambda>i. i < 2 \<or> i = 2)
    \<and> frame_is_allocated sample_layout sample_bitmap 0x1002 (\<lambda>i. i < 2) = 0"
proof -
  have ff: "bitmap_first_free sample_bitmap (\<lambda>i. i < 2) 4 = 2"
    by (simp add: sample_bitmap_def upt_conv_Cons)
  have ev: "frame_alloc sample_layout sample_bitmap (\<lambda>i. i < 2) = (0x1002, \<lambda>i. i < 2 \<or> i = 2)"
    using ff by (auto simp: frame_alloc_def frame_id_to_num_def frame_is_valid_id_def)
  show ?thesis
    using frame_alloc_first_fit [OF sample_frame_env ev] ev sample_frame_env
    by (simp add: FRAME_NULL_def)
qed

text \<open>Freeing undoes an allocation, and a second free is refused: after a
  successful \<open>frame_alloc\<close>, \<open>frame_free\<close> of the frame succeeds and the same frames
  are allocated as before the allocation; freeing it again returns \<open>-EFAULT\<close> and
  changes nothing.\<close>

theorem frame_alloc_then_free:
  assumes env: "frame_env lay bm" and alloc: "frame_alloc lay bm frames = (f, frames')"
    and nn: "f \<noteq> FRAME_NULL"
  shows "\<exists>frames''. frame_free lay bm f frames' = (0, frames'')
    \<and> (\<forall>g. frame_is_allocated lay bm g frames'' \<noteq> 0 \<longleftrightarrow> frame_is_allocated lay bm g frames \<noteq> 0)
    \<and> frame_free lay bm f frames'' = (- EFAULT, frames'')"
proof -
  have lay: "frame_layout lay" using env by (simp add: frame_env_def)
  note fresh = frame_alloc_fresh(1,2) [OF env alloc nn]
  obtain r frames'' where free: "frame_free lay bm f frames' = (r, frames'')" by fastforce
  then have r: "r = 0" and use: "frames_in_use lay bm frames'' = frames_in_use lay bm frames"
    using frame_free_used [OF env _ free] fresh by auto
  then have "frame_free lay bm f frames'' = (- EFAULT, frames'')"
    using frame_free_unused [OF lay, of f bm frames''] fresh by auto
  with free r use show ?thesis by (auto simp: frames_in_use_def)
qed

theorem frame_alloc_then_free_witness:
  "\<exists>frames''. frame_free sample_layout sample_bitmap 0x1000 (\<lambda>i. i = 0) = (0, frames'')
    \<and> frame_is_allocated sample_layout sample_bitmap 0x1000 frames'' = 0
    \<and> frame_free sample_layout sample_bitmap 0x1000 frames'' = (- EFAULT, frames'')"
proof -
  have "bitmap_first_free sample_bitmap (\<lambda>_. False) 4 = 0"
    by (simp add: sample_bitmap_def upt_conv_Cons)
  then have ev: "frame_alloc sample_layout sample_bitmap (\<lambda>_. False) = (0x1000, \<lambda>i. i = 0)"
    by (auto simp: fun_eq_iff frame_alloc_def frame_id_to_num_def frame_is_valid_id_def)
  have z: "frame_is_allocated sample_layout sample_bitmap 0x1000 (\<lambda>_. False) = 0"
    by (simp add: frame_is_allocated_def)
  show ?thesis
    using frame_alloc_then_free [OF sample_frame_env ev] z by (simp add: FRAME_NULL_def) blast
qed

text \<open>The two numberings of a user frame are inverse to each other: an
  identifier below the number of user frames comes back from its frame number,
  and a user frame number comes back from its identifier; everything else is
  mapped to \<open>FRAME_NULL\<close> and to \<open>-1\<close>.\<close>

theorem frame_numbers_roundtrip:
  assumes lay: "frame_layout lay"
  shows "(frame_is_valid_id lay i \<longrightarrow>
        frame_is_valid_num lay (frame_id_to_num lay i)
        \<and> frame_num_to_id lay (frame_id_to_num lay i) = uint i)
    \<and> (frame_is_valid_num lay f \<longrightarrow>
        frame_id_to_num lay (word_of_int (frame_num_to_id lay f)) = f)
    \<and> (\<not> frame_is_valid_id lay i \<longrightarrow> frame_id_to_num lay i = FRAME_NULL)
    \<and> (\<not> frame_is_valid_num lay f \<longrightarrow> frame_num_to_id lay f = - 1)"
proof (intro conjI impI)
  assume i: "frame_is_valid_id lay i"
  show "frame_is_valid_num lay (frame_id_to_num lay i)"
    using frame_id_to_num_valid [OF lay i] .
  then show "frame_num_to_id lay (frame_id_to_num lay i) = uint i"
    using i lay
    by (simp add: frame_num_to_id_def frame_id_to_num_def sint_small frame_layout_def
        frame_is_valid_id_def word_less_nat_alt)
next
  assume f: "frame_is_valid_num lay f"
  show "frame_id_to_num lay (word_of_int (frame_num_to_id lay f)) = f"
    using frame_bit_unat(2,3) [OF lay f] by (simp add: frame_id_to_num_def)
qed (simp_all add: frame_id_to_num_def frame_num_to_id_def)

theorem frame_numbers_roundtrip_witness:
  "frame_num_to_id sample_layout (frame_id_to_num sample_layout 5) = 5
    \<and> frame_num_to_id sample_layout 0x1020 = - 1"
  using frame_numbers_roundtrip [OF sample_frame_layout, of 5 "0x1020"]
  by (simp add: frame_is_valid_id_def frame_is_valid_num_def)

text \<open>(C10) No frame is given out twice and none is lost: \<open>n\<close> consecutive
  allocations return distinct frames that were all free before, as many as were
  requested or as were free, whichever is less.\<close>

theorem frame_allocs_distinct:
  assumes "frame_env lay bm"
    and "take_pages (frame_alloc_option lay bm) n frames = (fs, frames')"
  shows "distinct fs \<and> (\<forall>f \<in> set fs. frame_is_valid_num lay f \<and> frame_is_allocated lay bm f frames = 0)
    \<and> length fs = min n (card (uframes lay - frames_in_use lay bm frames))
    \<and> frames_in_use lay bm frames' = frames_in_use lay bm frames \<union> set fs"
  using frames.take_pages_spec [OF assms] by (auto simp: frames_in_use_def uframes_def)

theorem frame_allocs_distinct_witness:
  "\<exists>f g frames'. take_pages (frame_alloc_option sample_layout sample_bitmap) (Suc (Suc 0)) (\<lambda>i. i < 2)
      = ([f, g], frames') \<and> f \<noteq> g"
proof -
  have "bitmap_first_free sample_bitmap (\<lambda>i. i < 2) 4 = 2"
    and "bitmap_first_free sample_bitmap ((\<lambda>i. i < 2)(2 := True)) 4 = 3"
    by (simp_all add: sample_bitmap_def upt_conv_Cons)
  then have ev: "take_pages (frame_alloc_option sample_layout sample_bitmap) (Suc (Suc 0)) (\<lambda>i. i < 2)
      = ([0x1002, 0x1003], (\<lambda>i. i < 2)(2 := True, 3 := True))"
    by (simp add: frame_alloc_option_def frame_alloc_def frame_id_to_num_def
        frame_is_valid_id_def FRAME_NULL_def)
  show ?thesis
    using frame_allocs_distinct [OF sample_frame_env ev] ev by auto
qed

end
