(* ===== verification/Kpool.thy ===== *)
theory Kpool
  imports Memory_Layout Interfaces
begin

text \<open>
  The kernel page pool: \<^verbatim>\<open>src/kernel/mm/kpool.c\<close> and the inline functions on
  kernel pages of \<^verbatim>\<open>include/nanvix/kernel/mm.h\<close>.  The state is the table
  \<open>kpages\<close> of reference counts and the contents of the pages; \<open>'m\<close> is the type
  of the contents of a page.  Page identifiers, which the source keeps in \<open>unsigned\<close>
  and \<open>int\<close> variables, are words of the address width.
\<close>

record (overloaded) ('w :: len, 'm) kpool =
  kpages :: "int list"
  kpage_mem :: "'w word \<Rightarrow> 'm"

definition NUM_KPAGES :: "('w::len) layout \<Rightarrow> 'w word" where
  "NUM_KPAGES lay = KPOOL_SIZE lay div PAGE_SIZE lay"

definition kpool_is_kpage :: "('w::len) layout \<Rightarrow> 'w word \<Rightarrow> bool" where
  "kpool_is_kpage lay vaddr \<longleftrightarrow>
    KPOOL_VIRT lay \<le> vaddr \<and> vaddr < KPOOL_VIRT lay + KPOOL_SIZE lay"

definition kpool_id_to_addr :: "('w::len) layout \<Rightarrow> 'w word \<Rightarrow> 'w word" where
  "kpool_id_to_addr lay i = KPOOL_VIRT lay + push_bit (PAGE_SHIFT lay) i"

definition kpool_frame_to_addr :: "('w::len) layout \<Rightarrow> 'w word \<Rightarrow> 'w word" where
  "kpool_frame_to_addr lay frame =
    kpool_id_to_addr lay (frame - drop_bit (PAGE_SHIFT lay) (KPOOL_PHYS lay))"

definition kpool_addr_to_id :: "('w::len) layout \<Rightarrow> 'w word \<Rightarrow> 'w word" where
  "kpool_addr_to_id lay vaddr = drop_bit (PAGE_SHIFT lay) (vaddr - KPOOL_VIRT lay)"

definition kpool_addr_to_frame :: "('w::len) layout \<Rightarrow> 'w word \<Rightarrow> 'w word" where
  "kpool_addr_to_frame lay vaddr =
    kpool_addr_to_id lay vaddr + drop_bit (PAGE_SHIFT lay) (KPOOL_PHYS lay)"

text \<open>
  The null pointer is the address 0.  \<open>kmemset0\<close> is what filling a page with zeros
  makes of its contents.
\<close>

definition kpage_get ::
  "('w::len) layout \<Rightarrow> ('m \<Rightarrow> 'm) \<Rightarrow> bool \<Rightarrow> ('w, 'm) kpool \<Rightarrow> 'w word \<times> ('w, 'm) kpool" where
  "kpage_get lay kmemset0 clean s =
    (case first_index (\<lambda>c. c = 0) (kpages s) of
       None \<Rightarrow> (0, s)
     | Some i \<Rightarrow>
         let kpg = kpool_id_to_addr lay (of_nat i);
             s = s\<lparr>kpages := (kpages s)[i := kpages s ! i + 1]\<rparr>;
             s = (if clean
                  then s\<lparr>kpage_mem := (kpage_mem s)(kpg := kmemset0 (kpage_mem s kpg))\<rparr>
                  else s)
         in (kpg, s))"

definition kpage_put ::
  "('w::len) layout \<Rightarrow> 'w word \<Rightarrow> ('w, 'm) kpool \<Rightarrow> int \<times> ('w, 'm) kpool" where
  "kpage_put lay kpg s =
    (if \<not> kpool_is_kpage lay kpg then (- EINVAL, s)
     else let i = unat (kpool_addr_to_id lay kpg)
          in if kpages s ! i = 0 then (- EFAULT, s)
             else (0, s\<lparr>kpages := (kpages s)[i := kpages s ! i - 1]\<rparr>))"

text \<open>The table is zero at start-up; \<open>kpool_init\<close> clears it again unless the
  kernel is built for fast boot.\<close>

definition kpool_init ::
  "bool \<Rightarrow> ('w::len) layout \<Rightarrow> ('w, 'm) kpool \<Rightarrow> ('w, 'm) kpool" where
  "kpool_init fast_boot lay s =
    (if \<not> fast_boot then s\<lparr>kpages := replicate (unat (NUM_KPAGES lay)) 0\<rparr> else s)"

section \<open>Hypotheses and invariant\<close>

text \<open>The pool is a whole number of pages, does not start at the null address and
  does not wrap around the address space, virtually or physically.\<close>

definition kpool_layout :: "('w::len) layout \<Rightarrow> bool" where
  "kpool_layout lay \<longleftrightarrow> page_geometry lay
    \<and> 0 < KPOOL_VIRT lay
    \<and> unat (KPOOL_SIZE lay) = unat (NUM_KPAGES lay) * 2 ^ PAGE_SHIFT lay
    \<and> unat (KPOOL_VIRT lay) + unat (KPOOL_SIZE lay) < 2 ^ LENGTH('w)
    \<and> unat (KPOOL_PHYS lay) + unat (KPOOL_SIZE lay) < 2 ^ LENGTH('w)"

text \<open>The table has one entry per page and an entry is 0 or 1: the pool never
  hands out a page that is in use, so a count never exceeds one.\<close>

definition kpool_inv :: "('w::len) layout \<Rightarrow> ('w, 'm) kpool \<Rightarrow> bool" where
  "kpool_inv lay s \<longleftrightarrow>
    length (kpages s) = unat (NUM_KPAGES lay) \<and> (\<forall>c \<in> set (kpages s). c = 0 \<or> c = 1)"

section \<open>Conversions\<close>

lemma unat_kpool_id_to_addr:
  assumes lay: "kpool_layout (lay :: ('w::len) layout)" and i: "i < NUM_KPAGES lay"
  shows "unat (kpool_id_to_addr lay i) = unat (KPOOL_VIRT lay) + unat i * 2 ^ PAGE_SHIFT lay"
    and "unat i * 2 ^ PAGE_SHIFT lay + 2 ^ PAGE_SHIFT lay \<le> unat (KPOOL_SIZE lay)"
proof -
  have "(unat i + 1) * 2 ^ PAGE_SHIFT lay \<le> unat (NUM_KPAGES lay) * 2 ^ PAGE_SHIFT lay"
    using i by (intro mult_le_mono1) (simp add: word_less_nat_alt)
  then show le: "unat i * 2 ^ PAGE_SHIFT lay + 2 ^ PAGE_SHIFT lay \<le> unat (KPOOL_SIZE lay)"
    using lay by (simp add: kpool_layout_def algebra_simps)
  have "unat (push_bit (PAGE_SHIFT lay) i) = unat i * 2 ^ PAGE_SHIFT lay"
    using le lay
    by (simp add: push_bit_eq_mult unat_word_ariths unat_pow2 kpool_layout_def page_geometry_def)
  then show "unat (kpool_id_to_addr lay i) = unat (KPOOL_VIRT lay) + unat i * 2 ^ PAGE_SHIFT lay"
    using le lay by (simp add: kpool_id_to_addr_def unat_word_ariths kpool_layout_def)
qed

lemma kpool_is_kpage_unat:
  assumes "kpool_layout lay"
  shows "kpool_is_kpage lay v \<longleftrightarrow>
    unat (KPOOL_VIRT lay) \<le> unat v \<and> unat v < unat (KPOOL_VIRT lay) + unat (KPOOL_SIZE lay)"
  using assms
  by (simp add: kpool_is_kpage_def kpool_layout_def word_le_nat_alt word_less_nat_alt
      unat_word_ariths)

lemma kpool_addr_to_id_valid:
  assumes lay: "kpool_layout lay" and v: "kpool_is_kpage lay v"
  shows "unat (kpool_addr_to_id lay v) = (unat v - unat (KPOOL_VIRT lay)) div 2 ^ PAGE_SHIFT lay"
    and "kpool_addr_to_id lay v < NUM_KPAGES lay"
proof -
  note v' = v [unfolded kpool_is_kpage_unat [OF lay]]
  show *: "unat (kpool_addr_to_id lay v) =
      (unat v - unat (KPOOL_VIRT lay)) div 2 ^ PAGE_SHIFT lay"
    using v' by (simp add: kpool_addr_to_id_def unat_drop_bit_word unat_sub_if')
  have "(unat v - unat (KPOOL_VIRT lay)) div 2 ^ PAGE_SHIFT lay < unat (NUM_KPAGES lay)"
    using v' lay unfolding kpool_layout_def by (intro less_mult_imp_div_less) linarith
  then show "kpool_addr_to_id lay v < NUM_KPAGES lay" by (simp add: word_less_nat_alt *)
qed

lemma kpool_addr_id_inverse:
  assumes lay: "kpool_layout lay" and i: "i < NUM_KPAGES lay"
  shows "kpool_is_kpage lay (kpool_id_to_addr lay i)"
    and "kpool_addr_to_id lay (kpool_id_to_addr lay i) = i"
    and "kpool_id_to_addr lay i \<noteq> 0"
proof -
  note u = unat_kpool_id_to_addr [OF lay i]
  have p: "(0::nat) < 2 ^ PAGE_SHIFT lay" by simp
  show k: "kpool_is_kpage lay (kpool_id_to_addr lay i)"
    unfolding kpool_is_kpage_unat [OF lay] u(1) using u(2) p by linarith
  show "kpool_addr_to_id lay (kpool_id_to_addr lay i) = i"
    using kpool_addr_to_id_valid(1) [OF lay k] u(1) by (simp add: word_unat_eq_iff)
  show "kpool_id_to_addr lay i \<noteq> 0"
    using u(1) lay by (auto simp: kpool_layout_def word_less_nat_alt unat_eq_0)
qed

text \<open>The other direction: the frame of a kernel page leads back to its address.\<close>

lemma kpool_frame_addr_inverse:
  assumes lay: "kpool_layout lay" and i: "i < NUM_KPAGES lay"
  shows "kpool_frame_to_addr lay (kpool_addr_to_frame lay (kpool_id_to_addr lay i)) =
    kpool_id_to_addr lay i"
  using kpool_addr_id_inverse(2) [OF lay i]
  by (simp add: kpool_frame_to_addr_def kpool_addr_to_frame_def)

lemma kpool_id_to_addr_inj:
  assumes "kpool_layout lay" "i < NUM_KPAGES lay" "j < NUM_KPAGES lay"
    and "kpool_id_to_addr lay i = kpool_id_to_addr lay j"
  shows "i = j"
  using assms kpool_addr_id_inverse(2) by metis

section \<open>The pages in use\<close>

definition kpool_pages :: "('w::len) layout \<Rightarrow> 'w word set" where
  "kpool_pages lay = kpool_id_to_addr lay ` {i. i < NUM_KPAGES lay}"

definition kpages_in_use :: "('w::len) layout \<Rightarrow> ('w, 'm) kpool \<Rightarrow> 'w word set" where
  "kpages_in_use lay s =
    {a \<in> kpool_pages lay. kpages s ! unat (kpool_addr_to_id lay a) \<noteq> 0}"

lemma kpages_in_use_id:
  assumes "kpool_layout lay" and "i < NUM_KPAGES lay"
  shows "kpool_id_to_addr lay i \<in> kpages_in_use lay s \<longleftrightarrow> kpages s ! unat i \<noteq> 0"
  using assms kpool_addr_id_inverse(2) [OF assms] by (auto simp: kpages_in_use_def kpool_pages_def)

lemma kpages_in_use_update:
  assumes lay: "kpool_layout lay" and i: "i < NUM_KPAGES lay"
    and len: "length (kpages s) = unat (NUM_KPAGES lay)"
    and upd: "kpages s' = (kpages s)[unat i := c]"
  shows "kpages_in_use lay s' =
    (if c = 0 then kpages_in_use lay s - {kpool_id_to_addr lay i}
     else insert (kpool_id_to_addr lay i) (kpages_in_use lay s))"
proof (rule set_eqI)
  fix a
  show "a \<in> kpages_in_use lay s' \<longleftrightarrow>
    a \<in> (if c = 0 then kpages_in_use lay s - {kpool_id_to_addr lay i}
     else insert (kpool_id_to_addr lay i) (kpages_in_use lay s))"
  proof (cases "a \<in> kpool_pages lay")
    case True
    then obtain j where j: "j < NUM_KPAGES lay" "a = kpool_id_to_addr lay j"
      by (auto simp: kpool_pages_def)
    have "kpool_id_to_addr lay j = kpool_id_to_addr lay i \<longleftrightarrow> j = i"
      using kpool_id_to_addr_inj [OF lay j(1) i] by auto
    moreover have "kpages s' ! unat j = (if j = i then c else kpages s ! unat j)"
      using j(1) i len by (auto simp: upd nth_list_update word_less_nat_alt word_unat_eq_iff)
    ultimately show ?thesis
      unfolding j(2) using kpages_in_use_id [OF lay j(1), of s] kpages_in_use_id [OF lay j(1), of s']
      by simp
  next
    case False
    then show ?thesis using i by (auto simp: kpages_in_use_def kpool_pages_def)
  qed
qed

lemma kpage_get_cases:
  assumes lay: "kpool_layout (lay :: ('w::len) layout)" and inv: "kpool_inv lay s"
    and get: "kpage_get lay z clean s = (kpg, s')"
  obtains (none) "kpg = 0" "s' = s" "\<forall>i < NUM_KPAGES lay. kpages s ! unat i \<noteq> 0"
  | (page) i where "i < NUM_KPAGES lay" "kpg = kpool_id_to_addr lay i" "kpages s ! unat i = 0"
      "\<forall>j < i. kpages s ! unat j \<noteq> 0" "kpages s' = (kpages s)[unat i := 1]"
      "kpage_mem s' = (if clean then (kpage_mem s)(kpg := z (kpage_mem s kpg)) else kpage_mem s)"
proof (cases "first_index (\<lambda>c. c = 0) (kpages s)")
  case None
  then have "\<forall>i < NUM_KPAGES lay. kpages s ! unat i \<noteq> 0"
    using inv by (simp add: kpool_inv_def first_index_None_nth word_less_nat_alt)
  with None get that(1) show ?thesis by (simp add: kpage_get_def)
next
  case (Some k)
  note k = first_index_SomeD [OF Some]
  have kn: "k < unat (NUM_KPAGES lay)" using k(1) inv by (simp add: kpool_inv_def)
  then have "k < 2 ^ LENGTH('w)"
    using unsigned_less [of "NUM_KPAGES lay", where 'a = nat] by (rule less_trans)
  then have uk: "unat (of_nat k :: 'w word) = k" by (simp add: unat_of_nat)
  define i where "i = (of_nat k :: 'w word)"
  have ui: "unat i = k" using uk by (simp add: i_def)
  have kpg: "kpg = kpool_id_to_addr lay i" and "kpages s' = (kpages s)[unat i := 1]"
    and "kpage_mem s' = (if clean then (kpage_mem s)(kpg := z (kpage_mem s kpg)) else kpage_mem s)"
    unfolding ui using get Some k(2) by (auto simp: kpage_get_def Let_def i_def split: if_splits)
  moreover have "i < NUM_KPAGES lay" and "\<forall>j < i. kpages s ! unat j \<noteq> 0"
    using k(3) kn by (simp_all add: word_less_nat_alt ui)
  ultimately show ?thesis using that(2) k(2) ui by blast
qed

lemma kpage_get_page:
  assumes lay: "kpool_layout lay" and inv: "kpool_inv lay s"
    and get: "kpage_get lay z clean s = (kpg, s')" and nn: "kpg \<noteq> 0"
  shows "kpool_inv lay s' \<and> kpg \<in> kpool_pages lay - kpages_in_use lay s
    \<and> kpages_in_use lay s' = insert kpg (kpages_in_use lay s)"
proof (cases rule: kpage_get_cases [OF lay inv get])
  case (2 i)
  note page = 2
  have "kpool_inv lay s'"
    using inv page(5) set_update_subset_insert [of "kpages s" "unat i" 1]
    by (auto simp: kpool_inv_def)
  moreover have "kpg \<in> kpool_pages lay - kpages_in_use lay s"
    using page kpages_in_use_id [OF lay page(1), of s] by (auto simp: kpool_pages_def)
  moreover have "kpages_in_use lay s' = insert kpg (kpages_in_use lay s)"
    using kpages_in_use_update [OF lay page(1) _ page(5)] inv page(2) by (simp add: kpool_inv_def)
  ultimately show ?thesis by blast
qed (use nn in simp)

lemma kpage_get_null:
  assumes lay: "kpool_layout lay" and inv: "kpool_inv lay s"
    and get: "kpage_get lay z clean s = (0, s')"
  shows "s' = s \<and> kpages_in_use lay s = kpool_pages lay"
proof (cases rule: kpage_get_cases [OF lay inv get])
  case 1
  have "a \<in> kpages_in_use lay s" if "a \<in> kpool_pages lay" for a
    using 1(3) that kpages_in_use_id [OF lay, of _ s] by (auto simp: kpool_pages_def)
  with 1(2) show ?thesis by (auto simp: kpages_in_use_def)
next
  case (2 i)
  then show ?thesis using kpool_addr_id_inverse(3) [OF lay] by metis
qed

text \<open>\<open>kpage_put\<close> works on the page that contains the given address.\<close>

lemma kpage_put_used:
  assumes lay: "kpool_layout lay" and inv: "kpool_inv lay s" and a: "kpool_is_kpage lay a"
    and pg: "pg = kpool_id_to_addr lay (kpool_addr_to_id lay a)"
    and used: "pg \<in> kpages_in_use lay s" and put: "kpage_put lay a s = (r, s')"
  shows "r = 0" and "kpool_inv lay s'" and "kpages_in_use lay s' = kpages_in_use lay s - {pg}"
    and "kpage_mem s' = kpage_mem s"
proof -
  define i where "i = kpool_addr_to_id lay a"
  have i: "i < NUM_KPAGES lay" using kpool_addr_to_id_valid(2) [OF lay a] by (simp add: i_def)
  then have il: "unat i < length (kpages s)" using inv by (simp add: kpool_inv_def word_less_nat_alt)
  have "kpages s ! unat i \<noteq> 0"
    using used kpages_in_use_id [OF lay i, of s] by (simp add: pg i_def)
  moreover have "kpages s ! unat i \<in> set (kpages s)" using il by simp
  ultimately have one: "kpages s ! unat i = 1" using inv unfolding kpool_inv_def by blast
  then have s': "s' = s\<lparr>kpages := (kpages s)[unat i := 0]\<rparr>" and "r = 0"
    using put a by (auto simp: kpage_put_def Let_def i_def)
  then show "r = 0" "kpage_mem s' = kpage_mem s" by simp_all
  show "kpool_inv lay s'"
    using inv s' set_update_subset_insert [of "kpages s" "unat i" 0] by (auto simp: kpool_inv_def)
  show "kpages_in_use lay s' = kpages_in_use lay s - {pg}"
    using kpages_in_use_update [OF lay i, of s s' 0] inv s' by (simp add: kpool_inv_def pg i_def)
qed

lemma kpage_put_unused:
  assumes lay: "kpool_layout lay"
    and unused: "kpool_id_to_addr lay (kpool_addr_to_id lay a) \<notin> kpages_in_use lay s"
  shows "kpage_put lay a s = (if kpool_is_kpage lay a then - EFAULT else - EINVAL, s)"
  using unused kpool_addr_to_id_valid(2) [OF lay, of a] kpages_in_use_id [OF lay, of _ s]
  by (auto simp: kpage_put_def)

lemma kpool_pages_page:
  assumes lay: "kpool_layout lay" and a: "a \<in> kpool_pages lay"
  shows "kpool_is_kpage lay a" and "kpool_id_to_addr lay (kpool_addr_to_id lay a) = a"
  using a kpool_addr_id_inverse [OF lay] by (auto simp: kpool_pages_def)

section \<open>The pool as a page allocator\<close>

definition kpage_get_option ::
  "('w::len) layout \<Rightarrow> ('m \<Rightarrow> 'm) \<Rightarrow> bool \<Rightarrow> ('w, 'm) kpool \<Rightarrow> 'w word option \<times> ('w, 'm) kpool" where
  "kpage_get_option lay z clean s =
    (case kpage_get lay z clean s of (kpg, s') \<Rightarrow> (if kpg = 0 then None else Some kpg, s'))"

interpretation kpool: page_allocator
  "\<lambda>s. kpool_layout lay \<and> kpool_inv lay s" "kpage_get_option lay z clean" "kpage_put lay"
  "kpages_in_use lay" "kpool_pages lay"
  for lay z clean
proof (standard, goal_cases)
  case (3 s s')
  then show ?case
    using kpage_get_null [of lay s z clean s']
    by (auto simp: kpage_get_option_def split: prod.splits if_splits)
next
  case (4 s p s')
  then have "kpage_get lay z clean s = (p, s')" "p \<noteq> 0"
    by (auto simp: kpage_get_option_def split: prod.splits if_splits)
  then show ?case using kpage_get_page [of lay s z clean p s'] 4(1) by simp
next
  case (5 s p r s')
  then have "p \<in> kpool_pages lay" by (simp add: kpages_in_use_def)
  with 5 show ?case
    using kpage_put_used [of lay s p p r s'] kpool_pages_page [of lay p] by simp
next
  case (6 s p r s')
  then show ?case
    using kpage_put_unused [of lay p s] kpool_pages_page [of lay p] by (auto split: if_splits)
qed (auto simp: kpages_in_use_def kpool_pages_def)

section \<open>Properties\<close>

lemma sample_kpool_layout: "kpool_layout sample_layout"
  using sample_page_geometry
  by (simp add: kpool_layout_def NUM_KPAGES_def)

lemma sample_NUM_KPAGES [simp]: "NUM_KPAGES sample_layout = 4"
  by (simp add: NUM_KPAGES_def)

definition sample_kpool :: "int list \<Rightarrow> (32, nat) kpool" where
  "sample_kpool cs = \<lparr> kpages = cs, kpage_mem = (\<lambda>_. 7) \<rparr>"

text \<open>(C11) \<open>kpage_get\<close> is first-fit, keeps the reference counts at zero or one,
  and cleans what it was asked to clean: it returns the null pointer only when
  every page of the pool is in use, and otherwise the lowest page that was free;
  only that page's count changes, and of the contents of all pages only that
  page's, which is zeroed when the caller asked for a clean page.\<close>

theorem kpage_get_first_fit:
  assumes lay: "kpool_layout lay" and inv: "kpool_inv lay s"
    and get: "kpage_get lay z clean s = (kpg, s')"
  shows "(kpg = 0 \<and> s' = s \<and> kpages_in_use lay s = kpool_pages lay)
    \<or> (kpool_inv lay s' \<and> kpg \<in> kpool_pages lay \<and> kpg \<notin> kpages_in_use lay s
      \<and> (\<forall>a \<in> kpool_pages lay. unat a < unat kpg \<longrightarrow> a \<in> kpages_in_use lay s)
      \<and> kpages_in_use lay s' = insert kpg (kpages_in_use lay s)
      \<and> (\<forall>a. a \<noteq> kpg \<longrightarrow> kpage_mem s' a = kpage_mem s a)
      \<and> kpage_mem s' kpg = (if clean then z (kpage_mem s kpg) else kpage_mem s kpg))"
proof (cases "kpg = 0")
  case True
  then show ?thesis using kpage_get_null [OF lay inv] get by auto
next
  case False
  note page = kpage_get_page [OF lay inv get False]
  from kpage_get_cases [OF lay inv get] obtain i
    where i: "i < NUM_KPAGES lay" "kpg = kpool_id_to_addr lay i"
      "\<forall>j < i. kpages s ! unat j \<noteq> 0"
      and mem: "kpage_mem s' =
        (if clean then (kpage_mem s)(kpg := z (kpage_mem s kpg)) else kpage_mem s)"
    using False by metis
  have "a \<in> kpages_in_use lay s" if a: "a \<in> kpool_pages lay" "unat a < unat kpg" for a
  proof -
    obtain j where j: "j < NUM_KPAGES lay" "a = kpool_id_to_addr lay j"
      using a(1) by (auto simp: kpool_pages_def)
    then have "j < i"
      using a(2) i unat_kpool_id_to_addr(1) [OF lay] by (simp add: word_less_nat_alt)
    then show ?thesis using i(3) j kpages_in_use_id [OF lay j(1), of s] by simp
  qed
  with page mem show ?thesis by auto
qed

theorem kpage_get_first_fit_witness:
  "kpool_inv sample_layout (sample_kpool [1, 0, 1, 0])
    \<and> fst (kpage_get sample_layout (\<lambda>_. 0) True (sample_kpool [1, 0, 1, 0])) = 0x401000
    \<and> kpage_mem (snd (kpage_get sample_layout (\<lambda>_. 0) True (sample_kpool [1, 0, 1, 0]))) 0x401000 = 0"
proof -
  have inv: "kpool_inv sample_layout (sample_kpool [1, 0, 1, 0])"
    by (simp add: kpool_inv_def sample_kpool_def)
  have kpg: "fst (kpage_get sample_layout (\<lambda>_. 0) True (sample_kpool [1, 0, 1, 0])) = 0x401000"
    by (simp add: kpage_get_def sample_kpool_def Let_def kpool_id_to_addr_def)
  then obtain s' where "kpage_get sample_layout (\<lambda>_. 0) True (sample_kpool [1, 0, 1, 0]) = (0x401000, s')"
    by (metis prod.collapse)
  then show ?thesis
    using kpage_get_first_fit [OF sample_kpool_layout inv] inv by fastforce
qed

text \<open>(C12) \<open>kpage_put\<close> on every branch: an address outside the pool is refused with
  \<open>-EINVAL\<close>, one in a page that is not in use with \<open>-EFAULT\<close>, both without effect;
  otherwise the page that contains the address is released, its contents stay,
  and releasing it once more is refused.\<close>

theorem kpage_put_branches:
  assumes lay: "kpool_layout lay" and inv: "kpool_inv lay s"
    and put: "kpage_put lay a s = (r, s')"
    and pg: "pg = kpool_id_to_addr lay (kpool_addr_to_id lay a)"
  shows "(\<not> kpool_is_kpage lay a \<and> r = - EINVAL \<and> s' = s)
    \<or> (kpool_is_kpage lay a \<and> pg \<notin> kpages_in_use lay s \<and> r = - EFAULT \<and> s' = s)
    \<or> (kpool_is_kpage lay a \<and> pg \<in> kpages_in_use lay s \<and> r = 0 \<and> kpool_inv lay s'
      \<and> kpages_in_use lay s' = kpages_in_use lay s - {pg} \<and> kpage_mem s' = kpage_mem s
      \<and> kpage_put lay a s' = (- EFAULT, s'))"
proof (cases "kpool_is_kpage lay a")
  case False
  then show ?thesis using put by (simp add: kpage_put_def)
next
  case True
  show ?thesis
  proof (cases "pg \<in> kpages_in_use lay s")
    case used: True
    note rel = kpage_put_used [OF lay inv True pg used put]
    moreover have "kpage_put lay a s' = (- EFAULT, s')"
      using kpage_put_unused [OF lay, of a s'] rel(3) True by (simp add: pg)
    ultimately show ?thesis using True used by simp
  next
    case False
    then show ?thesis using kpage_put_unused [OF lay, of a s] put True by (simp add: pg)
  qed
qed

theorem kpage_put_branches_witness:
  "fst (kpage_put sample_layout 0x402abc (sample_kpool [1, 0, 1, 0])) = 0
    \<and> fst (kpage_put sample_layout 0x402abc
         (snd (kpage_put sample_layout 0x402abc (sample_kpool [1, 0, 1, 0])))) = - EFAULT"
proof -
  have inv: "kpool_inv sample_layout (sample_kpool [1, 0, 1, 0])"
    by (simp add: kpool_inv_def sample_kpool_def)
  have "kpool_is_kpage sample_layout 0x402abc"
    and "fst (kpage_put sample_layout 0x402abc (sample_kpool [1, 0, 1, 0])) = 0"
    by (simp_all add: kpage_put_def sample_kpool_def kpool_is_kpage_def
        kpool_addr_to_id_def drop_bit_eq_div)
  then show ?thesis
    using kpage_put_branches [OF sample_kpool_layout inv surjective_pairing refl, of "0x402abc"]
    by auto
qed

text \<open>Pages of the pool have three names (identifier, virtual address, frame
  number) and the conversions between them are inverse to each other; distinct
  pages have distinct addresses, and an address anywhere in a page is converted
  to that page's identifier.\<close>

theorem kpool_conversions_roundtrip:
  assumes lay: "kpool_layout lay" and i: "i < NUM_KPAGES lay"
    and off: "unat (d :: 'w word) < unat (PAGE_SIZE (lay :: ('w::len) layout))"
  shows "kpool_is_kpage lay (kpool_id_to_addr lay i + d)
    \<and> kpool_addr_to_id lay (kpool_id_to_addr lay i + d) = i
    \<and> kpool_frame_to_addr lay (kpool_addr_to_frame lay (kpool_id_to_addr lay i + d)) =
        kpool_id_to_addr lay i"
proof -
  have geo: "page_geometry lay" using lay by (simp add: kpool_layout_def)
  note u = unat_kpool_id_to_addr [OF lay i]
  have d: "unat d < 2 ^ PAGE_SHIFT lay" using off unat_PAGE_SIZE [OF geo] by simp
  have ud: "unat (kpool_id_to_addr lay i + d) =
      unat (KPOOL_VIRT lay) + unat i * 2 ^ PAGE_SHIFT lay + unat d"
    using u d lay by (simp add: unat_word_ariths kpool_layout_def)
  then have k: "kpool_is_kpage lay (kpool_id_to_addr lay i + d)"
    unfolding kpool_is_kpage_unat [OF lay] using u(2) d by linarith
  then have "kpool_addr_to_id lay (kpool_id_to_addr lay i + d) = i"
    using kpool_addr_to_id_valid(1) [OF lay k] ud d
    by (simp add: word_unat_eq_iff add.commute [of _ "unat d"] add.assoc)
  with k show ?thesis
    by (simp add: kpool_frame_to_addr_def kpool_addr_to_frame_def)
qed

theorem kpool_conversions_roundtrip_witness:
  "kpool_addr_to_id sample_layout (kpool_id_to_addr sample_layout 3 + 0x123) = 3"
  using kpool_conversions_roundtrip [OF sample_kpool_layout, of 3 "0x123"] by simp

end
