(* ===== verification/Paging.thy ===== *)
theory Paging
  imports Frame Kpool
begin

unbundle bit_operations_syntax

text \<open>
  The user page pool: \<^verbatim>\<open>src/kernel/mm/page.c\<close>.  Page directories and page tables
  are lists of entries; a page table lives in a page of the kernel pool and is
  reached through the frame number of its directory entry, as in the source.

  The formats of the entries, the index functions, and the TLB belong to the
  hardware abstraction layer: they are the fields of \<open>mmu_ops\<close>, and \<open>mmu_laws\<close>
  states what its documentation says about them.  Cache maintenance, which has no
  result that the kernel can see, is left out.
\<close>

record (overloaded) ('w :: len, 'pde, 'pte, 't) mmu_ops =
  pde_idx         :: "'w word \<Rightarrow> nat"
  pde_is_present  :: "'pde \<Rightarrow> bool"
  pde_frame_get   :: "'pde \<Rightarrow> 'w word"
  pde_present_set :: "'pde \<Rightarrow> bool \<Rightarrow> 'pde"
  mmu_pgtab_map   :: "'pde list \<Rightarrow> 'w word \<Rightarrow> 'w word \<Rightarrow> 'pde list"
  pte_idx         :: "'w word \<Rightarrow> nat"
  pte_is_present  :: "'pte \<Rightarrow> bool"
  pte_frame_get   :: "'pte \<Rightarrow> 'w word"
  pte_present_set :: "'pte \<Rightarrow> bool \<Rightarrow> 'pte"
  pte_clear       :: "'pte \<Rightarrow> 'pte"
  mmu_page_map    :: "'pte list \<Rightarrow> 'w word \<Rightarrow> 'w word \<Rightarrow> bool \<Rightarrow> bool \<Rightarrow> 'pte list"
  tlb_flush       :: "'t \<Rightarrow> 't"
  tlb_inval       :: "int \<Rightarrow> 'w word \<Rightarrow> 't \<Rightarrow> int \<times> 't"
  tlb_shootdown   :: "'w word \<Rightarrow> 't \<Rightarrow> int \<times> 't"
  tlb_write       :: "int \<Rightarrow> 'w word \<Rightarrow> 'w word \<Rightarrow> 't \<Rightarrow> int \<times> 't"
  TLB_INSTRUCTION :: int
  TLB_DATA        :: int
  PDE_SIZE        :: "'w word"

text \<open>The platform and the build: the layout, the bitmap and MMU routines, the
  preprocessor symbols the file tests, and a user page filled with zeros.\<close>

record (overloaded) ('w :: len, 'b, 'pde, 'pte, 't, 'u) mm_env =
  env_layout :: "'w layout"
  env_bitmap :: "('b, 'w) bitmap_ops"
  env_mmu    :: "('w, 'pde, 'pte, 't) mmu_ops"
  CORE_HAS_TLB_HW           :: bool
  CLUSTER_HAS_TLB_SHOOTDOWN :: bool
  NANVIX_FAST_MEMORY        :: bool
  zero_page  :: 'u

text \<open>The state of the memory system: the frame bitmap, the kernel page pool with
  the page tables in it, the page directories by pointer, the contents of the
  user frames, and the TLB.\<close>

record (overloaded) ('w :: len, 'b, 'pde, 'pte, 't, 'u) mm_state =
  frames :: 'b
  kpool  :: "('w, 'pte list) kpool"
  pgdirs :: "nat \<Rightarrow> 'pde list"
  umem   :: "'w word \<Rightarrow> 'u"
  tlb    :: 't

text \<open>The number of entries that the loops over a page table visit,
  \<open>PAGE_SIZE/PDE_SIZE\<close>.\<close>

definition pgtab_entries :: "('w::len, 'b, 'pde, 'pte, 't, 'u) mm_env \<Rightarrow> nat" where
  "pgtab_entries E = unat (PAGE_SIZE (env_layout E) div PDE_SIZE (env_mmu E))"

definition flush_tlb ::
  "('w::len, 'b, 'pde, 'pte, 't, 'u) mm_env \<Rightarrow> ('w, 'b, 'pde, 'pte, 't, 'u) mm_state
    \<Rightarrow> ('w, 'b, 'pde, 'pte, 't, 'u) mm_state" where
  "flush_tlb E s = s\<lparr>tlb := tlb_flush (env_mmu E) (tlb s)\<rparr>"

definition pgtab_of ::
  "('w::len, 'b, 'pde, 'pte, 't, 'u) mm_state \<Rightarrow> 'w word \<Rightarrow> 'pte list" where
  "pgtab_of s a = kpage_mem (kpool s) a"

definition set_pgtab ::
  "'w word \<Rightarrow> 'pte list \<Rightarrow> ('w::len, 'b, 'pde, 'pte, 't, 'u) mm_state
    \<Rightarrow> ('w, 'b, 'pde, 'pte, 't, 'u) mm_state" where
  "set_pgtab a tab s =
    s\<lparr>kpool := (kpool s)\<lparr>kpage_mem := (kpage_mem (kpool s))(a := tab)\<rparr>\<rparr>"

section \<open>Page tables\<close>

text \<open>
  \<open>pgtab_map\<close> returns the index of the directory entry, \<^const>\<open>None\<close> for a null
  pointer; the outer option is the assertion in its body.
\<close>

definition pgtab_map ::
  "('w::len, 'b, 'pde, 'pte, 't, 'u) mm_env \<Rightarrow> nat \<Rightarrow> 'w word
    \<Rightarrow> ('w, 'b, 'pde, 'pte, 't, 'u) mm_state
    \<Rightarrow> (nat option \<times> ('w, 'b, 'pde, 'pte, 't, 'u) mm_state) option" where
  "pgtab_map E pgdir vaddr s =
    (let lay = env_layout E; mmu = env_mmu E;
         vaddr = vaddr AND PGTAB_MASK lay;
         pde = pde_idx mmu vaddr
     in if pde_is_present mmu (pgdirs s pgdir ! pde) then Some (None, s)
        else case kpage_get lay (\<lambda>m. m) False (kpool s) of (pgtab, kp) \<Rightarrow>
          let s = s\<lparr>kpool := kp\<rparr>
          in if pgtab = 0 then Some (None, s)
             else let frame = kpool_addr_to_frame lay pgtab;
                      dir = mmu_pgtab_map mmu (pgdirs s pgdir)
                              (push_bit (PAGE_SHIFT lay) frame) vaddr;
                      s = s\<lparr>pgdirs := (pgdirs s)(pgdir := dir)\<rparr>
                  in do {
                    KASSERT (pde_is_present mmu (dir ! pde));
                    let s = flush_tlb E s;
                    let n = pgtab_entries E;
                    let tab = pgtab_of s pgtab;
                    Some (Some pde, set_pgtab pgtab (map (pte_clear mmu) (take n tab) @ drop n tab) s)
                  })"

definition pgtab_unmap ::
  "('w::len, 'b, 'pde, 'pte, 't, 'u) mm_env \<Rightarrow> nat \<Rightarrow> 'w word
    \<Rightarrow> ('w, 'b, 'pde, 'pte, 't, 'u) mm_state
    \<Rightarrow> int \<times> ('w, 'b, 'pde, 'pte, 't, 'u) mm_state" where
  "pgtab_unmap E pgdir vaddr s =
    (let lay = env_layout E; mmu = env_mmu E;
         i = pde_idx mmu vaddr; pde = pgdirs s pgdir ! i
     in if \<not> pde_is_present mmu pde then (0, s)
        else let frame = pde_frame_get mmu pde;
                 pgtab = kpool_frame_to_addr lay frame
             in if list_ex (pte_is_present mmu) (take (pgtab_entries E) (pgtab_of s pgtab))
                then (- EBUSY, s)
                else let s = s\<lparr>pgdirs := (pgdirs s)
                               (pgdir := (pgdirs s pgdir)[i := pde_present_set mmu pde False])\<rparr>;
                         s = flush_tlb E s
                     in case kpage_put lay pgtab (kpool s) of (r, kp) \<Rightarrow>
                          (if r < 0 then - EIO else 0, s\<lparr>kpool := kp\<rparr>))"

section \<open>User pages\<close>

definition upage_inval ::
  "('w::len, 'b, 'pde, 'pte, 't, 'u) mm_env \<Rightarrow> 'w word
    \<Rightarrow> ('w, 'b, 'pde, 'pte, 't, 'u) mm_state
    \<Rightarrow> (int \<times> ('w, 'b, 'pde, 'pte, 't, 'u) mm_state) option" where
  "upage_inval E vaddr s =
    (let mmu = env_mmu E; vaddr = vaddr AND PAGE_MASK (env_layout E)
     in if \<not> mm_is_uaddr (env_layout E) vaddr then Some (- EINVAL, s)
        else do {
          s \<leftarrow> (if \<not> CORE_HAS_TLB_HW E
               then do {
                 let (r1, t1) = tlb_inval mmu (TLB_INSTRUCTION mmu) vaddr (tlb s);
                 KASSERT (r1 = 0);
                 let (r2, t2) = tlb_inval mmu (TLB_DATA mmu) vaddr t1;
                 KASSERT (r2 = 0);
                 Some (s\<lparr>tlb := t2\<rparr>)
               }
               else Some s);
          s \<leftarrow> (if CLUSTER_HAS_TLB_SHOOTDOWN E
               then do {
                 let (r, t) = tlb_shootdown mmu vaddr (tlb s);
                 KASSERT (r = 0);
                 Some (s\<lparr>tlb := t\<rparr>)
               }
               else Some s);
          Some (0, flush_tlb E s)
        })"

text \<open>The page directory argument is a pointer, \<^const>\<open>None\<close> for \<open>NULL\<close>.\<close>

definition upage_map ::
  "('w::len, 'b, 'pde, 'pte, 't, 'u) mm_env \<Rightarrow> nat option \<Rightarrow> 'w word \<Rightarrow> 'w word
    \<Rightarrow> ('w, 'b, 'pde, 'pte, 't, 'u) mm_state
    \<Rightarrow> (int \<times> ('w, 'b, 'pde, 'pte, 't, 'u) mm_state) option" where
  "upage_map E pgdir vaddr frame s =
    (let lay = env_layout E; mmu = env_mmu E
     in case pgdir of None \<Rightarrow> Some (- EINVAL, s)
        | Some pgd \<Rightarrow>
          if \<not> mm_is_uaddr lay vaddr then Some (- EFAULT, s)
          else if vaddr AND NOT (PAGE_MASK lay) \<noteq> 0 then Some (- EINVAL, s)
          else do {
            (pde, s) \<leftarrow>
              (let pde = pde_idx mmu vaddr
               in if \<not> pde_is_present mmu (pgdirs s pgd ! pde)
                  then pgtab_map E pgd vaddr s
                  else Some (Some pde, s));
            (case pde of None \<Rightarrow> Some (- EAGAIN, s)
             | Some pde \<Rightarrow>
                 let pgtab = kpool_frame_to_addr lay (pde_frame_get mmu (pgdirs s pgd ! pde));
                     pte = pte_idx mmu vaddr
                 in if pte_is_present mmu (pgtab_of s pgtab ! pte)
                    then Some (- EADDRINUSE, s)
                    else do {
                      let tab = mmu_page_map mmu (pgtab_of s pgtab)
                                  (push_bit (PAGE_SHIFT lay) frame) vaddr True False;
                      KASSERT (pte_is_present mmu (tab ! pte));
                      Some (0, flush_tlb E (set_pgtab pgtab tab s))
                    })
          })"

definition upage_unmap ::
  "('w::len, 'b, 'pde, 'pte, 't, 'u) mm_env \<Rightarrow> nat option \<Rightarrow> 'w word
    \<Rightarrow> ('w, 'b, 'pde, 'pte, 't, 'u) mm_state
    \<Rightarrow> ('w word \<times> ('w, 'b, 'pde, 'pte, 't, 'u) mm_state) option" where
  "upage_unmap E pgdir vaddr s =
    (let lay = env_layout E; mmu = env_mmu E
     in case pgdir of None \<Rightarrow> Some (FRAME_NULL, s)
        | Some pgd \<Rightarrow>
          if \<not> mm_is_uaddr lay vaddr then Some (FRAME_NULL, s)
          else if vaddr AND NOT (PAGE_MASK lay) \<noteq> 0 then Some (FRAME_NULL, s)
          else
            let pde = pgdirs s pgd ! pde_idx mmu vaddr
            in if \<not> pde_is_present mmu pde then Some (FRAME_NULL, s)
               else
                 let pgtab = kpool_frame_to_addr lay (pde_frame_get mmu pde);
                     i = pte_idx mmu vaddr;
                     pte = pgtab_of s pgtab ! i
                 in if \<not> pte_is_present mmu pte then Some (FRAME_NULL, s)
                    else do {
                      let frame = pte_frame_get mmu pte;
                      let s = set_pgtab pgtab
                                ((pgtab_of s pgtab)[i := pte_present_set mmu pte False]) s;
                      (_, s) \<leftarrow> upage_inval E vaddr s;
                      let s = (if \<not> NANVIX_FAST_MEMORY E then snd (pgtab_unmap E pgd vaddr s) else s);
                      Some (frame, s)
                    })"

definition upage_alloc ::
  "('w::len, 'b, 'pde, 'pte, 't, 'u) mm_env \<Rightarrow> nat option \<Rightarrow> 'w word
    \<Rightarrow> ('w, 'b, 'pde, 'pte, 't, 'u) mm_state
    \<Rightarrow> (int \<times> ('w, 'b, 'pde, 'pte, 't, 'u) mm_state) option" where
  "upage_alloc E pgdir vaddr s =
    (let lay = env_layout E; bm = env_bitmap E
     in if pgdir = None then Some (- EINVAL, s)
        else case frame_alloc lay bm (frames s) of (frame, fs) \<Rightarrow>
          if frame = FRAME_NULL then Some (- EAGAIN, s\<lparr>frames := fs\<rparr>)
          else do {
            (err, s) \<leftarrow> upage_map E pgdir vaddr frame (s\<lparr>frames := fs\<rparr>);
            if err < 0
            then Some (err, s\<lparr>frames := snd (frame_free lay bm frame (frames s))\<rparr>)
            else Some (0, if \<not> NANVIX_FAST_MEMORY E
                          then s\<lparr>umem := (umem s)(frame := zero_page E)\<rparr> else s)
          })"

definition upage_free ::
  "('w::len, 'b, 'pde, 'pte, 't, 'u) mm_env \<Rightarrow> nat option \<Rightarrow> 'w word
    \<Rightarrow> ('w, 'b, 'pde, 'pte, 't, 'u) mm_state
    \<Rightarrow> (int \<times> ('w, 'b, 'pde, 'pte, 't, 'u) mm_state) option" where
  "upage_free E pgdir vaddr s =
    (if pgdir = None then Some (- EFAULT, s)
     else do {
       (frame, s) \<leftarrow> upage_unmap E pgdir vaddr s;
       if frame = FRAME_NULL then Some (- EFAULT, s)
       else case frame_free (env_layout E) (env_bitmap E) frame (frames s) of (r, fs) \<Rightarrow>
         Some (if r < 0 then - EIO else 0, s\<lparr>frames := fs\<rparr>)
     })"

definition upage_link ::
  "('w::len, 'b, 'pde, 'pte, 't, 'u) mm_env \<Rightarrow> nat option \<Rightarrow> 'w word \<Rightarrow> 'w word
    \<Rightarrow> ('w, 'b, 'pde, 'pte, 't, 'u) mm_state
    \<Rightarrow> (int \<times> ('w, 'b, 'pde, 'pte, 't, 'u) mm_state) option" where
  "upage_link E pgdir vaddr1 vaddr2 s =
    (let lay = env_layout E; mmu = env_mmu E
     in case pgdir of None \<Rightarrow> Some (- EINVAL, s)
        | Some pgd \<Rightarrow>
          if \<not> mm_is_uaddr lay vaddr2 then Some (- EFAULT, s)
          else if vaddr2 AND NOT (PAGE_MASK lay) \<noteq> 0 then Some (- EINVAL, s)
          else
            let pde1 = pgdirs s pgd ! pde_idx mmu vaddr1
            in if \<not> pde_is_present mmu pde1 then Some (- EFAULT, s)
               else
                 let pgtab = kpool_frame_to_addr lay (pde_frame_get mmu pde1);
                     pte1 = pgtab_of s pgtab ! pte_idx mmu vaddr1
                 in if \<not> pte_is_present mmu pte1 then Some (- EFAULT, s)
                    else upage_map E pgdir vaddr2 (pte_frame_get mmu pte1) s)"

text \<open>
  The TLB fault handler of cores without a hardware-managed TLB.  The page-fault
  exception it forwards to is the parameter \<open>forward\<close>; after forwarding, the
  source sets \<open>retry\<close> to false and returns at the label \<open>again\<close>.  The handler
  reads page tables at their physical address.
\<close>

definition do_tlb_fault ::
  "('w::len, 'b, 'pde, 'pte, 't, 'u) mm_env \<Rightarrow> nat
    \<Rightarrow> (('w, 'b, 'pde, 'pte, 't, 'u) mm_state \<Rightarrow> ('w, 'b, 'pde, 'pte, 't, 'u) mm_state)
    \<Rightarrow> bool \<Rightarrow> 'w word
    \<Rightarrow> ('w, 'b, 'pde, 'pte, 't, 'u) mm_state
    \<Rightarrow> ('w, 'b, 'pde, 'pte, 't, 'u) mm_state option" where
  "do_tlb_fault E root_pgdir forward is_dtlb_fault addr s =
    (let lay = env_layout E; mmu = env_mmu E;
         vaddr = addr AND PAGE_MASK lay;
         pde = pgdirs s root_pgdir ! pde_idx mmu vaddr
     in if \<not> pde_is_present mmu pde then Some (forward s)
        else
          let pgtab = push_bit (PAGE_SHIFT lay) (pde_frame_get mmu pde);
              pte = pgtab_of s pgtab ! pte_idx mmu vaddr
          in if \<not> pte_is_present mmu pte then Some (forward s)
             else
               let tlb_type = (if is_dtlb_fault then TLB_DATA mmu else TLB_INSTRUCTION mmu);
                   paddr = push_bit (PAGE_SHIFT lay) (pte_frame_get mmu pte)
               in case tlb_write mmu tlb_type vaddr paddr (tlb s) of (r, t) \<Rightarrow>
                    if r < 0 then None else Some (flush_tlb E (s\<lparr>tlb := t\<rparr>)))"

section \<open>Hypotheses on the MMU\<close>

text \<open>
  Two addresses are on the same page when they agree outside the page offset.
  The documented behaviour of the MMU routines: the indices of an address depend
  on its page only and determine it, mapping writes one present entry with the
  given frame, clearing and resetting make an entry absent, and the TLB
  maintenance routines succeed.
\<close>

definition same_page :: "('w::len) layout \<Rightarrow> 'w word \<Rightarrow> 'w word \<Rightarrow> bool" where
  "same_page lay v w \<longleftrightarrow> v AND PAGE_MASK lay = w AND PAGE_MASK lay"

definition mmu_laws :: "('w::len, 'b, 'pde, 'pte, 't, 'u) mm_env \<Rightarrow> bool" where
  "mmu_laws E \<longleftrightarrow>
    (let lay = env_layout E; mmu = env_mmu E
     in (\<forall>p b. pde_is_present mmu (pde_present_set mmu p b) = b)
      \<and> (\<forall>p b. pte_is_present mmu (pte_present_set mmu p b) = b)
      \<and> (\<forall>p. \<not> pte_is_present mmu (pte_clear mmu p))
      \<and> (\<forall>v. pde_idx mmu (v AND PGTAB_MASK lay) = pde_idx mmu v)
      \<and> (\<forall>v. pte_idx mmu v < pgtab_entries E)
      \<and> (\<forall>v w. pde_idx mmu v = pde_idx mmu w \<and> pte_idx mmu v = pte_idx mmu w \<longleftrightarrow>
            same_page lay v w)
      \<and> (\<forall>dir pa v. \<exists>e. mmu_pgtab_map mmu dir pa v = dir[pde_idx mmu v := e]
            \<and> pde_is_present mmu e \<and> pde_frame_get mmu e = drop_bit (PAGE_SHIFT lay) pa)
      \<and> (\<forall>tab pa v w x. \<exists>e. mmu_page_map mmu tab pa v w x = tab[pte_idx mmu v := e]
            \<and> pte_is_present mmu e \<and> pte_frame_get mmu e = drop_bit (PAGE_SHIFT lay) pa)
      \<and> (\<forall>ty v t. fst (tlb_inval mmu ty v t) = 0) \<and> (\<forall>v t. fst (tlb_shootdown mmu v t) = 0))"

section \<open>Translation and invariant\<close>

text \<open>\<open>pgtab_at E s d i\<close> is the page table that entry \<open>i\<close> of directory \<open>d\<close> points
  to; \<open>translate E s d v\<close> is the frame that directory \<open>d\<close> maps at address \<open>v\<close>.\<close>

definition pgtab_at ::
  "('w::len, 'b, 'pde, 'pte, 't, 'u) mm_env \<Rightarrow> ('w, 'b, 'pde, 'pte, 't, 'u) mm_state
    \<Rightarrow> nat \<Rightarrow> nat \<Rightarrow> 'w word option" where
  "pgtab_at E s d i =
    (let pde = pgdirs s d ! i
     in if i < length (pgdirs s d) \<and> pde_is_present (env_mmu E) pde
        then Some (kpool_frame_to_addr (env_layout E) (pde_frame_get (env_mmu E) pde))
        else None)"

definition translate ::
  "('w::len, 'b, 'pde, 'pte, 't, 'u) mm_env \<Rightarrow> ('w, 'b, 'pde, 'pte, 't, 'u) mm_state
    \<Rightarrow> nat \<Rightarrow> 'w word \<Rightarrow> 'w word option" where
  "translate E s d v =
    (case pgtab_at E s d (pde_idx (env_mmu E) v) of
       None \<Rightarrow> None
     | Some a \<Rightarrow>
         let pte = pgtab_of s a ! pte_idx (env_mmu E) v
         in if pte_is_present (env_mmu E) pte then Some (pte_frame_get (env_mmu E) pte) else None)"

text \<open>
  The invariant of the page pool: the kernel pool is well formed, every page of it
  has room for a page table, the directories cover every index, each page table
  in use occupies an allocated kernel page, and no two directory entries share a
  page table.
\<close>

definition paging_inv ::
  "('w::len, 'b, 'pde, 'pte, 't, 'u) mm_env \<Rightarrow> ('w, 'b, 'pde, 'pte, 't, 'u) mm_state \<Rightarrow> bool" where
  "paging_inv E s \<longleftrightarrow>
    kpool_inv (env_layout E) (kpool s)
    \<and> (\<forall>a \<in> kpool_pages (env_layout E). length (pgtab_of s a) = pgtab_entries E)
    \<and> (\<forall>d v. pde_idx (env_mmu E) v < length (pgdirs s d))
    \<and> (\<forall>d i a. pgtab_at E s d i = Some a \<longrightarrow> a \<in> kpages_in_use (env_layout E) (kpool s))
    \<and> (\<forall>d i d' i' a. pgtab_at E s d i = Some a \<longrightarrow> pgtab_at E s d' i' = Some a \<longrightarrow>
          d = d' \<and> i = i')"

definition paging_env :: "('w::len, 'b, 'pde, 'pte, 't, 'u) mm_env \<Rightarrow> bool" where
  "paging_env E \<longleftrightarrow> mmu_laws E \<and> kpool_layout (env_layout E)"

lemma mmu_laws_rules:
  assumes "mmu_laws E"
  shows "pde_is_present (env_mmu E) (pde_present_set (env_mmu E) p b) = b"
    and "pte_is_present (env_mmu E) (pte_present_set (env_mmu E) q b) = b"
    and "\<not> pte_is_present (env_mmu E) (pte_clear (env_mmu E) q)"
    and "pde_idx (env_mmu E) (v AND PGTAB_MASK (env_layout E)) = pde_idx (env_mmu E) v"
    and "pte_idx (env_mmu E) v < pgtab_entries E"
    and "pde_idx (env_mmu E) v = pde_idx (env_mmu E) w \<and> pte_idx (env_mmu E) v = pte_idx (env_mmu E) w
      \<longleftrightarrow> same_page (env_layout E) v w"
    and "\<exists>e. mmu_pgtab_map (env_mmu E) dir pa v = dir[pde_idx (env_mmu E) v := e]
      \<and> pde_is_present (env_mmu E) e
      \<and> pde_frame_get (env_mmu E) e = drop_bit (PAGE_SHIFT (env_layout E)) pa"
    and "\<exists>e. mmu_page_map (env_mmu E) tab pa v wr ex = tab[pte_idx (env_mmu E) v := e]
      \<and> pte_is_present (env_mmu E) e
      \<and> pte_frame_get (env_mmu E) e = drop_bit (PAGE_SHIFT (env_layout E)) pa"
    and "fst (tlb_inval (env_mmu E) ty v t) = 0" and "fst (tlb_shootdown (env_mmu E) v t) = 0"
  using assms unfolding mmu_laws_def Let_def by simp_all

lemma paging_invD:
  assumes "paging_inv E s"
  shows "kpool_inv (env_layout E) (kpool s)"
    and "a \<in> kpool_pages (env_layout E) \<Longrightarrow> length (pgtab_of s a) = pgtab_entries E"
    and "pde_idx (env_mmu E) v < length (pgdirs s d)"
    and "pgtab_at E s d i = Some a \<Longrightarrow> a \<in> kpages_in_use (env_layout E) (kpool s)"
    and "pgtab_at E s d i = Some a \<Longrightarrow> pgtab_at E s d' i' = Some a \<Longrightarrow> d = d' \<and> i = i'"
  using assms unfolding paging_inv_def by blast+

lemma set_pgtab_simps [simp]:
  "frames (set_pgtab a t s) = frames s" "pgdirs (set_pgtab a t s) = pgdirs s"
  "umem (set_pgtab a t s) = umem s" "tlb (set_pgtab a t s) = tlb s"
  "kpages (kpool (set_pgtab a t s)) = kpages (kpool s)"
  "pgtab_of (set_pgtab a t s) b = (if b = a then t else pgtab_of s b)"
  by (simp_all add: set_pgtab_def pgtab_of_def)

lemma flush_tlb_simps [simp]:
  "frames (flush_tlb E s) = frames s" "pgdirs (flush_tlb E s) = pgdirs s"
  "umem (flush_tlb E s) = umem s" "kpool (flush_tlb E s) = kpool s"
  "pgtab_of (flush_tlb E s) = pgtab_of s"
  by (simp_all add: flush_tlb_def pgtab_of_def fun_eq_iff)

lemma pgtab_at_cong:
  "pgdirs s = pgdirs s' \<Longrightarrow> pgtab_at E s = pgtab_at E s'"
  by (simp add: pgtab_at_def fun_eq_iff)

lemma kpages_in_use_cong:
  "kpages k = kpages k' \<Longrightarrow> kpages_in_use lay k = kpages_in_use lay k'"
  by (simp add: kpages_in_use_def)

lemma kpool_inv_cong: "kpages k = kpages k' \<Longrightarrow> kpool_inv lay k = kpool_inv lay k'"
  by (simp add: kpool_inv_def)

lemma pgtab_at_update:
  assumes "i < length (pgdirs s d)" and "pgdirs s' = (pgdirs s)(d := (pgdirs s d)[i := e])"
  shows "pgtab_at E s' d' i' =
    (if d' = d \<and> i' = i
     then (if pde_is_present (env_mmu E) e
           then Some (kpool_frame_to_addr (env_layout E) (pde_frame_get (env_mmu E) e)) else None)
     else pgtab_at E s d' i')"
  using assms by (auto simp: pgtab_at_def Let_def nth_list_update)

text \<open>A kernel page's frame number survives the shift to a physical address and back.\<close>

lemma kpool_frame_shift:
  assumes lay: "kpool_layout (lay :: ('w::len) layout)" and a: "a \<in> kpool_pages lay"
  shows "kpool_frame_to_addr lay
    (drop_bit (PAGE_SHIFT lay) (push_bit (PAGE_SHIFT lay) (kpool_addr_to_frame lay a))) = a"
proof -
  let ?P = "PAGE_SHIFT lay" and ?f = "kpool_addr_to_frame lay a"
  obtain i where i: "i < NUM_KPAGES lay" and a: "a = kpool_id_to_addr lay i"
    using a by (auto simp: kpool_pages_def)
  have sz: "unat i * 2 ^ ?P + 2 ^ ?P \<le> unat (KPOOL_SIZE lay)"
    using unat_kpool_id_to_addr(2) [OF lay i] .
  have "unat (KPOOL_PHYS lay) div 2 ^ ?P * 2 ^ ?P \<le> unat (KPOOL_PHYS lay)" by simp
  with sz have "(unat i + unat (KPOOL_PHYS lay) div 2 ^ ?P) * 2 ^ ?P < 2 ^ LENGTH('w)"
    using lay unfolding kpool_layout_def add_mult_distrib by linarith
  moreover from this have "unat i + unat (KPOOL_PHYS lay) div 2 ^ ?P < 2 ^ LENGTH('w)"
    by (rule le_less_trans [rotated]) simp
  then have "unat ?f = unat i + unat (KPOOL_PHYS lay) div 2 ^ ?P"
    using kpool_addr_id_inverse(2) [OF lay i]
    by (simp add: kpool_addr_to_frame_def a unat_word_ariths unat_drop_bit_word)
  ultimately have "unat (push_bit ?P ?f) = unat ?f * 2 ^ ?P"
    using lay by (simp add: push_bit_eq_mult unat_word_ariths unat_pow2 kpool_layout_def page_geometry_def)
  then have "drop_bit ?P (push_bit ?P ?f) = ?f"
    by (simp add: word_unat_eq_iff unat_drop_bit_word)
  then show ?thesis using kpool_frame_addr_inverse [OF lay i] by (simp add: a)
qed

section \<open>Mapping and unmapping page tables\<close>

text \<open>What a new page table changes: one entry of one directory, which now points
  to a kernel page that was free and holds absent entries only.\<close>

definition new_pgtab ::
  "('w::len, 'b, 'pde, 'pte, 't, 'u) mm_env \<Rightarrow> nat \<Rightarrow> nat \<Rightarrow> 'w word
    \<Rightarrow> ('w, 'b, 'pde, 'pte, 't, 'u) mm_state \<Rightarrow> ('w, 'b, 'pde, 'pte, 't, 'u) mm_state \<Rightarrow> bool" where
  "new_pgtab E d i a s s' \<longleftrightarrow>
    a \<in> kpool_pages (env_layout E) - kpages_in_use (env_layout E) (kpool s)
    \<and> kpages_in_use (env_layout E) (kpool s') = insert a (kpages_in_use (env_layout E) (kpool s))
    \<and> (\<forall>d' i'. pgtab_at E s' d' i' =
          (if d' = d \<and> i' = i then Some a else pgtab_at E s d' i'))
    \<and> (\<forall>b. b \<noteq> a \<longrightarrow> pgtab_of s' b = pgtab_of s b)
    \<and> (\<forall>j < pgtab_entries E. \<not> pte_is_present (env_mmu E) (pgtab_of s' a ! j))
    \<and> frames s' = frames s \<and> umem s' = umem s"

lemma new_pgtab_inv:
  assumes inv: "paging_inv E s" and new: "new_pgtab E d i a s s'"
    and "kpool_inv (env_layout E) (kpool s')" and "length (pgtab_of s' a) = pgtab_entries E"
    and "\<And>d'. length (pgdirs s' d') = length (pgdirs s d')"
  shows "paging_inv E s'"
  unfolding paging_inv_def
proof (intro conjI allI impI ballI)
  note invD = paging_invD [OF inv]
  note new' = new [unfolded new_pgtab_def]
  show "length (pgtab_of s' b) = pgtab_entries E" if "b \<in> kpool_pages (env_layout E)" for b
    using invD(2) [OF that] new' assms(4) by (cases "b = a") auto
  show "pde_idx (env_mmu E) w < length (pgdirs s' d')" for d' w
    using invD(3) assms(5) by simp
  show "b \<in> kpages_in_use (env_layout E) (kpool s')" if "pgtab_at E s' d' i' = Some b" for d' i' b
    using that invD(4) new' by (auto split: if_splits)
  show "d' = d''" "i' = i''"
    if "pgtab_at E s' d' i' = Some b" "pgtab_at E s' d'' i'' = Some b" for d' i' d'' i'' b
    using that invD(4,5) new' by (auto split: if_splits)
qed (rule assms(3))

lemma pgtab_map_spec:
  assumes env: "paging_env E" and inv: "paging_inv E s"
    and absent: "pgtab_at E s d (pde_idx (env_mmu E) v) = None"
  obtains (full) "pgtab_map E d v s = Some (None, s)"
      "kpages_in_use (env_layout E) (kpool s) = kpool_pages (env_layout E)"
  | (new) a s' where "pgtab_map E d v s = Some (Some (pde_idx (env_mmu E) v), s')"
      "new_pgtab E d (pde_idx (env_mmu E) v) a s s'" "paging_inv E s'"
proof -
  let ?lay = "env_layout E" and ?mmu = "env_mmu E" and ?i = "pde_idx (env_mmu E) v"
  have laws: "mmu_laws E" and lay: "kpool_layout ?lay" using env by (simp_all add: paging_env_def)
  note rules = mmu_laws_rules [OF laws] and invD = paging_invD [OF inv]
  have il: "?i < length (pgdirs s d)" by (rule invD(3))
  have np: "\<not> pde_is_present ?mmu (pgdirs s d ! ?i)"
    using absent il by (simp add: pgtab_at_def Let_def split: if_splits)
  obtain a kp where get: "kpage_get ?lay (\<lambda>m. m) False (kpool s) = (a, kp)" by fastforce
  show thesis
  proof (cases "a = 0")
    case True
    then have "kp = kpool s" "kpages_in_use ?lay (kpool s) = kpool_pages ?lay"
      using kpage_get_null [OF lay invD(1)] get by auto
    then show thesis
      using full np get True by (simp add: pgtab_map_def Let_def rules(4))
  next
    case False
    note page = kpage_get_page [OF lay invD(1) get False]
    have mem: "kpage_mem kp = kpage_mem (kpool s)"
      using kpage_get_cases [OF lay invD(1) get] by metis
    obtain e where e: "mmu_pgtab_map ?mmu (pgdirs s d)
          (push_bit (PAGE_SHIFT ?lay) (kpool_addr_to_frame ?lay a)) (v AND PGTAB_MASK ?lay)
        = (pgdirs s d)[?i := e]" "pde_is_present ?mmu e"
        "pde_frame_get ?mmu e =
          drop_bit (PAGE_SHIFT ?lay) (push_bit (PAGE_SHIFT ?lay) (kpool_addr_to_frame ?lay a))"
      using rules(7) [of "pgdirs s d" _ "v AND PGTAB_MASK ?lay"] rules(4) by metis
    define n where "n = pgtab_entries E"
    define s1 where "s1 = flush_tlb E
      (s\<lparr>kpool := kp, pgdirs := (pgdirs s)(d := (pgdirs s d)[?i := e])\<rparr>)"
    define s' where "s' = set_pgtab a
      (map (pte_clear ?mmu) (take n (pgtab_of s1 a)) @ drop n (pgtab_of s1 a)) s1"
    have s1: "pgtab_of s1 = pgtab_of s" "kpool s1 = kp"
      "pgdirs s1 = (pgdirs s)(d := (pgdirs s d)[?i := e])"
      by (simp_all add: s1_def pgtab_of_def mem fun_eq_iff)
    have map: "pgtab_map E d v s = Some (Some ?i, s')"
      using np get False e il
      by (simp add: pgtab_map_def Let_def rules(4) s'_def s1_def n_def)
    have len: "length (pgtab_of s a) = n" using invD(2) page by (auto simp: n_def)
    have at: "pgtab_at E s' d' i' = (if d' = d \<and> i' = ?i then Some a else pgtab_at E s d' i')"
      for d' i'
      using pgtab_at_update [OF il, of s' e E d' i'] e(2,3) kpool_frame_shift [OF lay, of a] page
      by (simp add: s'_def s1(3))
    have use: "kpages_in_use ?lay (kpool s') = insert a (kpages_in_use ?lay (kpool s))"
      using page kpages_in_use_cong [of "kpool s'" kp ?lay] by (simp add: s'_def s1(2))
    have new: "new_pgtab E d ?i a s s'"
      using page at use len rules(3)
      by (auto simp: new_pgtab_def s'_def s1 n_def) (simp_all add: s1_def)
    have "paging_inv E s'"
    proof (rule new_pgtab_inv [OF inv new])
      show "kpool_inv ?lay (kpool s')"
        using page kpool_inv_cong [of "kpool s'" kp ?lay] by (simp add: s'_def s1(2))
      show "length (pgtab_of s' a) = pgtab_entries E" using len by (simp add: s'_def s1 n_def)
    qed (simp add: s'_def s1)
    with new map that(2) show thesis by blast
  qed
qed

lemma new_pgtab_translate:
  assumes env: "paging_env E" and inv: "paging_inv E s" and new: "new_pgtab E d i a s s'"
    and absent: "pgtab_at E s d i = None"
  shows "translate E s' = translate E s"
proof (intro ext)
  fix d' v
  have "pte_idx (env_mmu E) v < pgtab_entries E"
    using env by (simp add: paging_env_def mmu_laws_rules(5))
  then show "translate E s' d' v = translate E s d' v"
    using new absent paging_invD(4) [OF inv, of d' "pde_idx (env_mmu E) v"]
    by (auto simp: translate_def new_pgtab_def Let_def split: option.splits)
qed

section \<open>Mapping user pages\<close>

text \<open>Writing one entry of a page table that a directory entry points to.\<close>

lemma set_pte_translate:
  assumes env: "paging_env E" and inv: "paging_inv E s"
    and at: "pgtab_at E s d (pde_idx (env_mmu E) v) = Some a"
    and s': "pgdirs s' = pgdirs s" "\<And>b. pgtab_of s' b =
      (if b = a then (pgtab_of s a)[pte_idx (env_mmu E) v := e] else pgtab_of s b)"
  shows "translate E s' d' w =
    (if d' = d \<and> same_page (env_layout E) w v
     then (if pte_is_present (env_mmu E) e then Some (pte_frame_get (env_mmu E) e) else None)
     else translate E s d' w)"
proof -
  let ?mmu = "env_mmu E"
  have laws: "mmu_laws E" using env by (simp add: paging_env_def)
  note rules = mmu_laws_rules [OF laws] and invD = paging_invD [OF inv]
  have "a \<in> kpool_pages (env_layout E)" using invD(4) [OF at] by (simp add: kpages_in_use_def)
  then have len: "pte_idx ?mmu w < length (pgtab_of s a)" for w using invD(2) rules(5) by simp
  have at': "pgtab_at E s' d' (pde_idx ?mmu w) = pgtab_at E s d' (pde_idx ?mmu w)"
    using pgtab_at_cong [OF s'(1)] by simp
  show ?thesis
  proof (cases "pgtab_at E s d' (pde_idx ?mmu w) = Some a")
    case True
    then have "d' = d" "pde_idx ?mmu w = pde_idx ?mmu v" using invD(5) [OF True at] by auto
    then show ?thesis
      using True at at' len [of v] rules(6) [of w v] s'(2)
      by (auto simp: translate_def Let_def nth_list_update)
  next
    case False
    then have "\<not> (d' = d \<and> same_page (env_layout E) w v)" using at rules(6) [of w v] by auto
    then show ?thesis
      using False at' s'(2) by (auto simp: translate_def split: option.splits)
  qed
qed

lemma set_pte_inv:
  assumes inv: "paging_inv E s" and "pgdirs s' = pgdirs s" "kpages (kpool s') = kpages (kpool s)"
    and "\<And>b. length (pgtab_of s' b) = length (pgtab_of s b)"
  shows "paging_inv E s'"
  using inv assms(2-) pgtab_at_cong [OF assms(2)] kpages_in_use_cong [OF assms(3)]
    kpool_inv_cong [OF assms(3)]
  by (simp add: paging_inv_def)

lemma upage_map_present:
  fixes E :: "('w::len, 'b, 'pde, 'pte, 't, 'u) mm_env" and f :: "'w word"
  assumes env: "paging_env E" and inv: "paging_inv E s"
    and at: "pgtab_at E s d (pde_idx (env_mmu E) v) = Some a"
    and absent: "translate E s d v = None"
  defines "tab \<equiv> mmu_page_map (env_mmu E) (pgtab_of s a)
    (push_bit (PAGE_SHIFT (env_layout E)) f) v True False"
  defines "s' \<equiv> flush_tlb E (set_pgtab a tab s)"
  shows "pte_is_present (env_mmu E) (tab ! pte_idx (env_mmu E) v)" and "paging_inv E s'"
    and "translate E s' d' w =
      (if d' = d \<and> same_page (env_layout E) w v
       then Some (drop_bit (PAGE_SHIFT (env_layout E)) (push_bit (PAGE_SHIFT (env_layout E)) f))
       else translate E s d' w)"
proof -
  have laws: "mmu_laws E" using env by (simp add: paging_env_def)
  note invD = paging_invD [OF inv]
  obtain e where e: "tab = (pgtab_of s a)[pte_idx (env_mmu E) v := e]"
    "pte_is_present (env_mmu E) e" "pte_frame_get (env_mmu E) e =
      drop_bit (PAGE_SHIFT (env_layout E)) (push_bit (PAGE_SHIFT (env_layout E)) f)"
    using mmu_laws_rules(8) [OF laws] unfolding tab_def by blast
  have "a \<in> kpool_pages (env_layout E)" using invD(4) [OF at] by (simp add: kpages_in_use_def)
  then have len: "pte_idx (env_mmu E) v < length (pgtab_of s a)"
    using invD(2) mmu_laws_rules(5) [OF laws] by simp
  then show "pte_is_present (env_mmu E) (tab ! pte_idx (env_mmu E) v)" using e by simp
  show "paging_inv E s'"
    by (rule set_pte_inv [OF inv]) (simp_all add: s'_def e(1))
  show "translate E s' d' w =
      (if d' = d \<and> same_page (env_layout E) w v
       then Some (drop_bit (PAGE_SHIFT (env_layout E)) (push_bit (PAGE_SHIFT (env_layout E)) f))
       else translate E s d' w)"
    using set_pte_translate [OF env inv at, of s' e d' w] e by (simp add: s'_def)
qed

text \<open>An address that \<open>upage_map\<close> and \<open>upage_unmap\<close> accept: the start of a user page.\<close>

definition upage_addr :: "('w::len) layout \<Rightarrow> 'w word \<Rightarrow> bool" where
  "upage_addr lay v \<longleftrightarrow> mm_is_uaddr lay v \<and> v AND NOT (PAGE_MASK lay) = 0"

lemma upage_addr_mask: "upage_addr lay v \<Longrightarrow> v AND PAGE_MASK lay = v"
proof -
  assume "upage_addr lay v"
  then have *: "v AND NOT (PAGE_MASK lay) = 0" by (simp add: upage_addr_def)
  have "v AND PAGE_MASK lay = (v AND PAGE_MASK lay) OR (v AND NOT (PAGE_MASK lay))"
    by (simp add: *)
  also have "\<dots> = v" by (rule bit_word_eqI) (auto simp: bit_simps)
  finally show ?thesis .
qed

lemma upage_map_cases:
  assumes env: "paging_env E" and inv: "paging_inv E s" and v: "upage_addr (env_layout E) v"
  obtains (no_table) "upage_map E (Some d) v f s = Some (- EAGAIN, s)"
      "kpages_in_use (env_layout E) (kpool s) = kpool_pages (env_layout E)" "translate E s d v = None"
  | (in_use) "upage_map E (Some d) v f s = Some (- EADDRINUSE, s)" "translate E s d v \<noteq> None"
  | (mapped) s' where "upage_map E (Some d) v f s = Some (0, s')" "translate E s d v = None"
      "paging_inv E s'" "frames s' = frames s" "umem s' = umem s"
      "\<And>d' w. translate E s' d' w =
        (if d' = d \<and> same_page (env_layout E) w v
         then Some (drop_bit (PAGE_SHIFT (env_layout E)) (push_bit (PAGE_SHIFT (env_layout E)) f))
         else translate E s d' w)"
proof -
  let ?i = "pde_idx (env_mmu E) v"
  have il: "?i < length (pgdirs s d)" by (rule paging_invD(3) [OF inv])
  have va: "mm_is_uaddr (env_layout E) v" "v AND NOT (PAGE_MASK (env_layout E)) = 0"
    using v by (simp_all add: upage_addr_def)
  have pres: "pde_is_present (env_mmu E) (pgdirs s d ! ?i)
      \<and> kpool_frame_to_addr (env_layout E) (pde_frame_get (env_mmu E) (pgdirs s d ! ?i)) = a"
    if "pgtab_at E s d ?i = Some a" for s a
    using that by (auto simp: pgtab_at_def Let_def split: if_splits)
  show thesis
  proof (cases "pgtab_at E s d ?i")
    case (Some a)
    show thesis
    proof (cases "translate E s d v")
      case None
      note m = upage_map_present [OF env inv Some None, of f]
      show thesis
        by (rule mapped [OF _ None m(2)])
          (use Some None m(1,3) pres [OF Some] va in
            \<open>auto simp: upage_map_def translate_def Let_def split: if_splits\<close>)
    next
      case t: (Some g)
      then show thesis
        using in_use Some pres [OF Some] va
        by (auto simp: upage_map_def translate_def Let_def split: if_splits)
    qed
  next
    case None
    then have np: "\<not> pde_is_present (env_mmu E) (pgdirs s d ! ?i)" "translate E s d v = None"
      using il by (auto simp: pgtab_at_def translate_def Let_def split: if_splits)
    show thesis
    proof (cases rule: pgtab_map_spec [OF env inv None])
      case 1
      then show thesis using no_table np va by (simp add: upage_map_def Let_def)
    next
      case (2 a s1)
      have at: "pgtab_at E s1 d ?i = Some a" using 2(2) by (simp add: new_pgtab_def)
      have tr: "translate E s1 = translate E s" by (rule new_pgtab_translate [OF env inv 2(2) None])
      have tn: "translate E s1 d v = None" using tr np(2) by simp
      note m = upage_map_present [OF env 2(3) at tn, of f]
      have s1: "frames s1 = frames s" "umem s1 = umem s" using 2(2) by (simp_all add: new_pgtab_def)
      have "\<not> pte_is_present (env_mmu E) (pgtab_of s1 a ! pte_idx (env_mmu E) v)"
        using tn at by (auto simp: translate_def Let_def split: if_splits)
      then show thesis
        by (intro mapped [OF _ np(2) m(2)])
          (use 2(1) m(1,3) np pres [OF at] va s1 tr in \<open>simp_all add: upage_map_def Let_def\<close>)
    qed
  qed
qed

section \<open>Unmapping user pages\<close>

lemma mm_state_kpool_simps [simp]:
  "pgtab_of (s\<lparr>pgdirs := x\<rparr>) = pgtab_of s" "pgtab_of (s\<lparr>tlb := t\<rparr>) = pgtab_of s"
  "pgtab_of (s\<lparr>frames := y\<rparr>) = pgtab_of s" "pgtab_of (s\<lparr>umem := z\<rparr>) = pgtab_of s"
  by (simp_all add: pgtab_of_def fun_eq_iff)

lemma drop_pgtab_inv:
  assumes inv: "paging_inv E s" and a: "pgtab_at E s d i = Some a"
    and at: "\<And>d' i'. pgtab_at E s' d' i' = (if d' = d \<and> i' = i then None else pgtab_at E s d' i')"
    and tab: "pgtab_of s' = pgtab_of s" and kinv: "kpool_inv (env_layout E) (kpool s')"
    and use: "kpages_in_use (env_layout E) (kpool s') = kpages_in_use (env_layout E) (kpool s) - {a}"
    and len: "\<And>d'. length (pgdirs s' d') = length (pgdirs s d')"
  shows "paging_inv E s'"
  unfolding paging_inv_def
proof (intro conjI allI impI ballI)
  note invD = paging_invD [OF inv]
  show "b \<in> kpages_in_use (env_layout E) (kpool s')" if "pgtab_at E s' d' i' = Some b" for d' i' b
    using that invD(4) invD(5) [OF a] by (auto simp: at use split: if_splits)
  show "d' = d''" "i' = i''"
    if "pgtab_at E s' d' i' = Some b" "pgtab_at E s' d'' i'' = Some b" for d' i' d'' i'' b
    using that invD(5) [of d' i' b d'' i''] by (auto simp: at split: if_splits)
qed (simp_all add: tab kinv len paging_invD(2,3) [OF inv])

text \<open>\<open>pgtab_unmap\<close> on every branch: it never reports that a kernel page was lost.\<close>

lemma pgtab_unmap_cases:
  assumes env: "paging_env E" and inv: "paging_inv E s"
  obtains (absent) "pgtab_at E s d (pde_idx (env_mmu E) v) = None" "pgtab_unmap E d v s = (0, s)"
  | (busy) a where "pgtab_at E s d (pde_idx (env_mmu E) v) = Some a"
      "list_ex (pte_is_present (env_mmu E)) (pgtab_of s a)" "pgtab_unmap E d v s = (- EBUSY, s)"
  | (released) a s' where "pgtab_at E s d (pde_idx (env_mmu E) v) = Some a"
      "\<not> list_ex (pte_is_present (env_mmu E)) (pgtab_of s a)" "pgtab_unmap E d v s = (0, s')"
      "paging_inv E s'" "translate E s' = translate E s" "frames s' = frames s" "umem s' = umem s"
      "kpages_in_use (env_layout E) (kpool s') = kpages_in_use (env_layout E) (kpool s) - {a}"
proof -
  let ?lay = "env_layout E" and ?mmu = "env_mmu E" and ?i = "pde_idx (env_mmu E) v"
  have laws: "mmu_laws E" and lay: "kpool_layout ?lay" using env by (simp_all add: paging_env_def)
  note rules = mmu_laws_rules [OF laws] and invD = paging_invD [OF inv]
  have il: "?i < length (pgdirs s d)" by (rule invD(3))
  show thesis
  proof (cases "pgtab_at E s d ?i")
    case None
    then show thesis
      using absent il by (auto simp: pgtab_at_def pgtab_unmap_def Let_def split: if_splits)
  next
    case (Some a)
    have pde: "pde_is_present ?mmu (pgdirs s d ! ?i)"
      "kpool_frame_to_addr ?lay (pde_frame_get ?mmu (pgdirs s d ! ?i)) = a"
      using Some by (auto simp: pgtab_at_def Let_def split: if_splits)
    have used: "a \<in> kpages_in_use ?lay (kpool s)" using invD(4) [OF Some] .
    then have ap: "a \<in> kpool_pages ?lay" by (simp add: kpages_in_use_def)
    have all: "take (pgtab_entries E) (pgtab_of s a) = pgtab_of s a" using invD(2) [OF ap] by simp
    obtain r kp where put: "kpage_put ?lay a (kpool s) = (r, kp)" by fastforce
    note rel = kpage_put_used [OF lay invD(1) kpool_pages_page(1) [OF lay ap]
        kpool_pages_page(2) [OF lay ap, symmetric] used put]
    define s' where "s' = flush_tlb E (s\<lparr>pgdirs := (pgdirs s)
      (d := (pgdirs s d)[?i := pde_present_set ?mmu (pgdirs s d ! ?i) False])\<rparr>)\<lparr>kpool := kp\<rparr>"
    have at: "pgtab_at E s' d' i' = (if d' = d \<and> i' = ?i then None else pgtab_at E s d' i')" for d' i'
      using pgtab_at_update [OF il, of s' "pde_present_set ?mmu (pgdirs s d ! ?i) False"] rules(1)
      by (simp add: s'_def)
    have tab: "pgtab_of s' = pgtab_of s"
      using rel(4) by (simp add: s'_def pgtab_of_def fun_eq_iff)
    have inv': "paging_inv E s'"
      by (rule drop_pgtab_inv [OF inv Some at tab]) (use rel in \<open>simp_all add: s'_def\<close>)
    have tr: "translate E s' d' w = translate E s d' w"
      if empty: "\<not> list_ex (pte_is_present ?mmu) (pgtab_of s a)" for d' w
    proof -
      have "\<not> pte_is_present ?mmu (pgtab_of s a ! pte_idx ?mmu w)"
        using empty invD(2) [OF ap] rules(5) by (auto simp: list_ex_length)
      then show ?thesis
        using Some by (auto simp: translate_def at tab Let_def split: option.splits)
    qed
    show thesis
    proof (cases "list_ex (pte_is_present ?mmu) (pgtab_of s a)")
      case True
      then show thesis using busy [OF Some] pde all by (simp add: pgtab_unmap_def Let_def)
    next
      case False
      show thesis
        by (rule released [OF Some False _ inv'])
          (use False put rel pde all tr in \<open>auto simp: pgtab_unmap_def Let_def s'_def fun_eq_iff\<close>)
    qed
  qed
qed

lemma upage_inval_ok:
  assumes env: "paging_env E" and v: "upage_addr (env_layout E) v"
  obtains t where "upage_inval E v s = Some (0, s\<lparr>tlb := t\<rparr>)"
proof -
  have laws: "mmu_laws E" using env by (simp add: paging_env_def)
  note zero = mmu_laws_rules(9,10) [OF laws]
  have "v AND PAGE_MASK (env_layout E) = v" "mm_is_uaddr (env_layout E) v"
    using v upage_addr_mask by (auto simp: upage_addr_def)
  then have "\<exists>t. upage_inval E v s = Some (0, s\<lparr>tlb := t\<rparr>)"
    using zero by (auto simp: upage_inval_def Let_def flush_tlb_def split: prod.splits)
      (metis fst_conv)+
  with that show thesis by blast
qed

lemma upage_unmap_cases:
  assumes env: "paging_env E" and inv: "paging_inv E s" and v: "upage_addr (env_layout E) v"
  obtains (unmapped) "upage_unmap E (Some d) v s = Some (FRAME_NULL, s)" "translate E s d v = None"
  | (frame) f s' where "translate E s d v = Some f" "upage_unmap E (Some d) v s = Some (f, s')"
      "paging_inv E s'" "frames s' = frames s" "umem s' = umem s"
      "\<And>d' w. translate E s' d' w =
        (if d' = d \<and> same_page (env_layout E) w v then None else translate E s d' w)"
proof -
  let ?lay = "env_layout E" and ?mmu = "env_mmu E" and ?i = "pde_idx (env_mmu E) v"
  have laws: "mmu_laws E" using env by (simp add: paging_env_def)
  have va: "mm_is_uaddr ?lay v" "v AND NOT (PAGE_MASK ?lay) = 0"
    using v by (simp_all add: upage_addr_def)
  have il: "?i < length (pgdirs s d)" by (rule paging_invD(3) [OF inv])
  show thesis
  proof (cases "translate E s d v")
    case None
    then show thesis
      using unmapped va il
      by (auto simp: upage_unmap_def translate_def pgtab_at_def Let_def split: if_splits)
  next
    case (Some f)
    then obtain a where at: "pgtab_at E s d ?i = Some a" by (auto simp: translate_def split: option.splits)
    let ?pte = "pgtab_of s a ! pte_idx ?mmu v"
    have pte: "pte_is_present ?mmu ?pte" "pte_frame_get ?mmu ?pte = f"
      using Some at by (auto simp: translate_def Let_def split: if_splits)
    have pde: "pde_is_present ?mmu (pgdirs s d ! ?i)"
      "kpool_frame_to_addr ?lay (pde_frame_get ?mmu (pgdirs s d ! ?i)) = a"
      using at by (auto simp: pgtab_at_def Let_def split: if_splits)
    define e where "e = pte_present_set ?mmu ?pte False"
    have ne: "\<not> pte_is_present ?mmu e" using mmu_laws_rules(2) [OF laws] by (simp add: e_def)
    define s1 where "s1 = set_pgtab a ((pgtab_of s a)[pte_idx ?mmu v := e]) s"
    obtain t where t: "upage_inval E v s1 = Some (0, s1\<lparr>tlb := t\<rparr>)"
      using upage_inval_ok [OF env v] .
    define s2 where "s2 = s1\<lparr>tlb := t\<rparr>"
    have inv2: "paging_inv E s2" by (rule set_pte_inv [OF inv]) (simp_all add: s2_def s1_def)
    have tr: "translate E s2 d' w =
        (if d' = d \<and> same_page ?lay w v then None else translate E s d' w)" for d' w
      using set_pte_translate [OF env inv at, of s2 e d' w] ne by (simp add: s2_def s1_def)
    have unmap: "upage_unmap E (Some d) v s = Some (f,
        if NANVIX_FAST_MEMORY E then s2 else snd (pgtab_unmap E d v s2))"
      using va pde pte t by (simp add: upage_unmap_def Let_def s1_def s2_def e_def)
    have s2: "frames s2 = frames s" "umem s2 = umem s" by (simp_all add: s2_def s1_def)
    have "paging_inv E (snd (pgtab_unmap E d v s2))
        \<and> translate E (snd (pgtab_unmap E d v s2)) = translate E s2
        \<and> frames (snd (pgtab_unmap E d v s2)) = frames s \<and> umem (snd (pgtab_unmap E d v s2)) = umem s"
      using inv2 s2 by (cases rule: pgtab_unmap_cases [OF env inv2, of d v]) simp_all
    then show thesis
      by (intro frame [OF Some unmap]) (use inv2 tr s2 in simp_all)
  qed
qed

section \<open>Frames of user pages\<close>

text \<open>The physical user memory is a whole number of pages below the top of the
  physical address space.\<close>

definition user_layout :: "('w::len) layout \<Rightarrow> bool" where
  "user_layout lay \<longleftrightarrow> page_geometry lay
    \<and> unat (UBASE_PHYS lay) + unat (UMEM_SIZE lay) < 2 ^ LENGTH('w)"

lemma uframe_shift:
  assumes lay: "user_layout (lay :: ('w::len) layout)" "frame_layout lay" and f: "f \<in> uframes lay"
  shows "drop_bit (PAGE_SHIFT lay) (push_bit (PAGE_SHIFT lay) f) = f"
proof -
  let ?P = "PAGE_SHIFT lay"
  have geo: "page_geometry lay" using lay by (simp add: user_layout_def)
  have "unat f < unat (UBASE_PHYS lay) div 2 ^ ?P + unat (UMEM_SIZE lay) div 2 ^ ?P"
    using f frame_is_valid_num_unat [OF lay(2), of f] unat_PAGE_SIZE [OF geo]
    by (simp add: uframes_def NUM_UFRAMES_def unat_drop_bit_word unat_div)
  then have "unat f * 2 ^ ?P \<le>
      unat (UBASE_PHYS lay) div 2 ^ ?P * 2 ^ ?P + unat (UMEM_SIZE lay) div 2 ^ ?P * 2 ^ ?P"
    by (metis add_mult_distrib less_imp_le_nat mult_le_mono1)
  also have "\<dots> \<le> unat (UBASE_PHYS lay) + unat (UMEM_SIZE lay)" by (intro add_mono) simp_all
  also have "\<dots> < 2 ^ LENGTH('w)" using lay by (simp add: user_layout_def)
  finally have "unat (push_bit ?P f) = unat f * 2 ^ ?P"
    using geo by (simp add: push_bit_eq_mult unat_word_ariths unat_pow2 page_geometry_def)
  then show ?thesis by (simp add: word_unat_eq_iff unat_drop_bit_word)
qed

section \<open>A concrete MMU\<close>

text \<open>Two-level page tables of 1024 entries on the sample layout, with entries that
  are pairs of a present bit and a frame number.\<close>

type_synonym sample_entry = "bool \<times> 32 word"

definition sample_mmu :: "(32, sample_entry, sample_entry, unit) mmu_ops" where
  "sample_mmu =
    \<lparr> pde_idx = (\<lambda>v. unat (drop_bit 22 v)), pde_is_present = fst, pde_frame_get = snd,
      pde_present_set = (\<lambda>e b. (b, snd e)),
      mmu_pgtab_map = (\<lambda>dir pa v. dir[unat (drop_bit 22 v) := (True, drop_bit 12 pa)]),
      pte_idx = (\<lambda>v. unat (take_bit 10 (drop_bit 12 v))), pte_is_present = fst, pte_frame_get = snd,
      pte_present_set = (\<lambda>e b. (b, snd e)), pte_clear = (\<lambda>_. (False, 0)),
      mmu_page_map = (\<lambda>tab pa v _ _. tab[unat (take_bit 10 (drop_bit 12 v)) := (True, drop_bit 12 pa)]),
      tlb_flush = (\<lambda>t. t), tlb_inval = (\<lambda>_ _ t. (0, t)), tlb_shootdown = (\<lambda>_ t. (0, t)),
      tlb_write = (\<lambda>_ _ _ t. (0, t)), TLB_INSTRUCTION = 0, TLB_DATA = 1, PDE_SIZE = 4 \<rparr>"

definition sample_mm_env :: "(32, 32 word \<Rightarrow> bool, sample_entry, sample_entry, unit, nat) mm_env" where
  "sample_mm_env =
    \<lparr> env_layout = sample_layout, env_bitmap = sample_bitmap, env_mmu = sample_mmu,
      CORE_HAS_TLB_HW = False, CLUSTER_HAS_TLB_SHOOTDOWN = True, NANVIX_FAST_MEMORY = False,
      zero_page = 0 \<rparr>"

definition sample_mm :: "(32, 32 word \<Rightarrow> bool, sample_entry, sample_entry, unit, nat) mm_state" where
  "sample_mm =
    \<lparr> frames = (\<lambda>_. False),
      kpool = \<lparr> kpages = [0, 0, 0, 0], kpage_mem = (\<lambda>_. replicate 1024 (False, 0)) \<rparr>,
      pgdirs = (\<lambda>_. replicate 1024 (False, 0)), umem = (\<lambda>_. 7), tlb = () \<rparr>"

lemma sample_mm_env_simps [simp]:
  "env_layout sample_mm_env = sample_layout" "env_bitmap sample_mm_env = sample_bitmap"
  "env_mmu sample_mm_env = sample_mmu" "zero_page sample_mm_env = 0"
  "NANVIX_FAST_MEMORY sample_mm_env = False"
  by (simp_all add: sample_mm_env_def)

lemma sample_same_page:
  fixes v w :: "32 word"
  shows "drop_bit 22 v = drop_bit 22 w \<and> take_bit 10 (drop_bit 12 v) = take_bit 10 (drop_bit 12 w)
    \<longleftrightarrow> v AND 0xfffff000 = w AND 0xfffff000"
proof -
  have m: "(0xfffff000 :: 32 word) = NOT (mask 12)" by (simp add: mask_eq_exp_minus_1)
  have "x = y \<longleftrightarrow> drop_bit 10 x = drop_bit 10 y \<and> take_bit 10 x = take_bit 10 y"
    for x y :: "32 word"
    by (metis bits_ident)
  from this [of "drop_bit 12 v" "drop_bit 12 w"]
  have "drop_bit 22 v = drop_bit 22 w \<and> take_bit 10 (drop_bit 12 v) = take_bit 10 (drop_bit 12 w)
      \<longleftrightarrow> drop_bit 12 v = drop_bit 12 w" by simp
  moreover have "push_bit 12 (drop_bit 12 x) = x AND NOT (mask 12)"
    and "drop_bit 12 (x AND NOT (mask 12)) = drop_bit 12 x" for x :: "32 word"
    by (rule bit_word_eqI; auto simp: bit_simps dest: bit_imp_le_length)+
  ultimately show ?thesis unfolding m by metis
qed

lemma sample_pgtab_entries [simp]: "pgtab_entries sample_mm_env = 1024"
  by (simp add: pgtab_entries_def) (simp add: sample_mmu_def)

lemma sample_mmu_laws: "mmu_laws sample_mm_env"
proof -
  have m: "(0xffc00000 :: 32 word) = NOT (mask 22)" by (simp add: mask_eq_exp_minus_1)
  have "drop_bit 22 (v AND 0xffc00000) = drop_bit 22 v" for v :: "32 word"
    unfolding m by (rule bit_word_eqI) (auto simp: bit_simps dest: bit_imp_le_length)
  moreover have "unat (take_bit 10 w :: 32 word) < 1024" for w
    using take_bit_nat_less_exp [of 10 "unat w"] by (simp add: unsigned_take_bit_eq)
  ultimately show ?thesis
    using sample_same_page
    by (simp add: mmu_laws_def sample_mmu_def same_page_def word_unat_eq_iff [symmetric]) blast
qed

lemma sample_paging_env: "paging_env sample_mm_env"
  by (simp add: paging_env_def sample_mmu_laws sample_kpool_layout)

lemma sample_user_layout: "user_layout sample_layout"
  by (simp add: user_layout_def sample_page_geometry)

lemma sample_pgtab_at: "pgtab_at sample_mm_env sample_mm d i = None"
  by (auto simp: pgtab_at_def sample_mm_def sample_mmu_def Let_def)

lemma sample_paging_inv: "paging_inv sample_mm_env sample_mm"
proof -
  have "unat (drop_bit 22 v) < 1024" for v :: "32 word"
    using unsigned_less [of v, where 'a = nat] by (simp add: unat_drop_bit_word)
  then show ?thesis
    by (simp add: paging_inv_def sample_pgtab_at)
      (simp add: sample_mm_def sample_mmu_def kpool_inv_def pgtab_of_def)
qed

lemma sample_translate: "translate sample_mm_env sample_mm d v = None"
  by (simp add: translate_def sample_pgtab_at)

lemma sample_upage_addr: "upage_addr sample_layout 0x80000000" "upage_addr sample_layout 0x80001000"
  by (simp_all add: upage_addr_def mm_is_uaddr_def)

section \<open>Properties\<close>



text \<open>(C14) \<open>upage_unmap\<close> on every branch.  It never fails an assertion and keeps the
  invariant.  For a page that is mapped it returns the frame, removes exactly that
  translation, and leaves the frame allocator alone; in every other case it
  returns \<open>FRAME_NULL\<close> and changes nothing.\<close>

theorem upage_unmap_branches:
  assumes env: "paging_env E" and inv: "paging_inv E s"
  shows "\<exists>g s'. upage_unmap E pgdir v s = Some (g, s') \<and> paging_inv E s'
    \<and> frames s' = frames s \<and> umem s' = umem s
    \<and> (case pgdir of
         Some d \<Rightarrow>
           if upage_addr (env_layout E) v \<and> translate E s d v \<noteq> None
           then translate E s d v = Some g
             \<and> (\<forall>d' w. translate E s' d' w =
                  (if d' = d \<and> same_page (env_layout E) w v then None else translate E s d' w))
           else g = FRAME_NULL \<and> s' = s
       | None \<Rightarrow> g = FRAME_NULL \<and> s' = s)"
proof (cases pgdir)
  case None
  then show ?thesis using inv by (simp add: upage_unmap_def)
next
  case (Some d)
  show ?thesis
  proof (cases "upage_addr (env_layout E) v")
    case True
    then show ?thesis
      using inv Some by (cases rule: upage_unmap_cases [OF env inv True, of d]) simp_all
  next
    case False
    then show ?thesis
      using inv Some by (cases "mm_is_uaddr (env_layout E) v") (simp_all add: upage_unmap_def upage_addr_def)
  qed
qed

theorem upage_unmap_branches_witness:
  "\<exists>s1 s2. upage_map sample_mm_env (Some 0) 0x80000000 0x1003 sample_mm = Some (0, s1)
    \<and> upage_unmap sample_mm_env (Some 0) 0x80000000 s1 = Some (0x1003, s2)
    \<and> translate sample_mm_env s2 0 0x80000000 = None"
proof -
  have addr: "upage_addr (env_layout sample_mm_env) 0x80000000" using sample_upage_addr by simp
  have free: "kpages_in_use sample_layout (kpool sample_mm) \<noteq> kpool_pages sample_layout"
    using kpages_in_use_id [OF sample_kpool_layout, of 0 "kpool sample_mm"]
    by (auto simp: kpool_pages_def sample_mm_def)
  obtain s1 where s1: "upage_map sample_mm_env (Some 0) 0x80000000 0x1003 sample_mm = Some (0, s1)"
      "paging_inv sample_mm_env s1" "translate sample_mm_env s1 0 0x80000000 = Some 0x1003"
    using free sample_translate
    by (cases rule: upage_map_cases [OF sample_paging_env sample_paging_inv addr, of 0 "0x1003"])
      (auto simp: same_page_def)
  show ?thesis
    using upage_unmap_branches [OF sample_paging_env s1(2), of "Some 0" "0x80000000"] s1 addr
    by (auto simp: same_page_def)
qed

text \<open>The environment in which the operations that also allocate frames run.\<close>

definition upage_env :: "('w::len, 'b, 'pde, 'pte, 't, 'u) mm_env \<Rightarrow> bool" where
  "upage_env E \<longleftrightarrow> paging_env E \<and> frame_env (env_layout E) (env_bitmap E) \<and> user_layout (env_layout E)"

lemma paging_inv_frames [simp]: "paging_inv E (s\<lparr>frames := x\<rparr>) = paging_inv E s"
  and paging_inv_umem [simp]: "paging_inv E (s\<lparr>umem := y\<rparr>) = paging_inv E s"
  by (simp_all add: paging_inv_def pgtab_at_def)

lemma translate_frames [simp]: "translate E (s\<lparr>frames := x\<rparr>) = translate E s"
  and translate_umem [simp]: "translate E (s\<lparr>umem := y\<rparr>) = translate E s"
  by (simp_all add: translate_def pgtab_at_def fun_eq_iff split: option.split)

abbreviation used_frames ::
  "('w::len, 'b, 'pde, 'pte, 't, 'u) mm_env \<Rightarrow> ('w, 'b, 'pde, 'pte, 't, 'u) mm_state \<Rightarrow> 'w word set" where
  "used_frames E s \<equiv> frames_in_use (env_layout E) (env_bitmap E) (frames s)"

lemma upage_map_bad_addr:
  "\<not> upage_addr (env_layout E) v \<Longrightarrow> upage_map E (Some d) v f s =
    Some (if mm_is_uaddr (env_layout E) v then - EINVAL else - EFAULT, s)"
  by (simp add: upage_map_def upage_addr_def)

lemma upage_alloc_cases:
  assumes env: "upage_env E" and inv: "paging_inv E s"
  obtains (failed) r s' where "upage_alloc E (Some d) v s = Some (r, s')" "r < 0" "paging_inv E s'"
      "used_frames E s' = used_frames E s" "translate E s' = translate E s" "umem s' = umem s"
      "used_frames E s = uframes (env_layout E) \<Longrightarrow> r = - EAGAIN"
      "used_frames E s \<noteq> uframes (env_layout E) \<Longrightarrow> upage_addr (env_layout E) v \<Longrightarrow>
        translate E s d v = None \<Longrightarrow>
        r = - EAGAIN \<and> kpages_in_use (env_layout E) (kpool s) = kpool_pages (env_layout E)"
  | (allocated) f s' where "upage_alloc E (Some d) v s = Some (0, s')" "paging_inv E s'"
      "upage_addr (env_layout E) v" "translate E s d v = None"
      "f \<in> uframes (env_layout E) - used_frames E s" "used_frames E s' = insert f (used_frames E s)"
      "\<And>d' w. translate E s' d' w =
        (if d' = d \<and> same_page (env_layout E) w v then Some f else translate E s d' w)"
      "umem s' = (if NANVIX_FAST_MEMORY E then umem s else (umem s)(f := zero_page E))"
proof -
  let ?lay = "env_layout E" and ?bm = "env_bitmap E"
  have penv: "paging_env E" and fenv: "frame_env ?lay ?bm" and ulay: "user_layout ?lay"
    and flay: "frame_layout ?lay"
    using env by (simp_all add: upage_env_def frame_env_def)
  obtain f fs where alloc: "frame_alloc ?lay ?bm (frames s) = (f, fs)" by fastforce
  define s1 where "s1 = s\<lparr>frames := fs\<rparr>"
  have inv1: "paging_inv E s1" and tr1: "translate E s1 = translate E s"
    using inv by (simp_all add: s1_def)
  show thesis
  proof (cases "f = FRAME_NULL")
    case True
    then have "fs = frames s" "used_frames E s = uframes ?lay"
      using frame_alloc_full [OF fenv] alloc by auto
    then show thesis
      using failed [of "- EAGAIN" s] inv alloc True by (simp add: upage_alloc_def)
  next
    case False
    note fresh = frame_alloc_fresh(1,2) [OF fenv alloc False]
    have nz: "used_frames E s \<noteq> uframes ?lay" using fresh(1) by auto
    obtain r fs' where free: "frame_free ?lay ?bm f fs = (r, fs')" by fastforce
    then have fs': "frames_in_use ?lay ?bm fs' = used_frames E s"
      using frame_free_used [OF fenv _ free] fresh by auto
    have err: "upage_alloc E (Some d) v s = Some (e, s1\<lparr>frames := fs'\<rparr>)"
      if "upage_map E (Some d) v f s1 = Some (e, s1)" "e < 0" for e
      using that alloc False free by (simp add: upage_alloc_def s1_def)
    show thesis
    proof (cases "upage_addr ?lay v")
      case bad: False
      then show thesis
        using failed [OF err [OF upage_map_bad_addr]] inv fs' nz by (simp add: s1_def)
    next
      case True
      show thesis
      proof (cases rule: upage_map_cases [OF penv inv1 True, of d f])
        case 1
        then show thesis using failed [OF err [OF 1(1)]] inv fs' nz by (simp add: s1_def)
      next
        case 2
        then show thesis using failed [OF err [OF 2(1)]] inv fs' tr1 nz by (auto simp: s1_def)
      next
        case (3 s2)
        have fu: "f \<in> uframes ?lay" using fresh by blast
        show thesis
          by (rule allocated [of "if NANVIX_FAST_MEMORY E then s2
                else s2\<lparr>umem := (umem s2)(f := zero_page E)\<rparr>" f])
            (use 3 True fresh alloc False tr1 uframe_shift [OF ulay flay fu] in
              \<open>auto simp: upage_alloc_def s1_def\<close>)
      qed
    qed
  qed
qed

lemma upage_free_cases:
  assumes env: "upage_env E" and inv: "paging_inv E s" and v: "upage_addr (env_layout E) v"
    and users: "translate E s d v \<noteq> Some FRAME_NULL"
  obtains (unmapped) "translate E s d v = None" "upage_free E (Some d) v s = Some (- EFAULT, s)"
  | (freed) f s' where "translate E s d v = Some f" "paging_inv E s'" "umem s' = umem s"
      "upage_free E (Some d) v s = Some (if f \<in> used_frames E s then 0 else - EIO, s')"
      "used_frames E s' = used_frames E s - {f}"
      "\<And>d' w. translate E s' d' w =
        (if d' = d \<and> same_page (env_layout E) w v then None else translate E s d' w)"
proof -
  let ?lay = "env_layout E" and ?bm = "env_bitmap E"
  have penv: "paging_env E" and fenv: "frame_env ?lay ?bm" and flay: "frame_layout ?lay"
    using env by (simp_all add: upage_env_def frame_env_def)
  show thesis
  proof (cases rule: upage_unmap_cases [OF penv inv v, of d])
    case 1
    then show thesis using unmapped by (simp add: upage_free_def)
  next
    case (2 f s1)
    obtain r fs where free: "frame_free ?lay ?bm f (frames s1) = (r, fs)" by fastforce
    have "r = 0 \<and> frames_in_use ?lay ?bm fs = used_frames E s - {f}" if "f \<in> used_frames E s"
      using frame_free_used [OF fenv _ free] 2(4) that by simp
    moreover have "r < 0 \<and> fs = frames s" if "f \<notin> used_frames E s"
      using frame_free_unused [OF flay, of f ?bm "frames s1"] free 2(4) that by (auto split: if_splits)
    ultimately show thesis
      by (intro freed [of f "s1\<lparr>frames := fs\<rparr>"])
        (use 2 free users in \<open>auto simp: upage_free_def\<close>)
  qed
qed


lemma sample_upage_env: "upage_env sample_mm_env"
  by (simp add: upage_env_def sample_paging_env sample_frame_env sample_user_layout)

lemma sample_kpool_free: "kpages_in_use sample_layout (kpool sample_mm) \<noteq> kpool_pages sample_layout"
  using kpages_in_use_id [OF sample_kpool_layout, of 0 "kpool sample_mm"]
  by (auto simp: kpool_pages_def sample_mm_def)

lemma sample_no_used_frames: "used_frames sample_mm_env sample_mm = {}"
  by (auto simp: frames_in_use_iff sample_frame_layout sample_mm_def)

lemma sample_frame_exists: "0x1000 \<in> uframes sample_layout"
  by (simp add: uframes_def frame_is_valid_num_def)


section \<open>Isolation of user pages\<close>

text \<open>Every frame that is mapped is allocated, and no frame is mapped at two pages.\<close>

definition isolated ::
  "('w::len, 'b, 'pde, 'pte, 't, 'u) mm_env \<Rightarrow> ('w, 'b, 'pde, 'pte, 't, 'u) mm_state \<Rightarrow> bool" where
  "isolated E s \<longleftrightarrow>
    (\<forall>d v f. translate E s d v = Some f \<longrightarrow> f \<in> used_frames E s)
    \<and> (\<forall>d v d' v' f. translate E s d v = Some f \<longrightarrow> translate E s d' v' = Some f \<longrightarrow>
          d = d' \<and> same_page (env_layout E) v v')"

text \<open>The states that page allocations and releases lead to, in any order and with
  any arguments, whether the calls succeed or fail.\<close>

inductive upages_reach for E s0 where
  start: "upages_reach E s0 s0"
| alloc: "upages_reach E s0 s \<Longrightarrow> upage_alloc E pgdir v s = Some (r, s') \<Longrightarrow> upages_reach E s0 s'"
| free: "upages_reach E s0 s \<Longrightarrow> upage_free E pgdir v s = Some (r, s') \<Longrightarrow> upages_reach E s0 s'"

lemma isolated_alloc:
  assumes env: "upage_env E" and inv: "paging_inv E s" "isolated E s"
    and step: "upage_alloc E pgdir v s = Some (r, s')"
  shows "paging_inv E s' \<and> isolated E s'"
proof (cases pgdir)
  case None
  then show ?thesis using step inv by (simp add: upage_alloc_def)
next
  case (Some d)
  show ?thesis
  proof (cases rule: upage_alloc_cases [OF env inv(1), of d v])
    case (1 r1 s1)
    then show ?thesis using step Some inv by (auto simp: isolated_def)
  next
    case (2 f s1)
    have s1: "s1 = s'" using 2(1) step Some by simp
    note tr = 2(7) [unfolded s1]
    have old: "g \<noteq> f" if "translate E s d' w = Some g" for d' w g
      using that inv(2) 2(5) by (auto simp: isolated_def)
    have "isolated E s'"
      unfolding isolated_def
    proof (intro conjI allI impI)
      show "g \<in> used_frames E s'" if "translate E s' d' w = Some g" for d' w g
        using that inv(2) 2(6) [unfolded s1] by (auto simp: isolated_def tr split: if_splits)
      show "d1 = d2" "same_page (env_layout E) v1 v2"
        if two: "translate E s' d1 v1 = Some g" "translate E s' d2 v2 = Some g" for d1 v1 d2 v2 g
      proof -
        have "d1 = d2 \<and> same_page (env_layout E) v1 v2"
        proof (cases "g = f")
          case True
          then show ?thesis using two old by (auto simp: tr same_page_def split: if_splits)
        next
          case False
          then have "translate E s d1 v1 = Some g" "translate E s d2 v2 = Some g"
            using two by (auto simp: tr split: if_splits)
          then show ?thesis using inv(2) unfolding isolated_def by blast
        qed
        then show "d1 = d2" "same_page (env_layout E) v1 v2" by simp_all
      qed
    qed
    with 2(2) s1 show ?thesis by simp
  qed
qed

lemma isolated_free:
  assumes env: "upage_env E" and inv: "paging_inv E s" "isolated E s"
    and step: "upage_free E pgdir v s = Some (r, s')"
  shows "paging_inv E s' \<and> isolated E s'"
proof (cases pgdir)
  case None
  then show ?thesis using step inv by (simp add: upage_free_def)
next
  case (Some d)
  have flay: "frame_layout (env_layout E)" using env by (simp add: upage_env_def frame_env_def)
  have users: "translate E s d v \<noteq> Some FRAME_NULL"
    using inv(2) valid_num_not_null [OF flay]
    by (auto simp: isolated_def frames_in_use_iff [OF flay] uframes_def)
  show ?thesis
  proof (cases "upage_addr (env_layout E) v")
    case False
    then have "upage_unmap E (Some d) v s = Some (FRAME_NULL, s)"
      by (cases "mm_is_uaddr (env_layout E) v") (simp_all add: upage_unmap_def upage_addr_def)
    then show ?thesis using step Some inv by (simp add: upage_free_def)
  next
    case True
    show ?thesis
    proof (cases rule: upage_free_cases [OF env inv(1) True users])
      case 1
      then show ?thesis using step Some inv by simp
    next
      case (2 f s1)
      have s1: "s1 = s'" using 2(4) step Some by simp
      have "isolated E s'"
        unfolding isolated_def
      proof (intro conjI allI impI)
        fix d1 v1 g assume g: "translate E s' d1 v1 = Some g"
        then have "translate E s d1 v1 = Some g" "\<not> (d1 = d \<and> same_page (env_layout E) v1 v)"
          by (auto simp: 2(6) [unfolded s1] split: if_splits)
        then show "g \<in> used_frames E s'"
          using 2(1) 2(5) [unfolded s1] inv(2) unfolding isolated_def by auto
      qed (use inv(2) in \<open>auto simp: isolated_def 2(6) [unfolded s1] split: if_splits\<close>)
      with 2(2) s1 show ?thesis by simp
    qed
  qed
qed

text \<open>(C1) User pages are isolated.  Whatever sequence of page allocations and
  releases the kernel performs, successful or not, every mapped frame stays
  allocated and no frame is ever mapped at two pages, in one directory or in two;
  the page tables stay well formed.\<close>

theorem upages_isolated:
  assumes "upages_reach E s0 s" and "upage_env E" and "paging_inv E s0" and "isolated E s0"
  shows "paging_inv E s \<and> isolated E s"
  using assms
proof (induction rule: upages_reach.induct)
  case (alloc s pgdir v r s')
  then show ?case using isolated_alloc by blast
next
  case (free s pgdir v r s')
  then show ?case using isolated_free by blast
qed simp

theorem upages_isolated_witness:
  "\<exists>s. upages_reach sample_mm_env sample_mm s
    \<and> (\<exists>f. translate sample_mm_env s 0 0x80000000 = Some f \<and> f \<in> used_frames sample_mm_env s)"
proof -
  have iso: "isolated sample_mm_env sample_mm" by (simp add: isolated_def sample_translate)
  obtain f s where s: "upage_alloc sample_mm_env (Some 0) 0x80000000 sample_mm = Some (0, s)"
      "translate sample_mm_env s 0 0x80000000 = Some f"
    using sample_kpool_free sample_no_used_frames sample_frame_exists sample_upage_addr(1) sample_translate
    by (cases rule: upage_alloc_cases [OF sample_upage_env sample_paging_inv, of 0 "0x80000000"])
      (auto simp: same_page_def)
  have reach: "upages_reach sample_mm_env sample_mm s"
    using upages_reach.alloc [OF upages_reach.start s(1)] .
  then show ?thesis
    using upages_isolated [OF reach sample_upage_env sample_paging_inv iso] s(2)
    by (auto simp: isolated_def)
qed

lemma translate_same_page:
  assumes "paging_env E" and "same_page (env_layout E) w v"
  shows "translate E s d w = translate E s d v"
  using assms mmu_laws_rules(6) [of E w v]
  by (auto simp: paging_env_def translate_def split: option.split)

text \<open>(C16) Releasing a page undoes its allocation: after a successful
  \<open>upage_alloc\<close>, \<open>upage_free\<close> of the page succeeds, and the allocated frames and all
  translations are those of before the allocation.\<close>

theorem upage_alloc_then_free:
  assumes env: "upage_env E" and inv: "paging_inv E s"
    and alloc: "upage_alloc E (Some d) v s = Some (0, s1)"
  shows "\<exists>s2. upage_free E (Some d) v s1 = Some (0, s2) \<and> paging_inv E s2
    \<and> used_frames E s2 = used_frames E s \<and> translate E s2 = translate E s"
proof (cases rule: upage_alloc_cases [OF env inv, of d v])
  case (1 r s')
  then show ?thesis using alloc by simp
next
  case (2 f s')
  then have s1: "s' = s1" using alloc by simp
  have flay: "frame_layout (env_layout E)" using env by (simp add: upage_env_def frame_env_def)
  have tr: "translate E s1 d v = Some f" using 2(7) s1 by (simp add: same_page_def)
  have nn: "translate E s1 d v \<noteq> Some FRAME_NULL"
    using tr 2(5) valid_num_not_null [OF flay] by (auto simp: uframes_def)
  show ?thesis
  proof (cases rule: upage_free_cases [OF env 2(2) [unfolded s1] 2(3) nn])
    case 1
    then show ?thesis using tr by simp
  next
    case (2 g s2)
    have "g = f" using 2(1) tr by simp
    moreover have "translate E s2 d' w = translate E s d' w" for d' w
    proof (cases "d' = d \<and> same_page (env_layout E) w v")
      case True
      then have "translate E s d' w = translate E s d v"
        using env translate_same_page by (auto simp: upage_env_def)
      then show ?thesis using True 2(6) \<open>translate E s d v = None\<close> by simp
    next
      case False
      then show ?thesis using 2(6) \<open>\<And>d' w. translate E s' d' w = _ d' w\<close> s1 by auto
    qed
    ultimately show ?thesis
      using 2 \<open>used_frames E s' = _\<close> \<open>f \<in> _\<close> s1 by (auto simp: fun_eq_iff)
  qed
qed

theorem upage_alloc_then_free_witness:
  "\<exists>s1 s2. upage_alloc sample_mm_env (Some 0) 0x80000000 sample_mm = Some (0, s1)
    \<and> upage_free sample_mm_env (Some 0) 0x80000000 s1 = Some (0, s2)
    \<and> used_frames sample_mm_env s2 = {}"
proof -
  obtain s1 where s1: "upage_alloc sample_mm_env (Some 0) 0x80000000 sample_mm = Some (0, s1)"
    using sample_kpool_free sample_no_used_frames sample_frame_exists sample_upage_addr(1) sample_translate
    by (cases rule: upage_alloc_cases [OF sample_upage_env sample_paging_inv, of 0 "0x80000000"]) auto
  then show ?thesis
    using upage_alloc_then_free [OF sample_upage_env sample_paging_inv s1] sample_no_used_frames
    by auto
qed

text \<open>(C34) \<open>upage_link\<close> shares a frame without counting the references to it.
  When a mapped page with an allocated frame is linked at a second page and the
  first page is then released, the release frees the frame although the second
  page still maps it: the second page refers to a free frame, which the next
  allocation may hand out, and releasing the second page reports \<open>-EIO\<close>.\<close>

theorem upage_link_dangling:
  assumes env: "upage_env E" and inv: "paging_inv E s"
    and v: "upage_addr (env_layout E) v1" "upage_addr (env_layout E) v2"
      "\<not> same_page (env_layout E) v1 v2"
    and f: "translate E s d v1 = Some f" "f \<in> used_frames E s"
    and link: "upage_link E (Some d) v1 v2 s = Some (0, s1)"
  shows "\<exists>s2 s3. upage_free E (Some d) v1 s1 = Some (0, s2)
    \<and> translate E s2 d v2 = Some f \<and> f \<notin> used_frames E s2
    \<and> upage_free E (Some d) v2 s2 = Some (- EIO, s3)"
proof -
  let ?lay = "env_layout E"
  have penv: "paging_env E" and ulay: "user_layout ?lay" and flay: "frame_layout ?lay"
    using env by (simp_all add: upage_env_def frame_env_def)
  have fu: "f \<in> uframes ?lay" using f(2) by (simp add: frames_in_use_iff flay)
  have nn: "f \<noteq> FRAME_NULL" using fu valid_num_not_null [OF flay] by (simp add: uframes_def)
  have "upage_link E (Some d) v1 v2 s = upage_map E (Some d) v2 f s"
    using v(2) f(1)
    by (auto simp: upage_link_def upage_addr_def translate_def pgtab_at_def Let_def split: if_splits)
  then have map: "upage_map E (Some d) v2 f s = Some (0, s1)" using link by simp
  have s1: "paging_inv E s1" "frames s1 = frames s" "translate E s1 d v2 = Some f"
    "translate E s1 d v1 = Some f"
    using map f(1) v(3) uframe_shift [OF ulay flay fu]
    by (cases rule: upage_map_cases [OF penv inv v(2), of d f]; simp add: same_page_def)+
  have "translate E s1 d v1 \<noteq> Some FRAME_NULL" using s1(4) nn by simp
  then obtain s2 where s2: "upage_free E (Some d) v1 s1 = Some (0, s2)" "paging_inv E s2"
      "used_frames E s2 = used_frames E s - {f}" "translate E s2 d v2 = Some f"
    using s1 f(2) v(3)
    by (cases rule: upage_free_cases [OF env s1(1) v(1), of d]) (auto simp: same_page_def)
  then have "translate E s2 d v2 \<noteq> Some FRAME_NULL" using nn by simp
  then obtain s3 where "upage_free E (Some d) v2 s2 = Some (- EIO, s3)"
    using s2 by (cases rule: upage_free_cases [OF env s2(2) v(2), of d]) auto
  with s2 show ?thesis by auto
qed

theorem upage_link_dangling_witness:
  "\<exists>s s1 s2 f. upage_alloc sample_mm_env (Some 0) 0x80000000 sample_mm = Some (0, s)
    \<and> upage_link sample_mm_env (Some 0) 0x80000000 0x80001000 s = Some (0, s1)
    \<and> upage_free sample_mm_env (Some 0) 0x80000000 s1 = Some (0, s2)
    \<and> translate sample_mm_env s2 0 0x80001000 = Some f \<and> f \<notin> used_frames sample_mm_env s2"
proof -
  let ?E = sample_mm_env
  obtain s f where s: "upage_alloc ?E (Some 0) 0x80000000 sample_mm = Some (0, s)" "paging_inv ?E s"
      "translate ?E s 0 0x80000000 = Some f" "f \<in> used_frames ?E s"
      "translate ?E s 0 0x80001000 = None"
    using sample_kpool_free sample_no_used_frames sample_frame_exists sample_upage_addr(1) sample_translate
    by (cases rule: upage_alloc_cases [OF sample_upage_env sample_paging_inv, of 0 "0x80000000"])
      (auto simp: same_page_def)
  have at: "pgtab_at ?E s 0 (pde_idx sample_mmu 0x80001000) \<noteq> None"
    using s(3) by (auto simp: translate_def sample_mmu_def drop_bit_eq_div split: option.splits)
  have addr: "upage_addr (env_layout ?E) 0x80000000" "upage_addr (env_layout ?E) 0x80001000"
    using sample_upage_addr by simp_all
  have link: "upage_link ?E (Some 0) 0x80000000 0x80001000 s = upage_map ?E (Some 0) 0x80001000 f s"
    using addr(2) s(3)
    by (auto simp: upage_link_def upage_addr_def translate_def pgtab_at_def Let_def split: if_splits)
  obtain s1 where s1: "upage_link ?E (Some 0) 0x80000000 0x80001000 s = Some (0, s1)"
    using s(5) at link upage_map_present(1) [OF sample_paging_env s(2) _ s(5)]
    by (auto simp: upage_map_def pgtab_at_def translate_def Let_def mm_is_uaddr_def split: if_splits)
  show ?thesis
    using upage_link_dangling [OF sample_upage_env s(2) addr _ s(3,4) s1] s s1
    by (auto simp: same_page_def)
qed

lemma kpool_identity_addr:
  assumes id: "KPOOL_VIRT lay = KPOOL_PHYS lay"
    and al: "push_bit (PAGE_SHIFT lay) (drop_bit (PAGE_SHIFT lay) (KPOOL_PHYS lay)) = KPOOL_PHYS lay"
  shows "kpool_frame_to_addr lay f = push_bit (PAGE_SHIFT lay) f"
proof -
  have "push_bit n (x - y) = push_bit n x - push_bit n y" for n and x y :: "'a word"
    by (simp add: push_bit_eq_mult left_diff_distrib)
  then show ?thesis by (simp add: kpool_frame_to_addr_def kpool_id_to_addr_def id al)
qed



end
