(* ===== verification/Support.thy ===== *)
theory Support
  imports Prelude
begin

text \<open>
  The routines of the support library that the communication facilities call: the
  generic resource flags, the range test, the modulus by a power of two, and the
  copy of bytes.  They are not part of the sources, so they are the fields of the
  record \<open>klib\<close>, which every definition takes as an argument; \<open>'r\<close> is the type
  \<open>struct resource\<close>.  \<open>klib_laws\<close> states their documented behaviour and is a
  hypothesis of the lemmas that depend on it.
\<close>

type_synonym byte = "8 word"

record 'r klib =
  RESOURCE_INITIALIZER :: 'r
  resource_is_used     :: "'r \<Rightarrow> bool"
  resource_is_busy     :: "'r \<Rightarrow> bool"
  resource_is_readable :: "'r \<Rightarrow> bool"
  resource_is_writable :: "'r \<Rightarrow> bool"
  resource_set_used    :: "'r \<Rightarrow> 'r"
  resource_set_unused  :: "'r \<Rightarrow> 'r"
  resource_set_busy    :: "'r \<Rightarrow> 'r"
  resource_set_notbusy :: "'r \<Rightarrow> 'r"
  resource_set_rdonly  :: "'r \<Rightarrow> 'r"
  resource_set_wronly  :: "'r \<Rightarrow> 'r"
  WITHIN               :: "int \<Rightarrow> int \<Rightarrow> int \<Rightarrow> bool"
  mod_pw2              :: "int \<Rightarrow> int \<Rightarrow> int"
  kmemcpy              :: "byte list \<Rightarrow> byte list \<Rightarrow> nat \<Rightarrow> byte list"

text \<open>
  A setter changes the flag it names and no other; a resource is either read-only
  or write-only after the corresponding setter; an initialised resource has no
  flag set.  \<open>WITHIN\<close> tests a half-open interval, \<open>mod_pw2\<close> keeps the low bits,
  and \<open>kmemcpy\<close> overwrites the first bytes of the destination.
\<close>

definition resource_flags :: "'r klib \<Rightarrow> 'r \<Rightarrow> bool \<times> bool \<times> bool \<times> bool" where
  "resource_flags L r = (resource_is_used L r, resource_is_busy L r,
     resource_is_readable L r, resource_is_writable L r)"

definition klib_laws :: "'r klib \<Rightarrow> bool" where
  "klib_laws L \<longleftrightarrow>
    resource_flags L (RESOURCE_INITIALIZER L) = (False, False, False, False)
    \<and> (\<forall>r. resource_flags L (resource_set_used L r) =
          (True, resource_is_busy L r, resource_is_readable L r, resource_is_writable L r))
    \<and> (\<forall>r. resource_flags L (resource_set_unused L r) =
          (False, resource_is_busy L r, resource_is_readable L r, resource_is_writable L r))
    \<and> (\<forall>r. resource_flags L (resource_set_busy L r) =
          (resource_is_used L r, True, resource_is_readable L r, resource_is_writable L r))
    \<and> (\<forall>r. resource_flags L (resource_set_notbusy L r) =
          (resource_is_used L r, False, resource_is_readable L r, resource_is_writable L r))
    \<and> (\<forall>r. resource_flags L (resource_set_rdonly L r) =
          (resource_is_used L r, resource_is_busy L r, True, False))
    \<and> (\<forall>r. resource_flags L (resource_set_wronly L r) =
          (resource_is_used L r, resource_is_busy L r, False, True))
    \<and> (\<forall>x a b. WITHIN L x a b \<longleftrightarrow> a \<le> x \<and> x < b)
    \<and> (\<forall>x k. mod_pw2 L x (2 ^ k) = x mod 2 ^ k)
    \<and> (\<forall>dst src n. n \<le> length src \<longrightarrow> n \<le> length dst \<longrightarrow>
          kmemcpy L dst src n = take n src @ drop n dst)"

lemma klib_resource [simp]:
  assumes "klib_laws L"
  shows "\<not> resource_is_used L (RESOURCE_INITIALIZER L)"
    "\<not> resource_is_busy L (RESOURCE_INITIALIZER L)"
    "\<not> resource_is_readable L (RESOURCE_INITIALIZER L)"
    "\<not> resource_is_writable L (RESOURCE_INITIALIZER L)"
    "resource_is_used L (resource_set_used L r)"
    "resource_is_busy L (resource_set_used L r) = resource_is_busy L r"
    "resource_is_readable L (resource_set_used L r) = resource_is_readable L r"
    "resource_is_writable L (resource_set_used L r) = resource_is_writable L r"
    "\<not> resource_is_used L (resource_set_unused L r)"
    "resource_is_busy L (resource_set_unused L r) = resource_is_busy L r"
    "resource_is_readable L (resource_set_unused L r) = resource_is_readable L r"
    "resource_is_writable L (resource_set_unused L r) = resource_is_writable L r"
    "resource_is_used L (resource_set_busy L r) = resource_is_used L r"
    "resource_is_busy L (resource_set_busy L r)"
    "resource_is_readable L (resource_set_busy L r) = resource_is_readable L r"
    "resource_is_writable L (resource_set_busy L r) = resource_is_writable L r"
    "resource_is_used L (resource_set_notbusy L r) = resource_is_used L r"
    "\<not> resource_is_busy L (resource_set_notbusy L r)"
    "resource_is_readable L (resource_set_notbusy L r) = resource_is_readable L r"
    "resource_is_writable L (resource_set_notbusy L r) = resource_is_writable L r"
    "resource_is_used L (resource_set_rdonly L r) = resource_is_used L r"
    "resource_is_busy L (resource_set_rdonly L r) = resource_is_busy L r"
    "resource_is_readable L (resource_set_rdonly L r)"
    "\<not> resource_is_writable L (resource_set_rdonly L r)"
    "resource_is_used L (resource_set_wronly L r) = resource_is_used L r"
    "resource_is_busy L (resource_set_wronly L r) = resource_is_busy L r"
    "\<not> resource_is_readable L (resource_set_wronly L r)"
    "resource_is_writable L (resource_set_wronly L r)"
  using assms by (simp_all add: klib_laws_def resource_flags_def)

lemma klib_WITHIN [simp]: "klib_laws L \<Longrightarrow> WITHIN L x a b \<longleftrightarrow> a \<le> x \<and> x < b"
  by (simp add: klib_laws_def)

lemma klib_mod_pw2: "klib_laws L \<Longrightarrow> n = 2 ^ k \<Longrightarrow> mod_pw2 L x n = x mod n"
  by (simp add: klib_laws_def)

lemma klib_kmemcpy:
  "klib_laws L \<Longrightarrow> n \<le> length src \<Longrightarrow> n \<le> length dst \<Longrightarrow>
    kmemcpy L dst src n = take n src @ drop n dst"
  by (simp add: klib_laws_def)

section \<open>A concrete support library\<close>

text \<open>A resource as its four flags; the hypotheses can hold.\<close>

type_synonym sample_resource = "bool \<times> bool \<times> bool \<times> bool"

definition sample_klib :: "sample_resource klib" where
  "sample_klib =
    \<lparr> RESOURCE_INITIALIZER = (False, False, False, False),
      resource_is_used = (\<lambda>(u, b, rd, wr). u), resource_is_busy = (\<lambda>(u, b, rd, wr). b),
      resource_is_readable = (\<lambda>(u, b, rd, wr). rd), resource_is_writable = (\<lambda>(u, b, rd, wr). wr),
      resource_set_used = (\<lambda>(u, b, rd, wr). (True, b, rd, wr)),
      resource_set_unused = (\<lambda>(u, b, rd, wr). (False, b, rd, wr)),
      resource_set_busy = (\<lambda>(u, b, rd, wr). (u, True, rd, wr)),
      resource_set_notbusy = (\<lambda>(u, b, rd, wr). (u, False, rd, wr)),
      resource_set_rdonly = (\<lambda>(u, b, rd, wr). (u, b, True, False)),
      resource_set_wronly = (\<lambda>(u, b, rd, wr). (u, b, False, True)),
      WITHIN = (\<lambda>x a b. a \<le> x \<and> x < b), mod_pw2 = (\<lambda>x n. x mod n),
      kmemcpy = (\<lambda>dst src n. take n src @ drop n dst) \<rparr>"

lemma sample_klib_laws: "klib_laws sample_klib"
  by (simp add: klib_laws_def resource_flags_def sample_klib_def split: prod.split)

end
