(* ===== verification/Mbuffer.thy ===== *)
theory Mbuffer
  imports Support "HOL-Library.Multiset"
begin

text \<open>
  The message buffers: \<^verbatim>\<open>src/kernel/noc/mbuffer.h\<close> and \<^verbatim>\<open>mbuffer.c\<close>.

  A facility has one table of buffers and one counter of ages; a pool is a
  descriptor of a contiguous part of that table (the principal pool is the whole
  table, the auxiliary pool its tail), so two pools share buffers as they do in
  the source.  Descriptors do not change after initialisation.  A pointer to a
  buffer is its index in the table.  The locks of the source make each operation
  atomic, and each operation is one function here.
\<close>

section \<open>Structures\<close>

record mbuffer_header =
  hdr_dest   :: int
  hdr_src    :: int
  hdr_size   :: int
  hdr_unused :: int

record mbuffer_message =
  header :: mbuffer_header
  data   :: "byte list"

record 'r mbuffer =
  mb_resource :: 'r
  mb_age      :: "64 word"
  mb_latency  :: "64 word"
  mb_actid    :: int
  mb_portid   :: int
  mb_message  :: mbuffer_message

record 'r mbuffer_pool =
  mbuffers     :: nat
  nmbuffers    :: nat
  source_check :: "'r mbuffer \<Rightarrow> int \<Rightarrow> bool"

record 'r mbuffer_mem =
  mb_table :: "'r mbuffer list"
  curr_age :: "64 word"

datatype keep_rule = MBUFFER_DISCARD_MESSAGE | MBUFFER_KEEP_MESSAGE

text \<open>The initialiser of a message covers the header and the first byte of data.\<close>

definition MBUFFER_MESSAGE_INITIALIZER :: "mbuffer_message \<Rightarrow> mbuffer_message" where
  "MBUFFER_MESSAGE_INITIALIZER m =
    m\<lparr>header := \<lparr>hdr_dest = - 1, hdr_src = - 1, hdr_size = 0, hdr_unused = 0\<rparr>,
      data := (data m)[0 := 0]\<rparr>"

definition mbuffer_reset :: "'r klib \<Rightarrow> 'r mbuffer \<Rightarrow> 'r mbuffer" where
  "mbuffer_reset L buf =
    buf\<lparr>mb_resource := RESOURCE_INITIALIZER L, mb_age := - 1, mb_latency := 0,
        mb_actid := - 1, mb_portid := - 1,
        mb_message := MBUFFER_MESSAGE_INITIALIZER (mb_message buf)\<rparr>"

section \<open>Operations\<close>

definition pool_buffers :: "'r mbuffer_pool \<Rightarrow> 'r mbuffer_mem \<Rightarrow> 'r mbuffer list" where
  "pool_buffers pool m = take (nmbuffers pool) (drop (mbuffers pool) (mb_table m))"

definition mbuffer_alloc ::
  "'r klib \<Rightarrow> 'r mbuffer_pool \<Rightarrow> 'r mbuffer_mem \<Rightarrow> int \<times> 'r mbuffer_mem" where
  "mbuffer_alloc L pool m =
    (case first_index (\<lambda>buf. \<not> resource_is_used L (mb_resource buf)) (pool_buffers pool m) of
       None \<Rightarrow> (- EBUSY, m)
     | Some i \<Rightarrow>
         let k = mbuffers pool + i;
             buf = mbuffer_reset L (mb_table m ! k);
             buf = buf\<lparr>mb_resource := resource_set_used L (mb_resource buf)\<rparr>
         in (int i, m\<lparr>mb_table := (mb_table m)[k := buf]\<rparr>))"

definition mbuffer_get ::
  "'r klib \<Rightarrow> 'r mbuffer_pool \<Rightarrow> int \<Rightarrow> nat option" where
  "mbuffer_get L pool bufid =
    do {
      KASSERT (WITHIN L bufid 0 (int (nmbuffers pool)));
      Some (mbuffers pool + nat bufid)
    }"

definition mbuffer_release ::
  "'r klib \<Rightarrow> 'r mbuffer_pool \<Rightarrow> int \<Rightarrow> keep_rule \<Rightarrow> 'r mbuffer_mem
    \<Rightarrow> (int \<times> 'r mbuffer_mem) option" where
  "mbuffer_release L pool bufid keep_msg m =
    do {
      KASSERT (WITHIN L bufid 0 (int (nmbuffers pool)));
      let k = mbuffers pool + nat bufid;
      let buf = mb_table m ! k;
      if \<not> resource_is_used L (mb_resource buf) then Some (- EINVAL, m)
      else if keep_msg = MBUFFER_KEEP_MESSAGE
      then let buf = buf\<lparr>mb_age := curr_age m,
                          mb_resource := resource_set_busy L (mb_resource buf)\<rparr>
           in Some (0, m\<lparr>mb_table := (mb_table m)[k := buf], curr_age := curr_age m + 1\<rparr>)
      else Some (0, m\<lparr>mb_table := (mb_table m)[k := mbuffer_reset L buf]\<rparr>)
    }"

text \<open>The tests of the search loop, and the loop: \<open>i\<close> is the index of the first of
  the remaining buffers, \<open>ret\<close> and \<open>age\<close> are the loop's variables.\<close>

definition mbuffer_matches ::
  "'r klib \<Rightarrow> 'r mbuffer_pool \<Rightarrow> int \<Rightarrow> int \<Rightarrow> 'r mbuffer \<Rightarrow> bool" where
  "mbuffer_matches L pool dest src buf \<longleftrightarrow>
    resource_is_used L (mb_resource buf) \<and> resource_is_busy L (mb_resource buf)
    \<and> hdr_dest (header (mb_message buf)) = dest \<and> source_check pool buf src"

fun mbuffer_search_loop ::
  "('r mbuffer \<Rightarrow> bool) \<Rightarrow> nat \<Rightarrow> 'r mbuffer list \<Rightarrow> int \<Rightarrow> 64 word \<Rightarrow> int" where
  "mbuffer_search_loop P i [] ret age = ret"
| "mbuffer_search_loop P i (buf # bufs) ret age =
    (if \<not> P buf then mbuffer_search_loop P (i + 1) bufs ret age
     else if mb_age buf > age then mbuffer_search_loop P (i + 1) bufs ret age
     else mbuffer_search_loop P (i + 1) bufs (int i) (mb_age buf))"

definition mbuffer_search ::
  "'r klib \<Rightarrow> 'r mbuffer_pool \<Rightarrow> int \<Rightarrow> int \<Rightarrow> 'r mbuffer_mem \<Rightarrow> int" where
  "mbuffer_search L pool dest src m =
    mbuffer_search_loop (mbuffer_matches L pool dest src) 0 (pool_buffers pool m) (- EINVAL) (- 1)"

section \<open>The search\<close>

text \<open>The loop returns what it started with, or the last buffer of least age among
  those that match and are not older than the starting age.\<close>

lemma mbuffer_search_loop_spec:
  assumes "mbuffer_search_loop P i bufs ret age = r"
  shows "(r = ret \<and> (\<forall>b \<in> set bufs. P b \<longrightarrow> age < mb_age b))
    \<or> (\<exists>k < length bufs. r = int (i + k) \<and> P (bufs ! k) \<and> mb_age (bufs ! k) \<le> age
        \<and> (\<forall>b \<in> set bufs. P b \<longrightarrow> mb_age (bufs ! k) \<le> mb_age b))"
  using assms
proof (induction P i bufs ret age rule: mbuffer_search_loop.induct)
  case (2 P i buf bufs ret age)
  show ?case
  proof (cases "P buf \<and> mb_age buf \<le> age")
    case True
    then have "mbuffer_search_loop P (i + 1) bufs (int i) (mb_age buf) = r"
      using "2.prems" by (auto simp: not_less)
    from "2.IH"(3) [OF _ _ this] True consider
      "r = int i" "\<forall>b \<in> set bufs. P b \<longrightarrow> mb_age buf < mb_age b"
      | k where "k < length bufs" "r = int (i + 1 + k)" "P (bufs ! k)" "mb_age (bufs ! k) \<le> mb_age buf"
        "\<forall>b \<in> set bufs. P b \<longrightarrow> mb_age (bufs ! k) \<le> mb_age b"
      by (auto simp: not_less)
    then show ?thesis
    proof cases
      case 1
      then show ?thesis using True by (intro disjI2 exI [of _ 0]) auto
    next
      case (2 k)
      then show ?thesis using True by (intro disjI2 exI [of _ "Suc k"]) auto
    qed
  next
    case False
    then have *: "mbuffer_search_loop P (i + 1) bufs ret age = r"
      using "2.prems" by (auto simp: not_less)
    have "(r = ret \<and> (\<forall>b \<in> set bufs. P b \<longrightarrow> age < mb_age b))
      \<or> (\<exists>k < length bufs. r = int (i + 1 + k) \<and> P (bufs ! k) \<and> mb_age (bufs ! k) \<le> age
          \<and> (\<forall>b \<in> set bufs. P b \<longrightarrow> mb_age (bufs ! k) \<le> mb_age b))"
      using "2.IH"(1,2) * False by (cases "P buf") (auto simp: not_le)
    then show ?thesis
    proof (elim disjE exE conjE)
      fix k
      assume "k < length bufs" "r = int (i + 1 + k)" "P (bufs ! k)" "mb_age (bufs ! k) \<le> age"
        "\<forall>b \<in> set bufs. P b \<longrightarrow> mb_age (bufs ! k) \<le> mb_age b"
      then show ?thesis using False by (intro disjI2 exI [of _ "Suc k"]) auto
    qed (use False in auto)
  qed
qed simp

lemma mbuffer_search_cases:
  obtains (none) "mbuffer_search L pool dest src m = - EINVAL"
      "\<forall>b \<in> set (pool_buffers pool m). \<not> mbuffer_matches L pool dest src b"
  | (found) k where "k < length (pool_buffers pool m)" "mbuffer_search L pool dest src m = int k"
      "mbuffer_matches L pool dest src (pool_buffers pool m ! k)"
      "\<And>b. b \<in> set (pool_buffers pool m) \<Longrightarrow> mbuffer_matches L pool dest src b \<Longrightarrow>
        mb_age (pool_buffers pool m ! k) \<le> mb_age b"
proof -
  have "\<not> (- 1 :: 64 word) < a" for a by (simp add: not_less)
  then show thesis
    using mbuffer_search_loop_spec [OF refl, of "mbuffer_matches L pool dest src" 0
        "pool_buffers pool m" "- EINVAL" "- 1"] that
    unfolding mbuffer_search_def by auto
qed

section \<open>The pool as a queue of messages\<close>

text \<open>
  A buffer is stored when it is used and holds a message.  The stored messages of a
  pool, in the order of their ages, are the pool's abstract state: a queue.  The
  invariant says that ages order the messages: stored messages have distinct ages,
  all below the counter.
\<close>

definition stored :: "'r klib \<Rightarrow> 'r mbuffer \<Rightarrow> bool" where
  "stored L buf \<longleftrightarrow> resource_is_used L (mb_resource buf) \<and> resource_is_busy L (mb_resource buf)"

definition pending :: "'r klib \<Rightarrow> 'r mbuffer_pool \<Rightarrow> 'r mbuffer_mem \<Rightarrow> 'r mbuffer list" where
  "pending L pool m = sort_key mb_age (filter (stored L) (pool_buffers pool m))"

definition mbuffer_inv :: "'r klib \<Rightarrow> 'r mbuffer_pool \<Rightarrow> 'r mbuffer_mem \<Rightarrow> bool" where
  "mbuffer_inv L pool m \<longleftrightarrow>
    mbuffers pool + nmbuffers pool \<le> length (mb_table m)
    \<and> distinct (map mb_age (filter (stored L) (pool_buffers pool m)))
    \<and> (\<forall>b \<in> set (pool_buffers pool m). stored L b \<longrightarrow> mb_age b < curr_age m)"

lemma pool_buffers_length:
  "mbuffer_inv L pool m \<Longrightarrow> length (pool_buffers pool m) = nmbuffers pool"
  by (auto simp: pool_buffers_def mbuffer_inv_def)

lemma pool_buffers_nth:
  "mbuffer_inv L pool m \<Longrightarrow> i < nmbuffers pool \<Longrightarrow>
    pool_buffers pool m ! i = mb_table m ! (mbuffers pool + i)"
  by (simp add: pool_buffers_def mbuffer_inv_def)

lemma pool_buffers_update:
  "mbuffer_inv L pool m \<Longrightarrow> i < nmbuffers pool \<Longrightarrow>
    pool_buffers pool (m\<lparr>mb_table := (mb_table m)[mbuffers pool + i := b], curr_age := a\<rparr>) =
      (pool_buffers pool m)[i := b]"
  by (simp add: pool_buffers_def mbuffer_inv_def drop_update_swap take_update_swap)

lemma pool_buffers_update':
  "mbuffer_inv L pool m \<Longrightarrow> i < nmbuffers pool \<Longrightarrow>
    pool_buffers pool (m\<lparr>mb_table := (mb_table m)[mbuffers pool + i := b]\<rparr>) =
      (pool_buffers pool m)[i := b]"
  by (simp add: pool_buffers_def mbuffer_inv_def drop_update_swap take_update_swap)

text \<open>Filtering an updated table, and sorting a filtered one.\<close>

lemma filter_update_absent:
  "i < length xs \<Longrightarrow> \<not> P (xs ! i) \<Longrightarrow> \<not> P b \<Longrightarrow> filter P (xs[i := b]) = filter P xs"
  by (induction xs arbitrary: i) (auto split: nat.splits simp: nth_Cons)

lemma mset_filter_update_insert:
  "i < length xs \<Longrightarrow> \<not> P (xs ! i) \<Longrightarrow> P b \<Longrightarrow>
    mset (filter P (xs[i := b])) = add_mset b (mset (filter P xs))"
  by (induction xs arbitrary: i) (auto split: nat.splits simp: nth_Cons)

lemma mset_filter_update_remove:
  "i < length xs \<Longrightarrow> P (xs ! i) \<Longrightarrow> \<not> P b \<Longrightarrow>
    mset (filter P xs) = add_mset (xs ! i) (mset (filter P (xs[i := b])))"
  by (induction xs arbitrary: i) (auto split: nat.splits simp: nth_Cons)

lemma distinct_keys_mset:
  "mset xs = mset ys \<Longrightarrow> distinct (map f xs) = distinct (map f ys)"
  by (metis distinct_map mset_eq_setD mset_map mset_eq_imp_distinct_iff)

lemma sort_key_unique:
  assumes "mset xs = mset ys" and "distinct (map f xs)" and "sorted (map f ys)"
  shows "sort_key f xs = ys"
  using assms by (metis distinct_map sort_key_inj_key_eq)

lemma sorted_hd_le: "sorted (map f xs) \<Longrightarrow> x \<in> set xs \<Longrightarrow> f (hd xs) \<le> f x"
  by (cases xs) auto

lemma mset_pending: "mset (pending L pool m) = mset (filter (stored L) (pool_buffers pool m))"
  by (simp add: pending_def)

lemma sorted_pending: "sorted (map mb_age (pending L pool m))"
  by (simp add: pending_def)

lemma distinct_pending: "mbuffer_inv L pool m \<Longrightarrow> distinct (map mb_age (pending L pool m))"
  using distinct_keys_mset [OF mset_pending] by (auto simp: mbuffer_inv_def)

lemma set_pending:
  "b \<in> set (pending L pool m) \<longleftrightarrow> b \<in> set (pool_buffers pool m) \<and> stored L b"
  by (auto simp: pending_def)

lemma pendingI:
  assumes "mset ys = mset (filter (stored L) (pool_buffers pool m))"
    and "distinct (map mb_age ys)" and "sorted (map mb_age ys)"
  shows "pending L pool m = ys"
  unfolding pending_def
  by (rule sort_key_unique) (use assms distinct_keys_mset [OF assms(1), of mb_age] in simp_all)

lemma mbuffer_alloc_cases:
  assumes laws: "klib_laws L" and inv: "mbuffer_inv L pool m"
  obtains (busy) "mbuffer_alloc L pool m = (- EBUSY, m)"
      "\<forall>i < nmbuffers pool. resource_is_used L (mb_resource (mb_table m ! (mbuffers pool + i)))"
  | (fresh) i buf m' where "i < nmbuffers pool" "mbuffer_alloc L pool m = (int i, m')"
      "m' = m\<lparr>mb_table := (mb_table m)[mbuffers pool + i := buf]\<rparr>"
      "\<not> resource_is_used L (mb_resource (mb_table m ! (mbuffers pool + i)))"
      "\<forall>j < i. resource_is_used L (mb_resource (mb_table m ! (mbuffers pool + j)))"
      "resource_is_used L (mb_resource buf)" "\<not> resource_is_busy L (mb_resource buf)"
      "mb_actid buf = - 1" "mb_portid buf = - 1"
      "mb_message buf = MBUFFER_MESSAGE_INITIALIZER (mb_message (mb_table m ! (mbuffers pool + i)))"
proof (cases "first_index (\<lambda>buf. \<not> resource_is_used L (mb_resource buf)) (pool_buffers pool m)")
  case None
  then have "\<forall>i < nmbuffers pool. resource_is_used L (mb_resource (mb_table m ! (mbuffers pool + i)))"
    using pool_buffers_length [OF inv] pool_buffers_nth [OF inv] by (simp add: first_index_None_nth)
  with None busy show thesis by (simp add: mbuffer_alloc_def)
next
  case (Some i)
  note i = first_index_SomeD [OF Some]
  have il: "i < nmbuffers pool" using i(1) pool_buffers_length [OF inv] by simp
  show thesis
    by (rule fresh [OF il])
      (use Some i il laws pool_buffers_nth [OF inv] in
        \<open>auto simp: mbuffer_alloc_def Let_def mbuffer_reset_def\<close>)
qed

text \<open>Operations that change a buffer which is not stored, before or after, leave the
  queue alone.\<close>

lemma pending_update_other:
  assumes inv: "mbuffer_inv L pool m" and i: "i < nmbuffers pool"
    and old: "\<not> stored L (mb_table m ! (mbuffers pool + i))" and new: "\<not> stored L b"
  defines "m' \<equiv> m\<lparr>mb_table := (mb_table m)[mbuffers pool + i := b]\<rparr>"
  shows "mbuffer_inv L pool m'" and "pending L pool m' = pending L pool m"
proof -
  have upd: "pool_buffers pool m' = (pool_buffers pool m)[i := b]"
    using pool_buffers_update' [OF inv i] by (simp add: m'_def)
  have il: "i < length (pool_buffers pool m)" using i pool_buffers_length [OF inv] by simp
  have f: "filter (stored L) (pool_buffers pool m') = filter (stored L) (pool_buffers pool m)"
    unfolding upd by (rule filter_update_absent [OF il]) (use old new pool_buffers_nth [OF inv i] in simp_all)
  then show "pending L pool m' = pending L pool m" by (simp add: pending_def)
  have "{b \<in> set (pool_buffers pool m'). stored L b} = {b \<in> set (pool_buffers pool m). stored L b}"
    using arg_cong [OF f, of set] by simp
  then show "mbuffer_inv L pool m'"
    using inv f by (auto simp: mbuffer_inv_def m'_def)
qed

lemma mbuffer_keep:
  assumes laws: "klib_laws L" and inv: "mbuffer_inv L pool m" and i: "i < nmbuffers pool"
    and buf: "buf = mb_table m ! (mbuffers pool + i)"
    and used: "resource_is_used L (mb_resource buf)" "\<not> resource_is_busy L (mb_resource buf)"
    and age: "curr_age m \<noteq> - 1"
  obtains m' where "mbuffer_release L pool (int i) MBUFFER_KEEP_MESSAGE m = Some (0, m')"
    "mbuffer_inv L pool m'" "curr_age m' = curr_age m + 1"
    "pending L pool m' = pending L pool m @
      [buf\<lparr>mb_age := curr_age m, mb_resource := resource_set_busy L (mb_resource buf)\<rparr>]"
    "mb_table m' = (mb_table m)[mbuffers pool + i :=
      buf\<lparr>mb_age := curr_age m, mb_resource := resource_set_busy L (mb_resource buf)\<rparr>]"
proof -
  define b where "b = buf\<lparr>mb_age := curr_age m, mb_resource := resource_set_busy L (mb_resource buf)\<rparr>"
  define m' where "m' = m\<lparr>mb_table := (mb_table m)[mbuffers pool + i := b], curr_age := curr_age m + 1\<rparr>"
  have upd: "pool_buffers pool m' = (pool_buffers pool m)[i := b]"
    using pool_buffers_update [OF inv i] by (simp add: m'_def)
  have il: "i < length (pool_buffers pool m)" using i pool_buffers_length [OF inv] by simp
  have st: "\<not> stored L (pool_buffers pool m ! i)" "stored L b"
    using used laws pool_buffers_nth [OF inv i] by (auto simp: stored_def b_def buf)
  have ms: "mset (filter (stored L) (pool_buffers pool m')) =
      add_mset b (mset (filter (stored L) (pool_buffers pool m)))"
    unfolding upd by (rule mset_filter_update_insert [OF il st])
  have ages: "mb_age c < curr_age m" if "c \<in> set (pending L pool m)" for c
    using that inv by (auto simp: set_pending mbuffer_inv_def)
  have ba: "mb_age b = curr_age m" by (simp add: b_def)
  have pend: "pending L pool m' = pending L pool m @ [b]"
  proof (rule pendingI)
    show "mset (pending L pool m @ [b]) = mset (filter (stored L) (pool_buffers pool m'))"
      unfolding mset_append ms mset_pending by simp
    show "distinct (map mb_age (pending L pool m @ [b]))"
      using distinct_pending [OF inv] ages ba by force
    show "sorted (map mb_age (pending L pool m @ [b]))"
      using sorted_pending [of L pool m] ages ba by (auto simp: sorted_append less_imp_le)
  qed
  have succ: "curr_age m < curr_age m + 1"
    using age unatSuc [of "curr_age m"]
    by (metis add.commute add_eq_0_iff2 lessI word_less_nat_alt)
  have inv': "mbuffer_inv L pool m'"
    unfolding mbuffer_inv_def
  proof (intro conjI ballI impI)
    show "mbuffers pool + nmbuffers pool \<le> length (mb_table m')"
      using inv by (simp add: mbuffer_inv_def m'_def)
    show "distinct (map mb_age (filter (stored L) (pool_buffers pool m')))"
      using distinct_keys_mset [OF mset_pending, of mb_age L pool m'] pend distinct_pending [OF inv] ages ba
      by force
    show "mb_age c < curr_age m'" if "c \<in> set (pool_buffers pool m')" "stored L c" for c
      using that set_pending [of c L pool m'] pend ages ba succ by (auto simp: m'_def intro: less_trans)
  qed
  have "mbuffer_release L pool (int i) MBUFFER_KEEP_MESSAGE m = Some (0, m')"
    using laws i used by (simp add: mbuffer_release_def Let_def buf [symmetric] b_def m'_def)
  then show thesis
    using that inv' pend by (simp add: m'_def b_def)
qed

lemma mbuffer_discard:
  assumes laws: "klib_laws L" and inv: "mbuffer_inv L pool m" and i: "i < nmbuffers pool"
    and buf: "buf = mb_table m ! (mbuffers pool + i)" and used: "resource_is_used L (mb_resource buf)"
  obtains m' where "mbuffer_release L pool (int i) MBUFFER_DISCARD_MESSAGE m = Some (0, m')"
    "mbuffer_inv L pool m'" "curr_age m' = curr_age m"
    "pending L pool m' = (if stored L buf then remove1 buf (pending L pool m) else pending L pool m)"
    "mb_table m' = (mb_table m)[mbuffers pool + i := mbuffer_reset L buf]"
proof -
  define b where "b = mbuffer_reset L buf"
  define m' where "m' = m\<lparr>mb_table := (mb_table m)[mbuffers pool + i := b]\<rparr>"
  have rel: "mbuffer_release L pool (int i) MBUFFER_DISCARD_MESSAGE m = Some (0, m')"
    using laws i used by (simp add: mbuffer_release_def Let_def buf [symmetric] b_def m'_def)
  have nb: "\<not> stored L b" using laws by (simp add: stored_def b_def mbuffer_reset_def)
  have upd: "pool_buffers pool m' = (pool_buffers pool m)[i := b]"
    using pool_buffers_update' [OF inv i] by (simp add: m'_def)
  have il: "i < length (pool_buffers pool m)" using i pool_buffers_length [OF inv] by simp
  show thesis
  proof (cases "stored L buf")
    case False
    then show thesis
      using that [OF rel] pending_update_other [OF inv i, of b] nb by (simp add: m'_def b_def buf)
  next
    case True
    have pb: "pool_buffers pool m ! i = buf" using pool_buffers_nth [OF inv i] buf by simp
    have ms: "mset (filter (stored L) (pool_buffers pool m)) =
        add_mset buf (mset (filter (stored L) (pool_buffers pool m')))"
      unfolding upd using mset_filter_update_remove [OF il, of "stored L" b] True nb pb by simp
    have ms': "mset (remove1 buf (pending L pool m)) =
        mset (filter (stored L) (pool_buffers pool m'))"
      unfolding mset_remove1 mset_pending ms by simp
    have pend: "pending L pool m' = remove1 buf (pending L pool m)"
    proof (rule pendingI [OF ms'])
      show "distinct (map mb_age (remove1 buf (pending L pool m)))"
        using distinct_pending [OF inv] by (auto simp: distinct_map inj_on_def
            dest: notin_set_remove1)
      show "sorted (map mb_age (remove1 buf (pending L pool m)))"
        using sorted_pending by (rule sorted_map_remove1)
    qed
    have "mbuffer_inv L pool m'"
      unfolding mbuffer_inv_def
    proof (intro conjI ballI impI)
      show "distinct (map mb_age (filter (stored L) (pool_buffers pool m')))"
        using inv distinct_keys_mset [of _ "buf # filter (stored L) (pool_buffers pool m')" mb_age] ms
        by (auto simp: mbuffer_inv_def simp del: mset_filter)
      show "mb_age c < curr_age m'" if "c \<in> set (pool_buffers pool m')" "stored L c" for c
      proof -
        have "c \<in> set (filter (stored L) (pool_buffers pool m))"
          using that arg_cong [OF ms, of set_mset] by auto
        then show ?thesis using inv by (auto simp: mbuffer_inv_def m'_def)
      qed
    qed (use inv in \<open>simp add: mbuffer_inv_def m'_def\<close>)
    then show thesis using that [OF rel] pend True by (simp add: m'_def b_def)
  qed
qed

text \<open>The search returns the first message of the queue that matches.\<close>

lemma mbuffer_search_pending:
  assumes inv: "mbuffer_inv L pool m"
  shows "(mbuffer_search L pool dest src m = - EINVAL
        \<and> filter (mbuffer_matches L pool dest src) (pending L pool m) = [])
    \<or> (\<exists>i < nmbuffers pool. mbuffer_search L pool dest src m = int i
        \<and> filter (mbuffer_matches L pool dest src) (pending L pool m) \<noteq> []
        \<and> mb_table m ! (mbuffers pool + i) =
            hd (filter (mbuffer_matches L pool dest src) (pending L pool m)))"
proof (cases rule: mbuffer_search_cases [of L pool dest src m])
  case none
  then show ?thesis by (simp add: filter_empty_conv set_pending)
next
  case (found k)
  note 2 = found
  let ?P = "mbuffer_matches L pool dest src" and ?b = "pool_buffers pool m ! k"
  let ?qs = "filter ?P (pending L pool m)"
  have "stored L ?b" using 2(3) by (simp add: mbuffer_matches_def stored_def)
  then have b: "?b \<in> set ?qs" using 2(1,3) by (simp add: set_pending)
  then have ne: "?qs \<noteq> []" by (metis empty_iff list.set(1))
  have "mb_age (hd ?qs) \<le> mb_age ?b"
    using sorted_filter [OF sorted_pending] b by (rule sorted_hd_le)
  moreover have "hd ?qs \<in> set ?qs" using ne by (rule hd_in_set)
  then have "mb_age ?b \<le> mb_age (hd ?qs)" using 2(4) by (auto simp: set_pending)
  ultimately have "mb_age (hd ?qs) = mb_age ?b" by simp
  then have "hd ?qs = ?b"
    using distinct_pending [OF inv] b \<open>hd ?qs \<in> set ?qs\<close> by (auto simp: distinct_map inj_on_def)
  then show ?thesis
    using 2(1,2) ne pool_buffers_length [OF inv] pool_buffers_nth [OF inv] by auto
qed

section \<open>Properties\<close>

text \<open>A pool of three buffers: a message for address 17 of age 4, an older one of age 2,
  and a buffer that is allocated and not stored.\<close>

definition sample_pool :: "nat \<Rightarrow> nat \<Rightarrow> sample_resource mbuffer_pool" where
  "sample_pool base n = \<lparr>mbuffers = base, nmbuffers = n, source_check = \<lambda>buf src. True\<rparr>"

definition sample_mbuffer :: "bool \<Rightarrow> bool \<Rightarrow> 64 word \<Rightarrow> int \<Rightarrow> int \<Rightarrow> byte \<Rightarrow> sample_resource mbuffer" where
  "sample_mbuffer u b a dest src x =
    \<lparr>mb_resource = (u, b, False, False), mb_age = a, mb_latency = 0, mb_actid = - 1, mb_portid = - 1,
     mb_message = \<lparr>header = \<lparr>hdr_dest = dest, hdr_src = src, hdr_size = 0, hdr_unused = 0\<rparr>,
                   data = [x, x]\<rparr>\<rparr>"

definition sample_mem :: "sample_resource mbuffer_mem" where
  "sample_mem = \<lparr>mb_table = [sample_mbuffer True True 4 17 3 7, sample_mbuffer True True 2 17 5 8,
      sample_mbuffer True False (- 1) 0 0 9], curr_age = 5\<rparr>"

lemma sample_mbuffer_inv: "mbuffer_inv sample_klib (sample_pool 0 3) sample_mem"
  by (simp add: mbuffer_inv_def pool_buffers_def sample_pool_def sample_mem_def sample_mbuffer_def
      stored_def sample_klib_def)

text \<open>(C18) \<open>mbuffer_search\<close> finds the oldest stored message for the address and the source:
  the first of the queue of stored messages that matches.  It returns \<open>-EINVAL\<close>
  exactly when no stored message matches.\<close>

theorem mbuffer_search_oldest:
  fixes dest src :: int
  assumes "mbuffer_inv L pool m"
  defines "matching \<equiv> filter (mbuffer_matches L pool dest src) (pending L pool m)"
  shows "(mbuffer_search L pool dest src m = - EINVAL \<and> matching = [])
    \<or> (\<exists>i < nmbuffers pool. mbuffer_search L pool dest src m = int i \<and> matching \<noteq> []
        \<and> mb_table m ! (mbuffers pool + i) = hd matching)"
  unfolding matching_def by (rule mbuffer_search_pending [OF assms(1)])

theorem mbuffer_search_oldest_witness:
  "mbuffer_search sample_klib (sample_pool 0 3) 17 (- 1) sample_mem = 1
    \<and> filter (mbuffer_matches sample_klib (sample_pool 0 3) 17 (- 1))
        (pending sample_klib (sample_pool 0 3) sample_mem) \<noteq> []"
proof -
  have "mbuffer_search sample_klib (sample_pool 0 3) 17 (- 1) sample_mem = 1"
    by (simp add: mbuffer_search_def mbuffer_matches_def pool_buffers_def sample_pool_def sample_mem_def
        sample_mbuffer_def sample_klib_def)
  then show ?thesis using mbuffer_search_oldest [OF sample_mbuffer_inv, of 17 "- 1"] by auto
qed

text \<open>(C19) \<open>mbuffer_release\<close> as operations on the queue of stored messages, for a buffer of
  the pool.  A free buffer is refused and nothing changes.  Keeping the message of an
  allocated buffer puts it at the end of the queue.  Discarding takes the message out
  of the queue, or leaves the queue alone when the buffer was not stored.  The pool
  stays well formed.\<close>

theorem mbuffer_release_queue:
  assumes "klib_laws L" and "mbuffer_inv L pool m" and "i < nmbuffers pool" and "curr_age m \<noteq> - 1"
    and buf: "buf = mb_table m ! (mbuffers pool + i)"
  shows "(\<not> resource_is_used L (mb_resource buf) \<longrightarrow> mbuffer_release L pool (int i) rule m = Some (- EINVAL, m))
    \<and> (resource_is_used L (mb_resource buf) \<and> \<not> resource_is_busy L (mb_resource buf) \<longrightarrow>
        (\<exists>m'. mbuffer_release L pool (int i) MBUFFER_KEEP_MESSAGE m = Some (0, m') \<and> mbuffer_inv L pool m'
          \<and> map mb_message (pending L pool m') = map mb_message (pending L pool m) @ [mb_message buf]))
    \<and> (resource_is_used L (mb_resource buf) \<longrightarrow>
        (\<exists>m'. mbuffer_release L pool (int i) MBUFFER_DISCARD_MESSAGE m = Some (0, m') \<and> mbuffer_inv L pool m'
          \<and> pending L pool m' = (if stored L buf then remove1 buf (pending L pool m) else pending L pool m)
          \<and> \<not> resource_is_used L (mb_resource (mb_table m' ! (mbuffers pool + i)))))"
proof (intro conjI impI)
  assume "\<not> resource_is_used L (mb_resource buf)"
  then show "mbuffer_release L pool (int i) rule m = Some (- EINVAL, m)"
    using assms by (simp add: mbuffer_release_def Let_def)
next
  assume "resource_is_used L (mb_resource buf) \<and> \<not> resource_is_busy L (mb_resource buf)"
  then show "\<exists>m'. mbuffer_release L pool (int i) MBUFFER_KEEP_MESSAGE m = Some (0, m') \<and> mbuffer_inv L pool m'
      \<and> map mb_message (pending L pool m') = map mb_message (pending L pool m) @ [mb_message buf]"
    by (elim conjE, rule_tac mbuffer_keep [OF assms(1-3) buf _ _ assms(4)]) auto
next
  assume "resource_is_used L (mb_resource buf)"
  then show "\<exists>m'. mbuffer_release L pool (int i) MBUFFER_DISCARD_MESSAGE m = Some (0, m') \<and> mbuffer_inv L pool m'
      \<and> pending L pool m' = (if stored L buf then remove1 buf (pending L pool m) else pending L pool m)
      \<and> \<not> resource_is_used L (mb_resource (mb_table m' ! (mbuffers pool + i)))"
    using assms by (rule_tac mbuffer_discard [OF assms(1-3) buf])
      (auto simp: mbuffer_reset_def mbuffer_inv_def)
qed

theorem mbuffer_release_queue_witness:
  "\<exists>m'. mbuffer_release sample_klib (sample_pool 0 3) 2 MBUFFER_KEEP_MESSAGE sample_mem = Some (0, m')
    \<and> map mb_message (pending sample_klib (sample_pool 0 3) m') =
        map mb_message (pending sample_klib (sample_pool 0 3) sample_mem)
          @ [mb_message (sample_mbuffer True False (- 1) 0 0 9)]"
proof -
  have "mb_table sample_mem ! (mbuffers (sample_pool 0 3) + 2) = sample_mbuffer True False (- 1) 0 0 9"
    and "2 < nmbuffers (sample_pool 0 3)" and "curr_age sample_mem \<noteq> - 1"
    and "resource_is_used sample_klib (mb_resource (sample_mbuffer True False (- 1) 0 0 9))"
    and "\<not> resource_is_busy sample_klib (mb_resource (sample_mbuffer True False (- 1) 0 0 9))"
    by (simp_all add: sample_mem_def sample_pool_def sample_mbuffer_def sample_klib_def)
  then show ?thesis
    using mbuffer_release_queue [OF sample_klib_laws sample_mbuffer_inv, of 2] by fastforce
qed

end
