(* ===== verification/Port.thy ===== *)
theory Port
  imports Mbuffer
begin

unbundle bit_operations_syntax

text \<open>The ports of a communication channel: \<^verbatim>\<open>src/kernel/noc/port.h\<close> and
  \<^verbatim>\<open>port.c\<close>.  The pointer to a buffer pool is its descriptor, \<^const>\<open>None\<close> for
  \<open>NULL\<close>.\<close>

record 'r port =
  port_resource    :: 'r
  port_flags       :: "16 word"
  port_mbufferid   :: int
  port_mbufferpool :: "'r mbuffer_pool option"

record 'r port_pool =
  ports      :: "'r port list"
  nports     :: int
  used_ports :: int

definition PORT_FLAGS_REQUESTED :: "16 word" where
  "PORT_FLAGS_REQUESTED = push_bit 0 1"

definition port_set_requested :: "'r port \<Rightarrow> 'r port" where
  "port_set_requested port = port\<lparr>port_flags := port_flags port OR PORT_FLAGS_REQUESTED\<rparr>"

definition port_set_notrequested :: "'r port \<Rightarrow> 'r port" where
  "port_set_notrequested port = port\<lparr>port_flags := port_flags port AND NOT PORT_FLAGS_REQUESTED\<rparr>"

definition port_is_requested :: "'r port \<Rightarrow> bool" where
  "port_is_requested port \<longleftrightarrow> port_flags port AND PORT_FLAGS_REQUESTED \<noteq> 0"

definition portpool_choose_port :: "'r klib \<Rightarrow> 'r port_pool \<Rightarrow> int" where
  "portpool_choose_port L pool =
    (if used_ports pool < nports pool
     then case first_index (\<lambda>port. \<not> resource_is_used L (port_resource port))
                 (take (nat (nports pool)) (ports pool)) of
            None \<Rightarrow> - EINVAL
          | Some i \<Rightarrow> int i
     else - EINVAL)"

lemma port_requested_simps [simp]:
  "port_is_requested (port_set_requested port)"
  "\<not> port_is_requested (port_set_notrequested port)"
  "port_resource (port_set_requested port) = port_resource port"
  "port_resource (port_set_notrequested port) = port_resource port"
  "port_mbufferid (port_set_requested port) = port_mbufferid port"
  "port_mbufferid (port_set_notrequested port) = port_mbufferid port"
  by (simp_all add: port_is_requested_def port_set_requested_def port_set_notrequested_def
      PORT_FLAGS_REQUESTED_def bit.conj_disj_distrib2 and.assoc)

text \<open>The number of ports in use, which \<open>used_ports\<close> counts in a well-formed pool.\<close>

definition portpool_inv :: "'r klib \<Rightarrow> 'r port_pool \<Rightarrow> bool" where
  "portpool_inv L pool \<longleftrightarrow>
    int (length (ports pool)) = nports pool
    \<and> used_ports pool = int (count_if (\<lambda>port. resource_is_used L (port_resource port)) (ports pool))"

lemma portpool_choose_port_cases:
  assumes inv: "portpool_inv L pool"
  obtains (full) "portpool_choose_port L pool = - EINVAL"
      "\<forall>port \<in> set (ports pool). resource_is_used L (port_resource port)"
  | (free) i where "portpool_choose_port L pool = int i" "i < length (ports pool)"
      "\<not> resource_is_used L (port_resource (ports pool ! i))"
      "\<forall>j < i. resource_is_used L (port_resource (ports pool ! j))"
proof -
  let ?used = "\<lambda>port. resource_is_used L (port_resource port)"
  have n: "nat (nports pool) = length (ports pool)" and u: "used_ports pool = int (count_if ?used (ports pool))"
    using inv by (auto simp: portpool_inv_def)
  show thesis
  proof (cases "first_index (\<lambda>port. \<not> ?used port) (ports pool)")
    case None
    then have "portpool_choose_port L pool = - EINVAL" by (simp add: portpool_choose_port_def n)
    then show thesis using full None by (simp add: first_index_None_iff)
  next
    case (Some i)
    note i = first_index_SomeD [OF Some]
    have "count_if ?used (ports pool) \<noteq> length (ports pool)"
      using i(1,2) count_if_full_iff [of ?used "ports pool"] by blast
    then have "used_ports pool < nports pool"
      using u inv count_if_le_length [of ?used "ports pool"] by (simp add: portpool_inv_def)
    then show thesis using free [of i] Some i n by (simp add: portpool_choose_port_def)
  qed
qed

end
