(* ===== verification/Requests.thy ===== *)
theory Requests
  imports Port Interfaces
begin

text \<open>
  The structures of \<^verbatim>\<open>src/kernel/noc/active.h\<close> and the ring buffer of write
  requests of an active (the functions \<open>do_request_*\<close> of
  \<^verbatim>\<open>src/kernel/noc/active.c\<close>).  A pointer to a port is the port's index in the
  port pool of its active.  The lock of an active makes each operation atomic and
  is left out; the table of functions \<open>fn\<close>, the same for all actives of a
  facility, is an argument of the operations that use it.

  The ring buffer refines a queue of ports that take turns (the locale
  \<open>turn_queue\<close>): a request joins at the end, only the port at the front may use
  the channel, and completing its operation lets the next one go.
\<close>

section \<open>Structures\<close>

record active_config =
  cfg_fd          :: int
  cfg_local_addr  :: int
  cfg_remote_addr :: int
  cfg_buffer      :: nat
  cfg_size        :: nat

record pstats =
  ps_volume  :: nat
  ps_latency :: "64 word"

record requests_fifo =
  head         :: int
  tail         :: int
  max_capacity :: int
  nelements    :: int
  fifo         :: "int list"

record 'r active =
  act_resource    :: 'r
  act_flags       :: "32 word"
  hwfd            :: int
  act_local       :: int
  act_remote      :: int
  refcount        :: int
  act_size        :: nat
  portpool        :: "'r port_pool"
  mbufferpool     :: "'r mbuffer_pool"
  mbufferpool_aux :: "'r mbuffer_pool"
  requests        :: requests_fifo

definition ACTIVE_CONFIG_INITIALIZER :: active_config where
  "ACTIVE_CONFIG_INITIALIZER =
    \<lparr>cfg_fd = - 1, cfg_local_addr = - 1, cfg_remote_addr = - 1, cfg_buffer = 0, cfg_size = 0\<rparr>"

definition PSTATS_INITIALIZER :: pstats where
  "PSTATS_INITIALIZER = \<lparr>ps_volume = 0, ps_latency = 0\<rparr>"

definition REQUESTS_FIFO_INITIALIZER :: requests_fifo where
  "REQUESTS_FIFO_INITIALIZER = \<lparr>head = 0, tail = 0, max_capacity = 0, nelements = 0, fifo = []\<rparr>"

text \<open>The port \<open>portid\<close> of an active, and its update through a pointer.\<close>

definition port_of :: "'r active \<Rightarrow> int \<Rightarrow> 'r port" where
  "port_of active portid = ports (portpool active) ! nat portid"

definition set_port :: "int \<Rightarrow> ('r port \<Rightarrow> 'r port) \<Rightarrow> 'r active \<Rightarrow> 'r active" where
  "set_port portid f active =
    active\<lparr>portpool := (portpool active)
      \<lparr>ports := (ports (portpool active))[nat portid := f (port_of active portid)]\<rparr>\<rparr>"

section \<open>The requests\<close>

definition do_request_operation :: "'r klib \<Rightarrow> int \<Rightarrow> 'r active \<Rightarrow> (int \<times> 'r active) option" where
  "do_request_operation L portid active =
    do {
      KASSERT (WITHIN L portid 0 (nports (portpool active)));
      let rq = requests active;
      if nelements rq = max_capacity rq then Some (- EBUSY, active)
      else
        let active = set_port portid port_set_requested active;
            rq = rq\<lparr>fifo := (fifo rq)[nat (head rq) := portid],
                    head := mod_pw2 L (head rq + 1) (max_capacity rq),
                    nelements := nelements rq + 1\<rparr>
        in Some (0, active\<lparr>requests := rq\<rparr>)
    }"

definition do_request_complete :: "'r klib \<Rightarrow> int \<Rightarrow> 'r active \<Rightarrow> (int \<times> 'r active) option" where
  "do_request_complete L portid active =
    do {
      KASSERT (WITHIN L portid 0 (nports (portpool active)));
      let rq = requests active;
      if fifo rq ! nat (tail rq) \<noteq> portid then Some (- EINVAL, active)
      else
        let rq = rq\<lparr>fifo := (fifo rq)[nat (tail rq) := - 1],
                    tail := mod_pw2 L (tail rq + 1) (max_capacity rq),
                    nelements := nelements rq - 1\<rparr>
        in Some (0, set_port portid port_set_notrequested (active\<lparr>requests := rq\<rparr>))
    }"

text \<open>The loop of \<open>do_request_clear\<close>; it need not end when \<open>head\<close> is not a slot of
  the ring, and \<^const>\<open>None\<close> is a loop that does not end.\<close>

partial_function (option) do_request_clear_loop ::
  "'r klib \<Rightarrow> int \<Rightarrow> int \<Rightarrow> int \<Rightarrow> int \<Rightarrow> int \<Rightarrow> bool \<Rightarrow> int list \<Rightarrow> (bool \<times> int list) option" where
  "do_request_clear_loop L cap h portid cur nxt cleared q =
    (if cur = h then Some (cleared, q)
     else
       let cleared = (cleared \<or> portid = q ! nat cur);
           q = (if cleared then q[nat cur := q ! nat nxt] else q);
           cur = nxt
       in do_request_clear_loop L cap h portid cur (mod_pw2 L (cur + 1) cap) cleared q)"

definition do_request_clear :: "'r klib \<Rightarrow> int \<Rightarrow> 'r active \<Rightarrow> (int \<times> 'r active) option" where
  "do_request_clear L portid active =
    do {
      KASSERT (WITHIN L portid 0 (nports (portpool active)));
      let rq = requests active;
      if nelements rq = 0 then Some (0, active)
      else do {
        (cleared, q) \<leftarrow> do_request_clear_loop L (max_capacity rq) (head rq) portid
          (tail rq) (mod_pw2 L (tail rq + 1) (max_capacity rq)) False (fifo rq);
        let rq = rq\<lparr>fifo := q\<rparr>;
        if cleared
        then let rq = rq\<lparr>head := mod_pw2 L (head rq - 1) (max_capacity rq),
                         nelements := nelements rq - 1\<rparr>
             in Some (0, set_port portid port_set_notrequested (active\<lparr>requests := rq\<rparr>))
        else Some (0, active\<lparr>requests := rq\<rparr>)
      }
    }"

definition do_request_verify :: "'r klib \<Rightarrow> int \<Rightarrow> 'r active \<Rightarrow> bool option" where
  "do_request_verify L portid active =
    do {
      KASSERT (WITHIN L portid 0 (nports (portpool active)));
      let rq = requests active;
      Some (nelements rq \<noteq> 0 \<and> fifo rq ! nat (tail rq) = portid)
    }"

section \<open>The ring buffer as a queue\<close>

text \<open>The waiting ports are the \<open>nelements\<close> slots from \<open>tail\<close> on.  In a well-formed
  ring \<open>head\<close> is the slot after them, the other slots hold $-1$, and the capacity is
  a power of two.\<close>

definition waiting_ports :: "requests_fifo \<Rightarrow> int list" where
  "waiting_ports rq = take (nat (nelements rq)) (rotate (nat (tail rq)) (fifo rq))"

definition fifo_inv :: "requests_fifo \<Rightarrow> bool" where
  "fifo_inv rq \<longleftrightarrow>
    (\<exists>k. max_capacity rq = 2 ^ k) \<and> int (length (fifo rq)) = max_capacity rq
    \<and> 0 \<le> tail rq \<and> tail rq < max_capacity rq
    \<and> 0 \<le> nelements rq \<and> nelements rq \<le> max_capacity rq
    \<and> head rq = (tail rq + nelements rq) mod max_capacity rq
    \<and> (\<forall>x \<in> set (drop (nat (nelements rq)) (rotate (nat (tail rq)) (fifo rq))). x = - 1)"

lemma shift_mod_eq:
  assumes "i < c" "j < c"
  shows "(t + i) mod c = (t + j) mod c \<longleftrightarrow> i = (j :: nat)"
proof -
  have "m mod c < c" for m using assms by (intro mod_less_divisor) auto
  then show ?thesis
    using nth_eq_iff_index_eq [of "rotate t [0..<c]" i j] assms by (simp add: nth_rotate)
qed

lemma rotate_update:
  assumes "i < length xs"
  shows "rotate t (xs[(t + i) mod length xs := v]) = (rotate t xs)[i := v]"
proof (rule nth_equalityI)
  fix j assume "j < length (rotate t (xs[(t + i) mod length xs := v]))"
  then have j: "j < length xs" by simp
  have lt: "m mod length xs < length xs" for m using j by (intro mod_less_divisor) auto
  show "rotate t (xs[(t + i) mod length xs := v]) ! j = (rotate t xs)[i := v] ! j"
    using j assms lt shift_mod_eq [OF assms j, of t] by (auto simp: nth_rotate nth_list_update)
qed simp

lemma ring_succ:
  assumes "klib_laws L" "c = 2 ^ k"
  shows "mod_pw2 L (int (m mod c) + 1) (int c) = int ((m + 1) mod c)"
    and "mod_pw2 L (int ((m + 1) mod c) - 1) (int c) = int (m mod c)"
  using klib_mod_pw2 [OF assms(1), of "int c" k] assms(2) by (simp_all add: zmod_int mod_simps add.commute)

lemma rotate_mod_Suc:
  "xs \<noteq> [] \<Longrightarrow> rotate ((t + 1) mod length xs) xs = rotate1 (rotate t xs)"
  by (metis Suc_eq_plus1 rotate_Suc rotate_conv_mod)

text \<open>The facts of a well-formed ring over natural numbers: \<open>t\<close> is the tail, \<open>c\<close> the
  capacity and \<open>xs\<close> the rotated slots.\<close>

lemma fifo_invE:
  assumes "fifo_inv rq"
  obtains t c n k xs where "tail rq = int t" "max_capacity rq = int c" "nelements rq = int n"
    "length (fifo rq) = c" "t < c" "n \<le> c" "head rq = int ((t + n) mod c)" "c = 2 ^ k"
    "rotate t (fifo rq) = waiting_ports rq @ replicate (c - n) (- 1)"
    "length (waiting_ports rq) = n"
proof -
  define t n where "t = nat (tail rq)" and "n = nat (nelements rq)"
  let ?c = "length (fifo rq)"
  obtain k where "max_capacity rq = 2 ^ k" using assms by (auto simp: fifo_inv_def)
  then have k: "?c = 2 ^ k" using assms by (simp add: fifo_inv_def flip: of_nat_eq_iff)
  have t: "tail rq = int t" "nelements rq = int n" "max_capacity rq = int ?c" "t < ?c" "n \<le> ?c"
    using assms by (auto simp: fifo_inv_def t_def n_def)
  have "drop n (rotate t (fifo rq)) = replicate (?c - n) (- 1)"
    by (rule replicate_eqI) (use assms in \<open>auto simp: fifo_inv_def t_def n_def\<close>)
  then have rot: "rotate t (fifo rq) = waiting_ports rq @ replicate (?c - n) (- 1)"
    by (metis append_take_drop_id waiting_ports_def n_def t_def)
  have h: "head rq = int ((t + n) mod ?c)"
    using assms t by (simp add: fifo_inv_def zmod_int)
  have "length (waiting_ports rq) = n" using t by (simp add: waiting_ports_def)
  then show thesis using that [OF t(1,3,2) refl t(4,5) h k rot] by blast
qed

lemma fifo_inv_nelements:
  "fifo_inv rq \<Longrightarrow> nelements rq = int (length (waiting_ports rq)) \<and> nelements rq \<le> max_capacity rq"
  by (auto simp: fifo_inv_def waiting_ports_def min_def nat_le_iff)

lemma fifo_invI:
  assumes "max_capacity rq = int (2 ^ k)" "length (fifo rq) = 2 ^ k" "tail rq = int t" "t < 2 ^ k"
    "length ps = n" "n \<le> 2 ^ k" "nelements rq = int n" "head rq = int ((t + n) mod 2 ^ k)"
    "rotate t (fifo rq) = ps @ replicate (2 ^ k - n) (- 1)"
  shows "fifo_inv rq" and "waiting_ports rq = ps"
  using assms by (auto simp: fifo_inv_def waiting_ports_def zmod_int)

section \<open>The loop of \<open>do_request_clear\<close>\<close>

text \<open>Over the rotated slots \<open>us @ ws @ vs\<close> the loop runs through \<open>ws\<close>: from the port on,
  it moves every slot one place forward.\<close>

lemma rotated_nth:
  "rotate t q = xs \<Longrightarrow> length q = c \<Longrightarrow> i < c \<Longrightarrow> q ! ((t + i) mod c) = xs ! i"
  by (metis nth_rotate)

lemma rotated_shift:
  assumes "rotate t q = us @ w # zs" "zs \<noteq> []" "length q = c"
  shows "rotate t (q[(t + length us) mod c := q ! ((t + length us + 1) mod c)]) = (us @ [hd zs]) @ zs"
proof -
  have "length us + 1 + length zs = c" using length_rotate [of t q] assms by simp
  then have len: "length us + 1 < c" using assms(2) by (cases zs) auto
  have "q ! ((t + length us + 1) mod c) = hd zs"
    using rotated_nth [OF assms(1,3) len] assms(2) by (simp add: nth_append hd_conv_nth add.assoc)
  then show ?thesis
    using rotate_update [of "length us" q t "hd zs"] assms len by (simp add: list_update_append)
qed

lemma do_request_clear_loop_step:
  assumes laws: "klib_laws L" and c: "c = 2 ^ k" and "i < n" "n < c"
  shows "do_request_clear_loop L (int c) (int ((t + n) mod c)) p
      (int ((t + i) mod c)) (int ((t + i + 1) mod c)) b q =
    (let b' = b \<or> p = q ! ((t + i) mod c);
         q' = if b' then q[(t + i) mod c := q ! ((t + i + 1) mod c)] else q
     in do_request_clear_loop L (int c) (int ((t + n) mod c)) p
      (int ((t + (i + 1)) mod c)) (int ((t + (i + 1) + 1) mod c)) b' q')"
proof -
  have "mod_pw2 L (int ((t + i + 1) mod c) + 1) (int c) = int ((t + (i + 1) + 1) mod c)"
    using ring_succ(1) [OF laws c, of "t + i + 1"] by (simp add: add.assoc)
  moreover have "(t + i) mod c \<noteq> (t + n) mod c" using shift_mod_eq assms by auto
  ultimately show ?thesis
    by (subst do_request_clear_loop.simps) (simp add: Let_def)
qed

lemma do_request_clear_loop_end:
  "do_request_clear_loop L cap h p h nxt b q = Some (b, q)"
  by (subst do_request_clear_loop.simps) simp

lemma do_request_clear_loop_cleared:
  assumes laws: "klib_laws L" and c: "c = 2 ^ k" and "length q = c"
    and "rotate t q = us @ ws @ vs" "vs \<noteq> []"
  shows "\<exists>q'. do_request_clear_loop L (int c) (int ((t + (length us + length ws)) mod c)) p
      (int ((t + length us) mod c)) (int ((t + length us + 1) mod c)) True q = Some (True, q')
    \<and> length q' = c \<and> rotate t q' = us @ tl (ws @ [hd vs]) @ vs"
  using assms(3,4)
proof (induction ws arbitrary: us q)
  case Nil
  then show ?case by (simp add: do_request_clear_loop_end)
next
  case (Cons w ws)
  let ?q = "q[(t + length us) mod c := q ! ((t + length us + 1) mod c)]"
  have lt: "length us + length (w # ws) < c"
    using length_rotate [of t q] Cons.prems assms(5) by (cases vs) auto
  have "rotate t ?q = (us @ [hd (ws @ vs)]) @ ws @ vs"
    using rotated_shift [of t q us w "ws @ vs" c] Cons.prems assms(5) by simp
  from Cons.IH [OF _ this] Cons.prems(1) show ?case
    using do_request_clear_loop_step [OF laws c _ lt, of "length us"] assms(5)
    by (cases ws) (auto simp: Let_def)
qed

lemma do_request_clear_loop_spec:
  assumes laws: "klib_laws L" and c: "c = 2 ^ k" and "length q = c"
    and "rotate t q = us @ ws @ vs" "vs \<noteq> []"
  shows "\<exists>q'. do_request_clear_loop L (int c) (int ((t + (length us + length ws)) mod c)) p
      (int ((t + length us) mod c)) (int ((t + length us + 1) mod c)) False q = Some (p \<in> set ws, q')
    \<and> length q' = c \<and> rotate t q' = us @ (if p \<in> set ws then remove1 p ws @ [hd vs] else ws) @ vs"
  using assms(3,4)
proof (induction ws arbitrary: us)
  case Nil
  then show ?case by (simp add: do_request_clear_loop_end)
next
  case (Cons w ws)
  let ?q = "q[(t + length us) mod c := q ! ((t + length us + 1) mod c)]"
  have lt: "length us + length (w # ws) < c"
    using length_rotate [of t q] Cons.prems assms(5) by (cases vs) auto
  have w: "q ! ((t + length us) mod c) = w"
    using rotated_nth [OF Cons.prems(2,1), of "length us"] lt by simp
  note step = do_request_clear_loop_step [OF laws c _ lt, of "length us" t p False q]
  show ?case
  proof (cases "p = w")
    case True
    have "rotate t ?q = (us @ [hd (ws @ vs)]) @ ws @ vs"
      using rotated_shift [of t q us w "ws @ vs" c] Cons.prems assms(5) by simp
    from do_request_clear_loop_cleared [OF laws c _ this assms(5), of p] Cons.prems(1)
    show ?thesis using step True w assms(5) by (cases ws) (auto simp: Let_def)
  next
    case False
    from Cons.IH [of "us @ [w]"] Cons.prems show ?thesis
      using step False w by (auto simp: Let_def)
  qed
qed

section \<open>The operations refine the queue\<close>

lemma set_port_simps [simp]:
  "requests (set_port p f a) = requests a" "act_resource (set_port p f a) = act_resource a"
  "mbufferpool (set_port p f a) = mbufferpool a" "mbufferpool_aux (set_port p f a) = mbufferpool_aux a"
  "act_remote (set_port p f a) = act_remote a" "act_local (set_port p f a) = act_local a"
  "hwfd (set_port p f a) = hwfd a" "act_size (set_port p f a) = act_size a"
  "refcount (set_port p f a) = refcount a" "act_flags (set_port p f a) = act_flags a"
  "nports (portpool (set_port p f a)) = nports (portpool a)"
  "used_ports (portpool (set_port p f a)) = used_ports (portpool a)"
  "length (ports (portpool (set_port p f a))) = length (ports (portpool a))"
  by (simp_all add: set_port_def)

lemma port_of_set_port:
  "0 \<le> p \<Longrightarrow> 0 \<le> q \<Longrightarrow> nat p < length (ports (portpool a)) \<Longrightarrow>
    port_of (set_port p f a) q = (if p = q then f (port_of a p) else port_of a q)"
  by (auto simp: port_of_def set_port_def nth_list_update eq_nat_nat_iff)

text \<open>A port id is valid when it is an index of the port pool.  Every port that is
  flagged as requested waits in the ring.\<close>

definition valid_port :: "'r active \<Rightarrow> int \<Rightarrow> bool" where
  "valid_port active portid \<longleftrightarrow> 0 \<le> portid \<and> portid < nports (portpool active)"

definition requests_inv :: "'r active \<Rightarrow> bool" where
  "requests_inv active \<longleftrightarrow>
    fifo_inv (requests active)
    \<and> int (length (ports (portpool active))) = nports (portpool active)
    \<and> (\<forall>p \<in> set (waiting_ports (requests active)). valid_port active p)
    \<and> (\<forall>p. valid_port active p \<and> port_is_requested (port_of active p) \<longrightarrow>
          p \<in> set (waiting_ports (requests active)))"

lemma requests_invD:
  assumes "requests_inv a"
  shows "fifo_inv (requests a)" "nports (portpool a) = int (length (ports (portpool a)))"
    "p \<in> set (waiting_ports (requests a)) \<Longrightarrow> valid_port a p"
    "valid_port a p \<Longrightarrow> port_is_requested (port_of a p) \<Longrightarrow> p \<in> set (waiting_ports (requests a))"
  using assms unfolding requests_inv_def by simp_all

lemma valid_port_nat: "requests_inv a \<Longrightarrow> valid_port a p \<Longrightarrow> nat p < length (ports (portpool a))"
  using requests_invD(2) [of a] by (simp add: valid_port_def nat_less_iff)

lemma valid_port_set_port [simp]: "valid_port (set_port q f a) = valid_port a"
  by (simp add: valid_port_def fun_eq_iff)

lemma valid_port_update [simp]: "valid_port (a\<lparr>requests := rq\<rparr>) = valid_port a"
  "port_of (a\<lparr>requests := rq\<rparr>) = port_of a"
  by (simp_all add: valid_port_def port_of_def fun_eq_iff)

lemma port_of_set_port_valid:
  "requests_inv a \<Longrightarrow> valid_port a p \<Longrightarrow> valid_port a q \<Longrightarrow>
    port_of (set_port p f a) q = (if p = q then f (port_of a p) else port_of a q)"
  by (rule port_of_set_port) (auto simp: valid_port_def valid_port_nat)

text \<open>The invariant after an operation on port \<open>p\<close> that leaves the ports in \<open>ps\<close> waiting.\<close>

lemma requests_invI:
  assumes inv: "requests_inv a" and p: "valid_port a p"
    and rq: "fifo_inv rq" "waiting_ports rq = ps" "\<forall>q \<in> set ps. valid_port a q"
    and f: "port_is_requested (f (port_of a p)) \<longrightarrow> p \<in> set ps"
    and rest: "\<forall>q \<in> set (waiting_ports (requests a)). q \<noteq> p \<longrightarrow> q \<in> set ps"
  shows "requests_inv ((set_port p f a)\<lparr>requests := rq\<rparr>)"
proof -
  have "q \<in> set ps" if q: "valid_port a q" "port_is_requested (port_of (set_port p f a) q)" for q
    using port_of_set_port_valid [OF inv p q(1), of f] q f rest requests_invD(4) [OF inv q(1)]
    by (cases "p = q") auto
  then show ?thesis
    using rq requests_invD(2) [OF inv] by (simp add: requests_inv_def)
qed

lemma set_port_requests_update:
  "set_port p f (a\<lparr>requests := rq\<rparr>) = (set_port p f a)\<lparr>requests := rq\<rparr>"
  by (simp add: set_port_def port_of_def)

lemma do_request_operation_room:
  assumes laws: "klib_laws L" and inv: "requests_inv a" and p: "valid_port a p"
    and room: "length (waiting_ports (requests a)) < nat (max_capacity (requests a))"
  obtains rq where "do_request_operation L p a = Some (0, (set_port p port_set_requested a)\<lparr>requests := rq\<rparr>)"
    "requests_inv ((set_port p port_set_requested a)\<lparr>requests := rq\<rparr>)"
    "waiting_ports rq = waiting_ports (requests a) @ [p]"
    "max_capacity rq = max_capacity (requests a)"
proof -
  have f: "fifo_inv (requests a)" using inv by (simp add: requests_inv_def)
  show thesis
  proof (rule fifo_invE [OF f])
    fix t c n k
    assume *: "tail (requests a) = int t" "max_capacity (requests a) = int c"
      "nelements (requests a) = int n" "length (fifo (requests a)) = c" "t < c" "n \<le> c"
      "head (requests a) = int ((t + n) mod c)" "c = 2 ^ k"
      "rotate t (fifo (requests a)) = waiting_ports (requests a) @ replicate (c - n) (- 1)"
      "length (waiting_ports (requests a)) = n"
    have n: "n < c" using room *(2,10) by simp
    define rq where "rq = (requests a)\<lparr>fifo := (fifo (requests a))[nat (head (requests a)) := p],
      head := mod_pw2 L (head (requests a) + 1) (max_capacity (requests a)),
      nelements := nelements (requests a) + 1\<rparr>"
    have h: "head rq = int ((t + (n + 1)) mod c)"
      using ring_succ(1) [OF laws *(8), of "t + n"] *(2,7) by (simp add: rq_def add.assoc)
    have rot: "rotate t (fifo rq) = (waiting_ports (requests a) @ [p]) @ replicate (c - (n + 1)) (- 1)"
      using rotate_update [of n "fifo (requests a)" t p] * n
      by (cases "c - n") (auto simp: rq_def list_update_append)
    have rq: "fifo_inv rq" "waiting_ports rq = waiting_ports (requests a) @ [p]"
      using fifo_invI [of rq k t "waiting_ports (requests a) @ [p]" "n + 1"] * n h rot
      by (simp_all add: rq_def)
    have "do_request_operation L p a = Some (0, (set_port p port_set_requested a)\<lparr>requests := rq\<rparr>)"
      using laws p n * by (simp add: do_request_operation_def valid_port_def rq_def Let_def)
    moreover have "requests_inv ((set_port p port_set_requested a)\<lparr>requests := rq\<rparr>)"
      by (rule requests_invI [OF inv p rq]) (use requests_invD(3) [OF inv] p in auto)
    ultimately show thesis using that rq by (simp add: rq_def)
  qed
qed

lemma do_request_operation_full:
  assumes "klib_laws L" and "requests_inv a" and "valid_port a p"
    and "\<not> length (waiting_ports (requests a)) < nat (max_capacity (requests a))"
  shows "do_request_operation L p a = Some (- EBUSY, a)"
proof -
  have "nelements (requests a) = max_capacity (requests a)"
    using assms(4) fifo_inv_nelements [OF requests_invD(1) [OF assms(2)]] by linarith
  then show ?thesis using assms(1,3) by (simp add: do_request_operation_def valid_port_def)
qed

lemma fifo_front:
  assumes "fifo_inv rq"
  shows "fifo rq ! nat (tail rq) = (case waiting_ports rq of [] \<Rightarrow> - 1 | p # ps \<Rightarrow> p)"
proof (rule fifo_invE [OF assms])
  fix t c n k
  assume *: "tail rq = int t" "length (fifo rq) = c" "t < c"
    "rotate t (fifo rq) = waiting_ports rq @ replicate (c - n) (- 1)" "length (waiting_ports rq) = n"
  have "fifo rq ! t = (waiting_ports rq @ replicate (c - n) (- 1)) ! 0"
    using rotated_nth [OF *(4,2), of 0] *(3) by simp
  then show ?thesis using *(1,3,5) by (auto split: list.split)
qed

lemma do_request_complete_turn:
  assumes laws: "klib_laws L" and inv: "requests_inv a" and w: "waiting_ports (requests a) = p # ps"
  obtains rq where "do_request_complete L p a = Some (0, (set_port p port_set_notrequested a)\<lparr>requests := rq\<rparr>)"
    "requests_inv ((set_port p port_set_notrequested a)\<lparr>requests := rq\<rparr>)"
    "waiting_ports rq = ps" "max_capacity rq = max_capacity (requests a)"
proof -
  have p: "valid_port a p" using requests_invD(3) [OF inv] w by simp
  show thesis
  proof (rule fifo_invE [OF requests_invD(1) [OF inv]])
    fix t c n k
    assume *: "tail (requests a) = int t" "max_capacity (requests a) = int c"
      "nelements (requests a) = int n" "length (fifo (requests a)) = c" "t < c" "n \<le> c"
      "head (requests a) = int ((t + n) mod c)" "c = 2 ^ k"
      "rotate t (fifo (requests a)) = waiting_ports (requests a) @ replicate (c - n) (- 1)"
      "length (waiting_ports (requests a)) = n"
    have n: "n = length ps + 1" using w *(10) by simp
    define rq where "rq = (requests a)\<lparr>fifo := (fifo (requests a))[nat (tail (requests a)) := - 1],
      tail := mod_pw2 L (tail (requests a) + 1) (max_capacity (requests a)),
      nelements := nelements (requests a) - 1\<rparr>"
    let ?t = "(t + 1) mod c"
    have rep: "replicate (c - length ps) x = x # replicate (c - n) x" for x :: int
      using n *(6) by (simp flip: replicate_Suc)
    have ne: "fifo rq \<noteq> []" using *(4,5) by (auto simp: rq_def)
    have "tail rq = int ?t"
      using ring_succ(1) [OF laws *(8), of t] *(1,2,5) by (simp add: rq_def)
    moreover have "rotate t (fifo rq) = - 1 # ps @ replicate (c - n) (- 1)"
      using rotate_update [of 0 "fifo (requests a)" t "- 1"] *(1,4,5,9) w by (simp add: rq_def)
    then have "rotate ?t (fifo rq) = ps @ replicate (c - length ps) (- 1)"
      using rotate_mod_Suc [OF ne, of t] *(4) rep by (simp add: rq_def replicate_append_same)
    moreover have "int ((t + n) mod c) = int ((?t + length ps) mod c)"
      using n by (simp add: mod_simps)
    ultimately have rq: "fifo_inv rq" "waiting_ports rq = ps"
      using fifo_invI [of rq k ?t ps "length ps"] *(2,3,4,5,6,7,8) n by (simp_all add: rq_def)
    have "do_request_complete L p a = Some (0, (set_port p port_set_notrequested a)\<lparr>requests := rq\<rparr>)"
      using laws p w fifo_front [OF requests_invD(1) [OF inv]]
      by (simp add: do_request_complete_def valid_port_def rq_def set_port_requests_update Let_def)
    moreover have "requests_inv ((set_port p port_set_notrequested a)\<lparr>requests := rq\<rparr>)"
      by (rule requests_invI [OF inv p rq]) (use requests_invD(3) [OF inv] w in auto)
    ultimately show thesis using that rq by (simp add: rq_def)
  qed
qed

lemma do_request_complete_other:
  assumes "klib_laws L" and inv: "requests_inv a" and "valid_port a p"
    and "\<forall>ps. waiting_ports (requests a) \<noteq> p # ps"
  shows "do_request_complete L p a = Some (- EINVAL, a)"
  using assms fifo_front [OF requests_invD(1) [OF inv]]
  by (auto simp: do_request_complete_def valid_port_def Let_def split: list.splits)

lemma do_request_verify_front:
  assumes "klib_laws L" and inv: "requests_inv a" and "valid_port a p"
  shows "do_request_verify L p a = Some (\<exists>ps. waiting_ports (requests a) = p # ps)"
  using assms fifo_front [OF requests_invD(1) [OF inv]] fifo_inv_nelements [OF requests_invD(1) [OF inv]]
  by (auto simp: do_request_verify_def valid_port_def Let_def split: list.splits)

text \<open>Clearing removes the port from the ring, unless the ring is full: then \<open>head\<close>
  and \<open>tail\<close> are equal, the loop ends at once and nothing is cleared.\<close>

lemma do_request_clear_room:
  assumes laws: "klib_laws L" and inv: "requests_inv a" and p: "valid_port a p"
    and room: "length (waiting_ports (requests a)) < nat (max_capacity (requests a))"
    and w: "p \<in> set (waiting_ports (requests a))"
  obtains rq where "do_request_clear L p a = Some (0, (set_port p port_set_notrequested a)\<lparr>requests := rq\<rparr>)"
    "requests_inv ((set_port p port_set_notrequested a)\<lparr>requests := rq\<rparr>)"
    "waiting_ports rq = remove1 p (waiting_ports (requests a))"
    "max_capacity rq = max_capacity (requests a)"
proof (rule fifo_invE [OF requests_invD(1) [OF inv]])
  fix t c n k
  let ?w = "waiting_ports (requests a)" and ?q = "fifo (requests a)"
  assume *: "tail (requests a) = int t" "max_capacity (requests a) = int c"
    "nelements (requests a) = int n" "length (fifo (requests a)) = c" "t < c" "n \<le> c"
    "head (requests a) = int ((t + n) mod c)" "c = 2 ^ k"
    "rotate t ?q = ?w @ replicate (c - n) (- 1)" "length ?w = n"
  obtain n' where n: "n = n' + 1" using w *(10) by (cases n) auto
  have room: "n < c" using room *(2,10) by simp
  obtain q where q: "do_request_clear_loop L (int c) (int ((t + n) mod c)) p (int t) (int ((t + 1) mod c))
      False ?q = Some (True, q)" "length q = c"
      "rotate t q = remove1 p ?w @ [- 1] @ replicate (c - n) (- 1)"
    using do_request_clear_loop_spec [OF laws *(8,4), of t "[]" ?w "replicate (c - n) (- 1)" p]
      *(5,9,10) w room by auto
  define rq where "rq = (requests a)\<lparr>fifo := q,
    head := mod_pw2 L (head (requests a) - 1) (max_capacity (requests a)),
    nelements := nelements (requests a) - 1\<rparr>"
  have "head rq = int ((t + n') mod c)"
    using ring_succ(2) [OF laws *(8), of "t + n'"] *(2,7) n by (simp add: rq_def)
  moreover have "rotate t (fifo rq) = remove1 p ?w @ replicate (c - n') (- 1)"
    using q(3) n room by (simp add: rq_def flip: replicate_Suc)
  ultimately have rq: "fifo_inv rq" "waiting_ports rq = remove1 p ?w"
    using fifo_invI [of rq k t "remove1 p ?w" n'] *(1,2,3,5,6,8,10) n q(2) w
    by (simp_all add: rq_def length_remove1)
  have "do_request_clear L p a = Some (0, (set_port p port_set_notrequested a)\<lparr>requests := rq\<rparr>)"
    using laws p q(1) *(1,2,3,5,7) n ring_succ(1) [OF laws *(8), of t]
    by (simp add: do_request_clear_def valid_port_def rq_def set_port_requests_update Let_def)
  moreover have "requests_inv ((set_port p port_set_notrequested a)\<lparr>requests := rq\<rparr>)"
    by (rule requests_invI [OF inv p rq]) (use requests_invD(3) [OF inv] in \<open>auto dest: notin_set_remove1\<close>)
  ultimately show thesis using that rq by (simp add: rq_def)
qed

lemma rotate_eqD: "rotate t xs = rotate t ys \<Longrightarrow> xs = ys"
proof (induction t arbitrary: xs ys)
  case (Suc t)
  have inj: "rotate1 us = rotate1 vs \<Longrightarrow> us = vs" for us vs :: "'a list"
    by (cases us; cases vs) auto
  show ?case by (rule Suc.IH, rule inj) (use Suc.prems in simp)
qed simp

lemma do_request_clear_none:
  assumes laws: "klib_laws L" and inv: "requests_inv a" and p: "valid_port a p"
    and none: "p \<notin> set (waiting_ports (requests a))
      \<or> \<not> length (waiting_ports (requests a)) < nat (max_capacity (requests a))"
  shows "do_request_clear L p a = Some (0, a)"
proof (rule fifo_invE [OF requests_invD(1) [OF inv]])
  fix t c n k
  let ?w = "waiting_ports (requests a)" and ?q = "fifo (requests a)"
  assume *: "tail (requests a) = int t" "max_capacity (requests a) = int c"
    "nelements (requests a) = int n" "length (fifo (requests a)) = c" "t < c" "n \<le> c"
    "head (requests a) = int ((t + n) mod c)" "c = 2 ^ k"
    "rotate t ?q = ?w @ replicate (c - n) (- 1)" "length ?w = n"
  have "do_request_clear_loop L (int c) (int ((t + n) mod c)) p (int t) (int ((t + 1) mod c))
      False ?q = Some (False, ?q)"
  proof (cases "n < c")
    case True
    then have np: "p \<notin> set ?w" using none *(2,10) by simp
    obtain q where q: "do_request_clear_loop L (int c) (int ((t + n) mod c)) p (int t)
        (int ((t + 1) mod c)) False ?q = Some (False, q)" "rotate t q = rotate t ?q"
      using do_request_clear_loop_spec [OF laws *(8,4), of t "[]" ?w "replicate (c - n) (- 1)" p]
        *(5,9,10) np True by auto
    then show ?thesis using rotate_eqD by metis
  next
    case False
    then have "(t + n) mod c = t" using *(5,6) by simp
    then show ?thesis by (simp add: do_request_clear_loop_end)
  qed
  then show ?thesis
    using laws p *(1,2,3,5,7) ring_succ(1) [OF laws *(8), of t]
    by (simp add: do_request_clear_def valid_port_def Let_def)
qed

interpretation turns: turn_queue "\<lambda>a. klib_laws L \<and> requests_inv a" "\<lambda>a. waiting_ports (requests a)"
  "\<lambda>a. nat (max_capacity (requests a))" valid_port
  "do_request_operation L" "do_request_complete L" "do_request_verify L" for L :: "'r klib"
proof unfold_locales
  fix s :: "'r active" and p
  assume s: "klib_laws L \<and> requests_inv s" and p: "valid_port s p"
    and room: "length (waiting_ports (requests s)) < nat (max_capacity (requests s))"
  obtain rq where "do_request_operation L p s = Some (0, (set_port p port_set_requested s)\<lparr>requests := rq\<rparr>)"
      "requests_inv ((set_port p port_set_requested s)\<lparr>requests := rq\<rparr>)"
      "waiting_ports rq = waiting_ports (requests s) @ [p]" "max_capacity rq = max_capacity (requests s)"
    using do_request_operation_room [OF _ _ p room] s by blast
  then show "\<exists>s'. do_request_operation L p s = Some (0, s') \<and> (klib_laws L \<and> requests_inv s')
      \<and> waiting_ports (requests s') = waiting_ports (requests s) @ [p]
      \<and> nat (max_capacity (requests s')) = nat (max_capacity (requests s)) \<and> valid_port s' = valid_port s"
    using s by simp
next
  fix s :: "'r active" and p ps
  assume s: "klib_laws L \<and> requests_inv s" and w: "waiting_ports (requests s) = p # ps"
  obtain rq where "do_request_complete L p s = Some (0, (set_port p port_set_notrequested s)\<lparr>requests := rq\<rparr>)"
      "requests_inv ((set_port p port_set_notrequested s)\<lparr>requests := rq\<rparr>)"
      "waiting_ports rq = ps" "max_capacity rq = max_capacity (requests s)"
    using do_request_complete_turn [OF _ _ w] s by blast
  then show "\<exists>s'. do_request_complete L p s = Some (0, s') \<and> (klib_laws L \<and> requests_inv s')
      \<and> waiting_ports (requests s') = ps
      \<and> nat (max_capacity (requests s')) = nat (max_capacity (requests s)) \<and> valid_port s' = valid_port s"
    using s by simp
qed (simp_all add: requests_invD do_request_operation_full do_request_complete_other do_request_verify_front)

section \<open>Properties\<close>

text \<open>An active with two ports and a ring of two slots, in which the second port waits.\<close>

definition sample_port :: "16 word \<Rightarrow> sample_resource port" where
  "sample_port fl = \<lparr>port_resource = (True, False, False, False), port_flags = fl,
    port_mbufferid = - 1, port_mbufferpool = None\<rparr>"

definition sample_active :: "requests_fifo \<Rightarrow> 16 word list \<Rightarrow> sample_resource active" where
  "sample_active rq fls =
    \<lparr>act_resource = (True, False, False, True), act_flags = 0, hwfd = 0, act_local = 0, act_remote = 1,
     refcount = int (length fls), act_size = 8,
     portpool = \<lparr>ports = map sample_port fls, nports = int (length fls), used_ports = int (length fls)\<rparr>,
     mbufferpool = sample_pool 0 4, mbufferpool_aux = sample_pool 2 2, requests = rq\<rparr>"

definition sample_requests :: requests_fifo where
  "sample_requests = \<lparr>head = 0, tail = 1, max_capacity = 2, nelements = 1, fifo = [- 1, 1]\<rparr>"

definition full_requests :: requests_fifo where
  "full_requests = \<lparr>head = 1, tail = 1, max_capacity = 2, nelements = 2, fifo = [0, 1]\<rparr>"

lemma sample_waiting [simp]: "waiting_ports sample_requests = [1]" "waiting_ports full_requests = [1, 0]"
  by (simp_all add: waiting_ports_def sample_requests_def full_requests_def)

lemma sample_fifo_inv: "fifo_inv sample_requests" "fifo_inv full_requests"
  by (auto simp: fifo_inv_def sample_requests_def full_requests_def intro: exI [of _ 1])

lemma sample_requests_inv:
  "requests_inv (sample_active sample_requests [0, 1])" "requests_inv (sample_active full_requests [1, 1])"
proof -
  have valid: "valid_port (sample_active rq [x, y]) p \<longleftrightarrow> p = 0 \<or> p = 1" for rq x y p
    by (auto simp: valid_port_def sample_active_def)
  show "requests_inv (sample_active sample_requests [0, 1])"
    "requests_inv (sample_active full_requests [1, 1])"
    unfolding requests_inv_def valid using sample_fifo_inv
    by (auto simp: sample_active_def port_of_def sample_port_def port_is_requested_def)
qed

text \<open>(C20) The ports of an active take turns: a request that finds room in the ring is
  accepted, the ports that waited before it can complete in the order of the ring,
  each exactly when its turn comes, and then it is the turn of the new request and
  no other port waits.\<close>

theorem requests_served_in_turn:
  assumes "klib_laws L" and "requests_inv active" and "valid_port active portid"
    and "length (waiting_ports (requests active)) < nat (max_capacity (requests active))"
  shows "\<exists>active' active''. do_request_operation L portid active = Some (0, active')
    \<and> complete_all (do_request_complete L) (waiting_ports (requests active)) active' = Some active''
    \<and> do_request_verify L portid active'' = Some True \<and> waiting_ports (requests active'') = [portid]"
  using turns.request_gets_turn [of L active portid] assms by simp

theorem requests_served_in_turn_witness:
  "\<exists>active' active''. do_request_operation sample_klib 0 (sample_active sample_requests [0, 1]) = Some (0, active')
    \<and> complete_all (do_request_complete sample_klib) [1] active' = Some active''
    \<and> do_request_verify sample_klib 0 active'' = Some True \<and> waiting_ports (requests active'') = [0]"
proof -
  have s: "requests (sample_active sample_requests [0, 1]) = sample_requests"
    "valid_port (sample_active sample_requests [0, 1]) 0" "max_capacity sample_requests = 2"
    by (simp_all add: sample_active_def valid_port_def sample_requests_def)
  show ?thesis
    using requests_served_in_turn [OF sample_klib_laws sample_requests_inv(1) s(2)] by (simp add: s)
qed

text \<open>At most one port has its turn, a port that has it keeps it whatever the others
  request, and a port that has not is refused by \<open>do_request_complete\<close>, which then
  changes nothing.\<close>

theorem request_turn_exclusive:
  assumes "klib_laws L" and "requests_inv active" and "valid_port active p" and "valid_port active q"
    and "do_request_verify L p active = Some True" and "p \<noteq> q"
  shows "do_request_verify L q active = Some False
    \<and> do_request_complete L q active = Some (- EINVAL, active)
    \<and> (\<exists>r active'. do_request_operation L q active = Some (r, active')
        \<and> do_request_verify L p active' = Some True)"
proof -
  obtain ps where w: "waiting_ports (requests active) = p # ps"
    using assms do_request_verify_front by fastforce
  have "do_request_verify L q active = Some False"
    using do_request_verify_front [OF assms(1,2,4)] w assms(6) by simp
  moreover have "do_request_complete L q active = Some (- EINVAL, active)"
    using turns.complete_out_of_order [of L active q p ps] assms w by simp
  moreover have "do_request_operation L q active \<noteq> None"
    using turns.request_room [of L active q] turns.request_full [of L active q] assms by fastforce
  ultimately show ?thesis
    using turns.request_keeps_turn [of L active q p] assms by fastforce
qed

theorem request_turn_exclusive_witness:
  "do_request_complete sample_klib 0 (sample_active sample_requests [0, 1]) =
    Some (- EINVAL, sample_active sample_requests [0, 1])"
proof -
  have s: "requests (sample_active sample_requests [0, 1]) = sample_requests"
    "valid_port (sample_active sample_requests [0, 1]) 0" "valid_port (sample_active sample_requests [0, 1]) 1"
    by (simp_all add: sample_active_def valid_port_def)
  have "do_request_verify sample_klib 1 (sample_active sample_requests [0, 1]) = Some True"
    using do_request_verify_front [OF sample_klib_laws sample_requests_inv(1) s(3)] s(1) by simp
  from request_turn_exclusive [OF sample_klib_laws sample_requests_inv(1) s(3,2) this] show ?thesis by simp
qed

text \<open>(C33) \<open>do_request_clear\<close> always returns zero and keeps the ring well formed.  When
  there is room in the ring it removes the first request of the port and leaves the
  others in their order.  When every slot is taken it changes nothing at all, so
  the request it is meant to clear stays in the ring and the port stays requested.\<close>

theorem do_request_clear_branches:
  assumes "klib_laws L" and "requests_inv active" and "valid_port active portid"
  defines "ps \<equiv> waiting_ports (requests active)"
  shows "\<exists>active'. do_request_clear L portid active = Some (0, active') \<and> requests_inv active'
    \<and> (if length ps < nat (max_capacity (requests active))
       then waiting_ports (requests active') = remove1 portid ps
         \<and> (portid \<in> set ps \<longrightarrow> \<not> port_is_requested (port_of active' portid))
       else active' = active)"
proof (cases "portid \<in> set ps \<and> length ps < nat (max_capacity (requests active))")
  case True
  then obtain rq where "do_request_clear L portid active =
        Some (0, (set_port portid port_set_notrequested active)\<lparr>requests := rq\<rparr>)"
      "requests_inv ((set_port portid port_set_notrequested active)\<lparr>requests := rq\<rparr>)"
      "waiting_ports rq = remove1 portid ps"
    using do_request_clear_room [OF assms(1-3)] by (metis ps_def)
  then show ?thesis using True port_of_set_port_valid [OF assms(2,3,3)] by simp
next
  case False
  then have "do_request_clear L portid active = Some (0, active)"
    using do_request_clear_none [OF assms(1-3)] by (auto simp: ps_def)
  then show ?thesis using False assms(2) by (auto simp: ps_def remove1_idem)
qed

theorem do_request_clear_branches_witness:
  "do_request_clear sample_klib 1 (sample_active full_requests [1, 1]) =
    Some (0, sample_active full_requests [1, 1])"
proof -
  have s: "requests (sample_active full_requests [1, 1]) = full_requests" "max_capacity full_requests = 2"
    "valid_port (sample_active full_requests [1, 1]) 1"
    by (simp_all add: sample_active_def valid_port_def full_requests_def)
  show ?thesis
    using do_request_clear_branches [OF sample_klib_laws sample_requests_inv(2) s(3)] by (simp add: s)
qed

end
