(* ===== verification/Active.thy ===== *)
theory Active
  imports Requests
begin

unbundle bit_operations_syntax

text \<open>
  The physical communication channels: \<^verbatim>\<open>src/kernel/noc/active.c\<close> (apart from the
  request ring, which is in \<open>Requests\<close>) and the rest of \<^verbatim>\<open>active.h\<close>.

  The hardware abstraction layer is not part of the sources.  Its state is the type
  \<open>'h\<close>; \<open>noc_hal\<close> holds the clock and the node numbers, and the functions that drive
  a mailbox or portal device are fields of \<open>active_functions\<close>, the table \<open>fn\<close> of the
  source.  \<open>do_aread\<close> gets the index of the message buffer the device may write;
  \<open>do_wait\<close> returns, besides its status, the message the device has written and
  where.  User memory is a map from addresses to bytes.
\<close>

section \<open>Structures\<close>

record 'h noc_hal =
  clock_read              :: "'h \<Rightarrow> 64 word \<times> 'h"
  node_is_local           :: "int \<Rightarrow> bool"
  processor_node_get_num  :: int
  PROCESSOR_NOC_NODES_NUM :: int

record ('r, 'h) active_functions =
  do_create        :: "int \<Rightarrow> 'h \<Rightarrow> int \<times> 'h"
  do_open          :: "int \<Rightarrow> int \<Rightarrow> 'h \<Rightarrow> int \<times> 'h"
  do_allow         :: "'r active \<Rightarrow> int \<Rightarrow> 'h \<Rightarrow> int \<times> 'h"
  do_aread         :: "int \<Rightarrow> nat \<Rightarrow> nat \<Rightarrow> 'h \<Rightarrow> int \<times> 'h"
  do_awrite        :: "int \<Rightarrow> mbuffer_message \<Rightarrow> nat \<Rightarrow> 'h \<Rightarrow> int \<times> 'h"
  do_wait          :: "int \<Rightarrow> 'h \<Rightarrow> int \<times> (nat \<times> mbuffer_message) option \<times> 'h"
  do_header_config :: "'r mbuffer \<Rightarrow> active_config \<Rightarrow> 'r mbuffer"
  do_header_check  :: "'r mbuffer \<Rightarrow> active_config \<Rightarrow> bool"
  get_actid        :: "int \<Rightarrow> int"
  get_portid       :: "int \<Rightarrow> int"

record ('r, 'h) noc =
  actives     :: "'r active list"
  mbufs       :: "'r mbuffer_mem"
  clock_error :: "64 word"
  umem        :: "nat \<Rightarrow> byte"
  hw          :: 'h

type_synonym ('r, 'h) noc_result = "(int \<times> pstats \<times> ('r, 'h) noc) option"

abbreviation (input) ACTIVE_TYPE_INPUT :: int where "ACTIVE_TYPE_INPUT \<equiv> 0"
abbreviation (input) ACTIVE_TYPE_OUTPUT :: int where "ACTIVE_TYPE_OUTPUT \<equiv> 1"
abbreviation (input) ACTIVE_COMM_SUCCESS :: int where "ACTIVE_COMM_SUCCESS \<equiv> 0"
abbreviation (input) ACTIVE_COMM_AGAIN :: int where "ACTIVE_COMM_AGAIN \<equiv> 1"
abbreviation (input) ACTIVE_COMM_RECEIVED :: int where "ACTIVE_COMM_RECEIVED \<equiv> 2"
abbreviation (input) ACTIVE_ANY_SRC :: int where "ACTIVE_ANY_SRC \<equiv> - 1"

definition ACTIVE_FLAGS_ALLOWED :: "32 word" where
  "ACTIVE_FLAGS_ALLOWED = push_bit 0 1"

definition ACTIVE_LADDRESS_COMPOSE :: "int \<Rightarrow> int \<Rightarrow> int \<Rightarrow> int" where
  "ACTIVE_LADDRESS_COMPOSE fd port n = fd * (n + 1) + port"

definition active_set_allowed :: "'r active \<Rightarrow> 'r active" where
  "active_set_allowed active = active\<lparr>act_flags := act_flags active OR ACTIVE_FLAGS_ALLOWED\<rparr>"

definition active_set_notallowed :: "'r active \<Rightarrow> 'r active" where
  "active_set_notallowed active = active\<lparr>act_flags := act_flags active AND NOT ACTIVE_FLAGS_ALLOWED\<rparr>"

definition active_is_allowed :: "'r active \<Rightarrow> bool" where
  "active_is_allowed active \<longleftrightarrow> act_flags active AND ACTIVE_FLAGS_ALLOWED \<noteq> 0"

text \<open>\<open>ACTIVE_GET_NR_PORTS\<close> and \<open>ACTIVE_COMPUTE_LATENCY\<close>.\<close>

definition ACTIVE_GET_NR_PORTS :: "'r active \<Rightarrow> int" where
  "ACTIVE_GET_NR_PORTS active = nports (portpool active)"

definition ACTIVE_COMPUTE_LATENCY :: "('r, 'h) noc \<Rightarrow> 64 word \<Rightarrow> 64 word \<Rightarrow> 64 word" where
  "ACTIVE_COMPUTE_LATENCY s t1 t2 = (t2 - t1) - clock_error s"

text \<open>Updates through the pointers to an active and to a buffer; reading and writing
  user memory.\<close>

definition set_active :: "int \<Rightarrow> ('r active \<Rightarrow> 'r active) \<Rightarrow> ('r, 'h) noc \<Rightarrow> ('r, 'h) noc" where
  "set_active i f s = s\<lparr>actives := (actives s)[nat i := f (actives s ! nat i)]\<rparr>"

definition set_mbuf :: "nat \<Rightarrow> ('r mbuffer \<Rightarrow> 'r mbuffer) \<Rightarrow> ('r, 'h) noc \<Rightarrow> ('r, 'h) noc" where
  "set_mbuf k f s =
    s\<lparr>mbufs := (mbufs s)\<lparr>mb_table := (mb_table (mbufs s))[k := f (mb_table (mbufs s) ! k)]\<rparr>\<rparr>"

definition load_bytes :: "(nat \<Rightarrow> byte) \<Rightarrow> nat \<Rightarrow> nat \<Rightarrow> byte list" where
  "load_bytes m a n = map m [a..<a + n]"

definition store_bytes :: "(nat \<Rightarrow> byte) \<Rightarrow> nat \<Rightarrow> byte list \<Rightarrow> (nat \<Rightarrow> byte)" where
  "store_bytes m a bs = (\<lambda>i. if a \<le> i \<and> i < a + length bs then bs ! (i - a) else m i)"

definition copy_to_user :: "'r klib \<Rightarrow> nat \<Rightarrow> byte list \<Rightarrow> nat \<Rightarrow> ('r, 'h) noc \<Rightarrow> ('r, 'h) noc" where
  "copy_to_user L a bs n s = s\<lparr>umem := store_bytes (umem s) a (kmemcpy L (load_bytes (umem s) a n) bs n)\<rparr>"

definition read_clock :: "'h noc_hal \<Rightarrow> ('r, 'h) noc \<Rightarrow> 64 word \<times> ('r, 'h) noc" where
  "read_clock H s = (let (t, h) = clock_read H (hw s) in (t, s\<lparr>hw := h\<rparr>))"

section \<open>Allocation and release of ports\<close>

definition active_valid_call :: "'r klib \<Rightarrow> ('r, 'h) active_functions \<Rightarrow> int \<Rightarrow> ('r, 'h) noc \<Rightarrow> bool" where
  "active_valid_call L F fd s \<longleftrightarrow>
    WITHIN L (get_actid F fd) 0 (int (length (actives s)))
    \<and> WITHIN L (get_portid F fd) 0 (ACTIVE_GET_NR_PORTS (actives s ! nat (get_actid F fd)))"

definition active_search :: "'r klib \<Rightarrow> int \<Rightarrow> int \<Rightarrow> int \<Rightarrow> ('r, 'h) noc \<Rightarrow> int" where
  "active_search L lcl rmt ctype s =
    (case first_index (\<lambda>active. resource_is_used L (act_resource active)
           \<and> \<not> (ctype = ACTIVE_TYPE_INPUT \<and> \<not> resource_is_readable L (act_resource active))
           \<and> \<not> (ctype = ACTIVE_TYPE_OUTPUT \<and> \<not> resource_is_writable L (act_resource active))
           \<and> \<not> (act_local active \<noteq> lcl \<or> act_remote active \<noteq> rmt)) (actives s) of
       None \<Rightarrow> - EBUSY
     | Some i \<Rightarrow> int i)"

definition active_alloc ::
  "'r klib \<Rightarrow> int \<Rightarrow> int \<Rightarrow> int \<Rightarrow> int \<Rightarrow> ('r, 'h) noc \<Rightarrow> int \<times> ('r, 'h) noc" where
  "active_alloc L lcl rmt portid ctype s =
    (let actid = active_search L lcl rmt ctype s
     in if actid < 0 then (actid, s)
        else
          let active = actives s ! nat actid;
              portid = (if ctype = ACTIVE_TYPE_OUTPUT then portpool_choose_port L (portpool active) else portid)
          in if ctype = ACTIVE_TYPE_OUTPUT \<and> portid < 0 then (portid, s)
             else if ctype \<noteq> ACTIVE_TYPE_OUTPUT \<and> \<not> WITHIN L portid 0 (ACTIVE_GET_NR_PORTS active)
             then (- EINVAL, s)
             else if \<not> resource_is_used L (port_resource (port_of active portid))
             then
               let active = set_port portid (\<lambda>port. port\<lparr>port_flags := 0,
                     port_resource := resource_set_used L (port_resource port)\<rparr>) active;
                   active = active\<lparr>refcount := refcount active + 1,
                     portpool := (portpool active)\<lparr>used_ports := used_ports (portpool active) + 1\<rparr>\<rparr>
               in (ACTIVE_LADDRESS_COMPOSE actid portid (ACTIVE_GET_NR_PORTS active),
                   set_active actid (\<lambda>_. active) s)
             else (- EBUSY, s))"

definition active_release ::
  "'r klib \<Rightarrow> ('r, 'h) active_functions \<Rightarrow> int \<Rightarrow> ('r, 'h) noc \<Rightarrow> (int \<times> ('r, 'h) noc) option" where
  "active_release L F fd s =
    do {
      KASSERT (active_valid_call L F fd s);
      let actid = get_actid F fd;
      let portid = get_portid F fd;
      let active = actives s ! nat actid;
      let dest = ACTIVE_LADDRESS_COMPOSE (act_local active) portid (ACTIVE_GET_NR_PORTS active);
      if \<not> resource_is_used L (act_resource active) then Some (- EBADF, s)
      else if resource_is_readable L (act_resource active)
        \<and> mbuffer_search L (mbufferpool active) dest ACTIVE_ANY_SRC (mbufs s) \<ge> 0
      then Some (- EBUSY, s)
      else if resource_is_used L (port_resource (port_of active portid))
      then
        let active = set_port portid (\<lambda>port. port\<lparr>port_resource :=
              resource_set_unused L (port_resource port)\<rparr>) active;
            active = active\<lparr>refcount := refcount active - 1,
              portpool := (portpool active)\<lparr>used_ports := used_ports (portpool active) - 1\<rparr>\<rparr>
        in Some (0, set_active actid (\<lambda>_. active) s)
      else Some (- EINVAL, s)
    }"

section \<open>Reading\<close>

text \<open>Lines 558--581 of \<open>active_aread\<close>: a stored message is copied to the user's buffer, the
  local sender it came from is released, and the buffer is freed.\<close>

definition release_sender :: "'r klib \<Rightarrow> 'r mbuffer \<Rightarrow> ('r, 'h) noc \<Rightarrow> ('r, 'h) noc option" where
  "release_sender L buf s =
    (if mb_actid buf \<ge> 0 \<and> mb_portid buf \<ge> 0
     then do {
       active \<leftarrow> fetch (actives s) (mb_actid buf);
       (ret, active) \<leftarrow> do_request_clear L (mb_portid buf) active;
       KASSERT (ret = 0);
       Some (set_active (mb_actid buf) (\<lambda>_. active) s)
     }
     else Some s)"

definition aread_stored ::
  "'r klib \<Rightarrow> 'h noc_hal \<Rightarrow> 'r mbuffer_pool \<Rightarrow> int \<Rightarrow> active_config \<Rightarrow> pstats
    \<Rightarrow> ('r, 'h) noc \<Rightarrow> ('r, 'h) noc_result" where
  "aread_stored L H bufferpool mbufferid config stats s =
    do {
      k \<leftarrow> mbuffer_get L bufferpool mbufferid;
      let buf = mb_table (mbufs s) ! k;
      let (t1, s) = read_clock H s;
      let s = copy_to_user L (cfg_buffer config) (data (mb_message buf)) (cfg_size config) s;
      let (t2, s) = read_clock H s;
      let stats = stats\<lparr>ps_latency := ps_latency stats + (mb_latency buf + ACTIVE_COMPUTE_LATENCY s t1 t2),
                       ps_volume := ps_volume stats + cfg_size config\<rparr>;
      s \<leftarrow> release_sender L buf s;
      (ret, m) \<leftarrow> mbuffer_release L bufferpool mbufferid MBUFFER_DISCARD_MESSAGE (mbufs s);
      KASSERT (ret = 0);
      Some (ACTIVE_COMM_RECEIVED, stats, s\<lparr>mbufs := m\<rparr>)
    }"

text \<open>Lines 600--643: the device is given a buffer to receive into.\<close>

definition aread_setup ::
  "'r klib \<Rightarrow> 'h noc_hal \<Rightarrow> ('r, 'h) active_functions \<Rightarrow> int \<Rightarrow> int \<Rightarrow> int \<Rightarrow> pstats
    \<Rightarrow> ('r, 'h) noc \<Rightarrow> ('r, 'h) noc_result" where
  "aread_setup L H F actid portid rmt stats s =
    do {
      let s = set_active actid (\<lambda>active. (active_set_allowed active)\<lparr>act_remote := rmt\<rparr>) s;
      let active = actives s ! nat actid;
      let (mbufferid, m) = mbuffer_alloc L (mbufferpool active) (mbufs s);
      if mbufferid < 0 then Some (mbufferid, stats, s)
      else do {
        let s = set_active actid (set_port portid (\<lambda>port. port\<lparr>port_mbufferid := mbufferid,
          port_mbufferpool := Some (mbufferpool active)\<rparr>)) (s\<lparr>mbufs := m\<rparr>);
        k \<leftarrow> mbuffer_get L (mbufferpool active) mbufferid;
        let (t1, s) = read_clock H s;
        let (ret, h) = do_aread F (hwfd active) k (act_size active) (hw s);
        let s = s\<lparr>hw := h\<rparr>;
        if ret < 0
        then do {
          (r, m) \<leftarrow> mbuffer_release L (mbufferpool active) mbufferid MBUFFER_DISCARD_MESSAGE (mbufs s);
          KASSERT (r = 0);
          let s = set_active actid (set_port portid (\<lambda>port. port\<lparr>port_mbufferid := - 1,
            port_mbufferpool := None\<rparr>)) (s\<lparr>mbufs := m\<rparr>);
          Some (ret, stats, s)
        }
        else do {
          let (t2, s) = read_clock H s;
          let s = set_active actid (\<lambda>active. active_set_notallowed (active\<lparr>act_remote := - 1\<rparr>)) s;
          let s = set_mbuf k (\<lambda>buf. buf\<lparr>mb_latency := ACTIVE_COMPUTE_LATENCY s t1 t2\<rparr>) s;
          let s = set_active actid (\<lambda>active. active\<lparr>act_resource :=
            resource_set_busy L (act_resource active)\<rparr>) s;
          Some (ACTIVE_COMM_SUCCESS, stats, s)
        }
      }
    }"

definition active_aread ::
  "'r klib \<Rightarrow> 'h noc_hal \<Rightarrow> ('r, 'h) active_functions \<Rightarrow> int \<Rightarrow> active_config \<Rightarrow> pstats
    \<Rightarrow> ('r, 'h) noc \<Rightarrow> ('r, 'h) noc_result" where
  "active_aread L H F fd config stats s =
    do {
      KASSERT (active_valid_call L F fd s);
      let actid = get_actid F fd;
      let portid = get_portid F fd;
      let active = actives s ! nat actid;
      let rmt = get_actid F (cfg_remote_addr config);
      let comm_is_local = node_is_local H rmt;
      let bufferpool = (if comm_is_local then mbufferpool_aux active else mbufferpool active);
      let mbufferid = mbuffer_search L bufferpool (cfg_local_addr config) (cfg_remote_addr config) (mbufs s);
      if \<not> resource_is_used L (port_resource (port_of active portid)) then Some (- EBADF, stats, s)
      else if mbufferid \<ge> 0 then aread_stored L H bufferpool mbufferid config stats s
      else if comm_is_local then Some (- ENOMSG, stats, s)
      else if resource_is_busy L (act_resource active) then Some (- EBUSY, stats, s)
      else
        let (ret, h) = do_allow F active rmt (hw s);
            s = s\<lparr>hw := h\<rparr>
        in if ret < 0 then Some (ret, stats, s)
           else aread_setup L H F actid portid rmt stats s
    }"

section \<open>Writing\<close>

text \<open>Lines 728--734 of \<open>active_awrite\<close>: the message is written into a buffer.\<close>

definition awrite_fill ::
  "'r klib \<Rightarrow> 'h noc_hal \<Rightarrow> ('r, 'h) active_functions \<Rightarrow> nat \<Rightarrow> active_config
    \<Rightarrow> ('r, 'h) noc \<Rightarrow> ('r, 'h) noc" where
  "awrite_fill L H F k config s =
    (let s = set_mbuf k (\<lambda>buf. do_header_config F buf config) s;
         (t1, s) = read_clock H s;
         bytes = load_bytes (umem s) (cfg_buffer config) (cfg_size config);
         s = set_mbuf k (\<lambda>buf. buf\<lparr>mb_message := (mb_message buf)
               \<lparr>data := kmemcpy L (data (mb_message buf)) bytes (cfg_size config)\<rparr>\<rparr>) s;
         (t2, s) = read_clock H s
     in set_mbuf k (\<lambda>buf. buf\<lparr>mb_latency := ACTIVE_COMPUTE_LATENCY s t1 t2\<rparr>) s)"

text \<open>Lines 726--751 when the destination is the local node: the message is written into
  the buffer just allocated and stored in the table of buffers.\<close>

definition forward_store ::
  "'r klib \<Rightarrow> 'h noc_hal \<Rightarrow> ('r, 'h) active_functions \<Rightarrow> int \<Rightarrow> int \<Rightarrow> 'r mbuffer_pool \<Rightarrow> int
    \<Rightarrow> active_config \<Rightarrow> pstats \<Rightarrow> ('r, 'h) noc \<Rightarrow> ('r, 'h) noc_result" where
  "forward_store L H F actid portid bufferpool mbufferid config stats s =
    do {
      k \<leftarrow> mbuffer_get L bufferpool mbufferid;
      let s = awrite_fill L H F k config s;
      let s = set_mbuf k (\<lambda>buf. buf\<lparr>mb_actid := actid, mb_portid := portid\<rparr>) s;
      (r, m) \<leftarrow> mbuffer_release L bufferpool mbufferid MBUFFER_KEEP_MESSAGE (mbufs s);
      let s = s\<lparr>mbufs := m\<rparr>;
      let stats = stats\<lparr>ps_latency := ps_latency stats + mb_latency (mb_table (mbufs s) ! k),
                       ps_volume := ps_volume stats + cfg_size config\<rparr>;
      Some (ACTIVE_COMM_RECEIVED, stats, s)
    }"

text \<open>Lines 700--751: a local write requests the channel and forwards the message.\<close>

definition awrite_forward ::
  "'r klib \<Rightarrow> 'h noc_hal \<Rightarrow> ('r, 'h) active_functions \<Rightarrow> int \<Rightarrow> int \<Rightarrow> active_config \<Rightarrow> pstats
    \<Rightarrow> ('r, 'h) noc \<Rightarrow> ('r, 'h) noc_result" where
  "awrite_forward L H F actid portid config stats s =
    do {
      let active = actives s ! nat actid;
      if port_is_requested (port_of active portid) then Some (- EBUSY, stats, s)
      else do {
        (ret, active') \<leftarrow> do_request_operation L portid active;
        let s = set_active actid (\<lambda>_. active') s;
        if ret < 0 then Some (- EBUSY, stats, s)
        else do {
          let bufferpool = mbufferpool_aux active;
          let (mbufferid, m) = mbuffer_alloc L bufferpool (mbufs s);
          let s = s\<lparr>mbufs := m\<rparr>;
          if mbufferid < 0 then Some (mbufferid, stats, s)
          else forward_store L H F actid portid bufferpool mbufferid config stats s
        }
      }
    }"

text \<open>Lines 762--794: the port requests the channel and, when it is its turn and the
  device is free, starts the transfer.\<close>

definition awrite_send ::
  "'r klib \<Rightarrow> 'h noc_hal \<Rightarrow> ('r, 'h) active_functions \<Rightarrow> int \<Rightarrow> int \<Rightarrow> nat \<Rightarrow> pstats
    \<Rightarrow> ('r, 'h) noc \<Rightarrow> ('r, 'h) noc_result" where
  "awrite_send L H F actid portid k stats s =
    do {
      let active = actives s ! nat actid;
      (ret, active) \<leftarrow>
        (if \<not> port_is_requested (port_of active portid) then do_request_operation L portid active
         else Some (0, active));
      let s = set_active actid (\<lambda>_. active) s;
      if ret < 0 then Some (- EBUSY, stats, s)
      else do {
        turn \<leftarrow> do_request_verify L portid active;
        if \<not> turn then Some (- EBUSY, stats, s)
        else if resource_is_busy L (act_resource active) then Some (- EBUSY, stats, s)
        else
          let (t1, s) = read_clock H s;
              (ret, h) = do_awrite F (hwfd active) (mb_message (mb_table (mbufs s) ! k)) (act_size active) (hw s);
              s = s\<lparr>hw := h\<rparr>
          in if ret < 0 then Some (ret, stats, s)
             else
               let (t2, s) = read_clock H s;
                   s = set_mbuf k (\<lambda>buf. buf\<lparr>mb_latency := ACTIVE_COMPUTE_LATENCY s t1 t2\<rparr>) s;
                   s = set_active actid (\<lambda>active. active\<lparr>act_resource :=
                         resource_set_busy L (act_resource active)\<rparr>) s
               in Some (ACTIVE_COMM_SUCCESS, stats, s)
      }
    }"

definition active_awrite ::
  "'r klib \<Rightarrow> 'h noc_hal \<Rightarrow> ('r, 'h) active_functions \<Rightarrow> int \<Rightarrow> active_config \<Rightarrow> pstats
    \<Rightarrow> ('r, 'h) noc \<Rightarrow> ('r, 'h) noc_result" where
  "active_awrite L H F fd config stats s =
    do {
      KASSERT (active_valid_call L F fd s);
      let actid = get_actid F fd;
      let portid = get_portid F fd;
      let active = actives s ! nat actid;
      let port = port_of active portid;
      let forward = node_is_local H (act_remote active);
      if \<not> resource_is_used L (port_resource port) then Some (- EINVAL, stats, s)
      else if port_mbufferid port < 0
      then if forward then awrite_forward L H F actid portid config stats s
        else do {
          let bufferpool = mbufferpool active;
          let (mbufferid, m) = mbuffer_alloc L bufferpool (mbufs s);
          let s = s\<lparr>mbufs := m\<rparr>;
          if mbufferid < 0 then Some (mbufferid, stats, s)
          else do {
            k \<leftarrow> mbuffer_get L bufferpool mbufferid;
            let s = awrite_fill L H F k config s;
            let s = set_active actid (set_port portid (\<lambda>port. port\<lparr>port_mbufferid := mbufferid,
              port_mbufferpool := Some bufferpool\<rparr>)) s;
            awrite_send L H F actid portid k stats s
          }
        }
      else do {
        bufferpool \<leftarrow> port_mbufferpool port;
        k \<leftarrow> mbuffer_get L bufferpool (port_mbufferid port);
        awrite_send L H F actid portid k stats s
      }
    }"

section \<open>Waiting\<close>

text \<open>The lock of the active is released while the device works, so \<open>active_wait\<close> is made
  of the part before (lines 841--857, an error or the buffer in use), the wait, and
  the part after (lines 868--924).\<close>

definition wait_begin ::
  "'r klib \<Rightarrow> ('r, 'h) active_functions \<Rightarrow> int \<Rightarrow> ('r, 'h) noc \<Rightarrow> (int + int) option" where
  "wait_begin L F fd s =
    do {
      let active = actives s ! nat (get_actid F fd);
      let port = port_of active (get_portid F fd);
      if \<not> resource_is_used L (port_resource port) then Some (Inl (- EBADF))
      else if \<not> resource_is_busy L (act_resource active) then Some (Inl (- EBADF))
      else if port_mbufferid port < 0 then Some (Inl (- EBADF))
      else if resource_is_writable L (act_resource active)
      then do {
        turn \<leftarrow> do_request_verify L (get_portid F fd) active;
        Some (if \<not> turn then Inl (- EBADF) else Inr (port_mbufferid port))
      }
      else Some (Inr (port_mbufferid port))
    }"

text \<open>The device writes the message it received into the buffer it was given.\<close>

definition deliver :: "(nat \<times> mbuffer_message) option \<Rightarrow> ('r, 'h) noc \<Rightarrow> ('r, 'h) noc" where
  "deliver d s = (case d of None \<Rightarrow> s | Some (k, msg) \<Rightarrow> set_mbuf k (\<lambda>buf. buf\<lparr>mb_message := msg\<rparr>) s)"

text \<open>Lines 881--909: a message for this port is consumed, another one is kept when the
  port it is addressed to is in use; a finished write leaves the ring.\<close>

definition wait_finish ::
  "'r klib \<Rightarrow> 'h noc_hal \<Rightarrow> ('r, 'h) active_functions \<Rightarrow> int \<Rightarrow> nat \<Rightarrow> active_config
    \<Rightarrow> ('r, 'h) noc \<Rightarrow> (int \<times> keep_rule \<times> ('r, 'h) noc) option" where
  "wait_finish L H F fd k config s =
    (let actid = get_actid F fd; active = actives s ! nat actid; buf = mb_table (mbufs s) ! k
     in if resource_is_readable L (act_resource active)
        then if do_header_check F buf config
          then
            let (t1, s) = read_clock H s;
                s = copy_to_user L (cfg_buffer config) (data (mb_message buf)) (cfg_size config) s;
                (t2, s) = read_clock H s;
                s = set_mbuf k (\<lambda>buf. buf\<lparr>mb_latency := mb_latency buf + ACTIVE_COMPUTE_LATENCY s t1 t2\<rparr>) s
            in Some (ACTIVE_COMM_SUCCESS, MBUFFER_DISCARD_MESSAGE, s)
          else do {
            port \<leftarrow> fetch (ports (portpool active)) (get_portid F (hdr_dest (header (mb_message buf))));
            Some (ACTIVE_COMM_AGAIN,
              if resource_is_used L (port_resource port) then MBUFFER_KEEP_MESSAGE
              else MBUFFER_DISCARD_MESSAGE, s)
          }
        else if resource_is_writable L (act_resource active)
        then do {
          (r, active) \<leftarrow> do_request_complete L (get_portid F fd) active;
          KASSERT (r = 0);
          Some (ACTIVE_COMM_SUCCESS, MBUFFER_DISCARD_MESSAGE, set_active actid (\<lambda>_. active) s)
        }
        else Some (ACTIVE_COMM_SUCCESS, MBUFFER_DISCARD_MESSAGE, s))"

definition wait_end ::
  "'r klib \<Rightarrow> 'h noc_hal \<Rightarrow> ('r, 'h) active_functions \<Rightarrow> int \<Rightarrow> int \<Rightarrow> int \<Rightarrow> 64 word \<Rightarrow> 64 word
    \<Rightarrow> active_config \<Rightarrow> pstats \<Rightarrow> ('r, 'h) noc \<Rightarrow> ('r, 'h) noc_result" where
  "wait_end L H F fd mbufferid ret t1 t2 config stats s =
    do {
      let actid = get_actid F fd;
      let portid = get_portid F fd;
      bufferpool \<leftarrow> port_mbufferpool (port_of (actives s ! nat actid) portid);
      (ret, keep, stats, s) \<leftarrow>
        (if ret = 0
         then do {
           k \<leftarrow> mbuffer_get L bufferpool mbufferid;
           let s = set_mbuf k (\<lambda>buf. buf\<lparr>mb_latency := mb_latency buf + ACTIVE_COMPUTE_LATENCY s t1 t2\<rparr>) s;
           (ret, keep, s) \<leftarrow> wait_finish L H F fd k config s;
           let stats = (if ret = ACTIVE_COMM_SUCCESS
             then stats\<lparr>ps_volume := ps_volume stats + cfg_size config,
                        ps_latency := ps_latency stats + mb_latency (mb_table (mbufs s) ! k)\<rparr>
             else stats);
           Some (ret, keep, stats, s)
         }
         else Some (ret, MBUFFER_DISCARD_MESSAGE, stats, s));
      (r, m) \<leftarrow> mbuffer_release L bufferpool mbufferid keep (mbufs s);
      let s = set_active actid (\<lambda>active. (set_port portid (\<lambda>port. port\<lparr>port_mbufferid := - 1,
        port_mbufferpool := None\<rparr>) active)\<lparr>act_resource :=
          resource_set_notbusy L (act_resource active)\<rparr>) (s\<lparr>mbufs := m\<rparr>);
      Some (ret, stats, s)
    }"

definition active_wait ::
  "'r klib \<Rightarrow> 'h noc_hal \<Rightarrow> ('r, 'h) active_functions \<Rightarrow> int \<Rightarrow> active_config \<Rightarrow> pstats
    \<Rightarrow> ('r, 'h) noc \<Rightarrow> ('r, 'h) noc_result" where
  "active_wait L H F fd config stats s =
    do {
      KASSERT (active_valid_call L F fd s);
      b \<leftarrow> wait_begin L F fd s;
      case b of
        Inl ret \<Rightarrow> Some (ret, stats, s)
      | Inr mbufferid \<Rightarrow>
          let (t1, s) = read_clock H s;
              (ret, d, h) = do_wait F (hwfd (actives s ! nat (get_actid F fd))) (hw s);
              s = deliver d (s\<lparr>hw := h\<rparr>);
              (t2, s) = read_clock H s
          in wait_end L H F fd mbufferid ret t1 t2 config stats s
    }"

section \<open>Creating and opening channels\<close>

definition active_alloc_slot :: "'r klib \<Rightarrow> ('r, 'h) noc \<Rightarrow> nat option \<times> ('r, 'h) noc" where
  "active_alloc_slot L s =
    (case first_index (\<lambda>active. \<not> resource_is_used L (act_resource active)) (actives s) of
       None \<Rightarrow> (None, s)
     | Some i \<Rightarrow> (Some i, set_active (int i) (\<lambda>active. active\<lparr>act_resource :=
         resource_set_used L (RESOURCE_INITIALIZER L)\<rparr>) s))"

definition active_free_slot :: "'r klib \<Rightarrow> int \<Rightarrow> ('r, 'h) noc \<Rightarrow> ('r, 'h) noc" where
  "active_free_slot L i s =
    set_active i (\<lambda>active. active\<lparr>act_resource := resource_set_unused L (act_resource active)\<rparr>) s"

definition active_create ::
  "'r klib \<Rightarrow> ('r, 'h) active_functions \<Rightarrow> int \<Rightarrow> ('r, 'h) noc \<Rightarrow> int \<times> ('r, 'h) noc" where
  "active_create L F lcl s =
    (let actid = active_search L lcl (- 1) ACTIVE_TYPE_INPUT s
     in if actid \<ge> 0 then (actid, s)
        else case active_alloc_slot L s of
          (None, s) \<Rightarrow> (- EAGAIN, s)
        | (Some i, s) \<Rightarrow>
            let (fd, h) = do_create F lcl (hw s);
                s = s\<lparr>hw := h\<rparr>
            in if fd < 0 then (fd, active_free_slot L (int i) s)
               else (int i, set_active (int i) (\<lambda>active. active\<lparr>act_flags := 0, hwfd := fd,
                 act_local := lcl, act_remote := - 1, refcount := 0,
                 act_resource := resource_set_notbusy L (resource_set_rdonly L (act_resource active))\<rparr>) s))"

definition active_open ::
  "'r klib \<Rightarrow> 'h noc_hal \<Rightarrow> ('r, 'h) active_functions \<Rightarrow> int \<Rightarrow> int \<Rightarrow> ('r, 'h) noc \<Rightarrow> int \<times> ('r, 'h) noc" where
  "active_open L H F lcl rmt s =
    (let s = (if clock_error s = 0
              then let (t1, s) = read_clock H s; (t2, s) = read_clock H s in s\<lparr>clock_error := t2 - t1\<rparr>
              else s);
         actid = active_search L lcl rmt ACTIVE_TYPE_OUTPUT s
     in if actid \<ge> 0 then (actid, s)
        else case active_alloc_slot L s of
          (None, s) \<Rightarrow> (- EAGAIN, s)
        | (Some i, s) \<Rightarrow>
            if \<not> node_is_local H lcl then (- EINVAL, s)
            else
              let (fd, h) = (if \<not> node_is_local H rmt then do_open F lcl rmt (hw s) else (- EINVAL, hw s));
                  s = s\<lparr>hw := h\<rparr>
              in if \<not> node_is_local H rmt \<and> fd < 0 then (fd, active_free_slot L (int i) s)
                 else (int i, set_active (int i) (\<lambda>active. active\<lparr>act_flags := 0, hwfd := fd,
                   refcount := 0, act_local := lcl, act_remote := rmt,
                   act_resource := resource_set_notbusy L (resource_set_wronly L (act_resource active))\<rparr>) s))"

text \<open>The loop with which a facility opens a channel to every node when it is initialised
  (\<open>do_mailbox_init\<close> and \<open>do_portal_init\<close>): each result is asserted.\<close>

fun open_all ::
  "(int \<Rightarrow> ('r, 'h) noc \<Rightarrow> int \<times> ('r, 'h) noc) \<Rightarrow> int list \<Rightarrow> ('r, 'h) noc \<Rightarrow> ('r, 'h) noc option" where
  "open_all op [] s = Some s"
| "open_all op (i # is) s = do { let (r, s) = op i s; KASSERT (r \<ge> 0); open_all op is s }"

end
