(* ===== verification/Channels.thy ===== *)
theory Channels
  imports Active
begin

text \<open>
  Proofs about the physical channels: the invariant of the tables of a
  communication facility and what each operation of \<open>Active\<close> does.  The part of the
  table \<open>fn\<close> that the mailbox and portal sources provide (headers and composed
  identifiers) is the interface \<open>facility\<close>; both facilities interpret it.
\<close>

section \<open>Pools that share buffers\<close>

definition sub_pool :: "'r mbuffer_pool \<Rightarrow> 'r mbuffer_pool \<Rightarrow> bool" where
  "sub_pool A P \<longleftrightarrow> mbuffers P \<le> mbuffers A
    \<and> mbuffers A + nmbuffers A \<le> mbuffers P + nmbuffers P \<and> source_check A = source_check P"

lemma sub_pool_refl [simp]: "sub_pool P P"
  by (simp add: sub_pool_def)

definition sub_index :: "'r mbuffer_pool \<Rightarrow> 'r mbuffer_pool \<Rightarrow> nat \<Rightarrow> nat" where
  "sub_index A P i = mbuffers A - mbuffers P + i"

lemma sub_index:
  assumes "sub_pool A P" "i < nmbuffers A"
  shows "sub_index A P i < nmbuffers P" "mbuffers A + i = mbuffers P + sub_index A P i"
  using assms by (auto simp: sub_pool_def sub_index_def)

lemma pool_buffers_sub:
  assumes "sub_pool A P"
  shows "pool_buffers A m = take (nmbuffers A) (drop (mbuffers A - mbuffers P) (pool_buffers P m))"
proof -
  have "nmbuffers A \<le> nmbuffers P + mbuffers P - mbuffers A"
    using assms unfolding sub_pool_def by linarith
  then show ?thesis using assms by (simp add: sub_pool_def pool_buffers_def drop_take min_absorb1)
qed

lemma sub_list_filter:
  assumes "distinct (map f (filter Q xs))"
  shows "distinct (map f (filter Q (take n (drop k xs))))"
proof -
  have "filter Q xs = filter Q (take k xs) @ filter Q (take n (drop k xs)) @ filter Q (drop n (drop k xs))"
    by (metis append_take_drop_id filter_append)
  then show ?thesis using assms by simp
qed

lemma mbuffer_inv_sub:
  assumes "mbuffer_inv L P m" "sub_pool A P"
  shows "mbuffer_inv L A m"
  unfolding mbuffer_inv_def
proof (intro conjI ballI impI)
  show "mbuffers A + nmbuffers A \<le> length (mb_table m)"
    using assms by (simp add: mbuffer_inv_def sub_pool_def)
  show "distinct (map mb_age (filter (stored L) (pool_buffers A m)))"
    unfolding pool_buffers_sub [OF assms(2)]
    by (rule sub_list_filter) (use assms(1) in \<open>simp add: mbuffer_inv_def\<close>)
  show "mb_age b < curr_age m" if "b \<in> set (pool_buffers A m)" "stored L b" for b
    using that assms unfolding pool_buffers_sub [OF assms(2)]
    by (auto simp: mbuffer_inv_def dest!: in_set_takeD in_set_dropD)
qed

lemma mbuffer_release_sub:
  assumes "klib_laws L" "sub_pool A P" "i < nmbuffers A"
  shows "mbuffer_release L A (int i) rule m = mbuffer_release L P (int (sub_index A P i)) rule m"
  using assms sub_index [OF assms(2,3)] by (simp add: mbuffer_release_def)

lemma mbuffer_get_Some:
  "klib_laws L \<Longrightarrow> i < nmbuffers P \<Longrightarrow> mbuffer_get L P (int i) = Some (mbuffers P + i)"
  by (simp add: mbuffer_get_def)

text \<open>Changing a buffer without changing its status keeps the table well formed.\<close>

lemma map_filter_update_same:
  "i < length xs \<Longrightarrow> Q b = Q (xs ! i) \<Longrightarrow> f b = f (xs ! i) \<Longrightarrow>
    map f (filter Q (xs[i := b])) = map f (filter Q xs)"
  by (induction xs arbitrary: i) (auto split: nat.splits simp: nth_Cons)

lemma mbuffer_inv_ages:
  "mbuffer_inv L P m \<longleftrightarrow> mbuffers P + nmbuffers P \<le> length (mb_table m)
    \<and> distinct (map mb_age (filter (stored L) (pool_buffers P m)))
    \<and> (\<forall>a \<in> set (map mb_age (filter (stored L) (pool_buffers P m))). a < curr_age m)"
  by (auto simp: mbuffer_inv_def)

lemma mbuffer_inv_same:
  assumes inv: "mbuffer_inv L P m" and i: "i < nmbuffers P"
    and b: "mb_resource b = mb_resource (mb_table m ! (mbuffers P + i))"
      "mb_age b = mb_age (mb_table m ! (mbuffers P + i))"
  shows "mbuffer_inv L P (m\<lparr>mb_table := (mb_table m)[mbuffers P + i := b]\<rparr>)"
proof -
  have "map mb_age (filter (stored L) ((pool_buffers P m)[i := b])) =
      map mb_age (filter (stored L) (pool_buffers P m))"
    by (rule map_filter_update_same)
      (use i b pool_buffers_length [OF inv] pool_buffers_nth [OF inv i] in \<open>simp_all add: stored_def\<close>)
  then show ?thesis
    using inv unfolding mbuffer_inv_ages pool_buffers_update' [OF inv i] by simp
qed

section \<open>The invariant\<close>

text \<open>
  \<open>P\<close> and \<open>A\<close> are the principal and the auxiliary pool of a facility and \<open>n\<close> is the
  number of ports of a channel.  A port owns the buffer its \<open>mbufferid\<close> names.  The
  invariant: the table of buffers is well formed; every channel counts its used
  ports and has a well-formed ring; a buffer that names its sender names an existing
  port; a port that owns a buffer owns an allocated one that is not in the queue of
  stored messages, and no two ports own the same.
\<close>

definition owns :: "('r, 'h) noc \<Rightarrow> int \<Rightarrow> nat \<Rightarrow> int \<Rightarrow> int \<Rightarrow> bool" where
  "owns s n i p b \<longleftrightarrow> i < length (actives s) \<and> 0 \<le> p \<and> p < n
    \<and> port_mbufferid (port_of (actives s ! i) p) = b \<and> 0 \<le> b"

definition channel_ok :: "'r klib \<Rightarrow> int \<Rightarrow> 'r mbuffer_pool \<Rightarrow> 'r mbuffer_pool \<Rightarrow> 'r active \<Rightarrow> bool" where
  "channel_ok L n P A a \<longleftrightarrow> mbufferpool a = P \<and> mbufferpool_aux a = A \<and> nports (portpool a) = n
    \<and> portpool_inv L (portpool a) \<and> requests_inv a"

definition sender_ok :: "'r klib \<Rightarrow> int \<Rightarrow> nat \<Rightarrow> 'r mbuffer \<Rightarrow> bool" where
  "sender_ok L n na b \<longleftrightarrow> (resource_is_used L (mb_resource b) \<and> 0 \<le> mb_actid b \<and> 0 \<le> mb_portid b
    \<longrightarrow> mb_actid b < int na \<and> mb_portid b < n)"

definition owned_ok :: "'r klib \<Rightarrow> 'r mbuffer_pool \<Rightarrow> 'r mbuffer_mem \<Rightarrow> int \<Rightarrow> bool" where
  "owned_ok L P m b \<longleftrightarrow> b < int (nmbuffers P)
    \<and> resource_is_used L (mb_resource (mb_table m ! (mbuffers P + nat b)))
    \<and> \<not> resource_is_busy L (mb_resource (mb_table m ! (mbuffers P + nat b)))"

definition noc_inv ::
  "'r klib \<Rightarrow> int \<Rightarrow> 'r mbuffer_pool \<Rightarrow> 'r mbuffer_pool \<Rightarrow> ('r, 'h) noc \<Rightarrow> bool" where
  "noc_inv L n P A s \<longleftrightarrow>
    mbuffer_inv L P (mbufs s)
    \<and> (\<forall>i < length (actives s). channel_ok L n P A (actives s ! i))
    \<and> (\<forall>k < nmbuffers P. sender_ok L n (length (actives s)) (mb_table (mbufs s) ! (mbuffers P + k)))
    \<and> (\<forall>i p b. owns s n i p b \<longrightarrow> owned_ok L P (mbufs s) b
          \<and> port_mbufferpool (port_of (actives s ! i) p) = Some P)
    \<and> (\<forall>i p j q b. owns s n i p b \<and> owns s n j q b \<longrightarrow> i = j \<and> p = q)"

lemma noc_invD:
  assumes "noc_inv L n P A s"
  shows "mbuffer_inv L P (mbufs s)"
    "i < length (actives s) \<Longrightarrow> channel_ok L n P A (actives s ! i)"
    "k < nmbuffers P \<Longrightarrow> sender_ok L n (length (actives s)) (mb_table (mbufs s) ! (mbuffers P + k))"
    "owns s n i p b \<Longrightarrow> owned_ok L P (mbufs s) b"
    "owns s n i p b \<Longrightarrow> port_mbufferpool (port_of (actives s ! i) p) = Some P"
    "owns s n i p b \<Longrightarrow> owns s n j q b \<Longrightarrow> i = j \<and> p = q"
  using assms unfolding noc_inv_def by blast+

lemma noc_invI:
  assumes "mbuffer_inv L P (mbufs s)"
    and "\<And>i. i < length (actives s) \<Longrightarrow> channel_ok L n P A (actives s ! i)"
    and "\<And>k. k < nmbuffers P \<Longrightarrow> sender_ok L n (length (actives s)) (mb_table (mbufs s) ! (mbuffers P + k))"
    and "\<And>i p b. owns s n i p b \<Longrightarrow> owned_ok L P (mbufs s) b"
    and "\<And>i p b. owns s n i p b \<Longrightarrow> port_mbufferpool (port_of (actives s ! i) p) = Some P"
    and "\<And>i p j q b. owns s n i p b \<Longrightarrow> owns s n j q b \<Longrightarrow> i = j \<and> p = q"
  shows "noc_inv L n P A s"
  using assms unfolding noc_inv_def by blast

lemma noc_inv_cong:
  assumes "noc_inv L n P A s" "actives s' = actives s" "mbufs s' = mbufs s"
  shows "noc_inv L n P A s'"
proof -
  have "owns s' = owns s" by (simp add: owns_def fun_eq_iff assms)
  then show ?thesis using assms(1) unfolding noc_inv_def assms(2,3) by simp
qed

lemma noc_inv_updates [simp]:
  "noc_inv L n P A (s\<lparr>hw := h\<rparr>) = noc_inv L n P A s"
  "noc_inv L n P A (s\<lparr>umem := u\<rparr>) = noc_inv L n P A s"
  "noc_inv L n P A (s\<lparr>clock_error := e\<rparr>) = noc_inv L n P A s"
  by (auto elim: noc_inv_cong)

text \<open>Operations that change one channel and leave what its ports own.\<close>

lemma owns_actives:
  assumes "length (actives s') = length (actives s)"
    and "\<And>j p. j < length (actives s) \<Longrightarrow> 0 \<le> p \<Longrightarrow> p < n \<Longrightarrow>
      port_mbufferid (port_of (actives s' ! j) p) = port_mbufferid (port_of (actives s ! j) p)"
  shows "owns s' n = owns s n"
  using assms by (auto simp: owns_def fun_eq_iff)

lemma set_active_simps [simp]:
  "mbufs (set_active i f s) = mbufs s" "hw (set_active i f s) = hw s" "umem (set_active i f s) = umem s"
  "clock_error (set_active i f s) = clock_error s"
  "length (actives (set_active i f s)) = length (actives s)"
  "i < int (length (actives s)) \<Longrightarrow> 0 \<le> i \<Longrightarrow> actives (set_active i f s) ! nat i = f (actives s ! nat i)"
  by (simp_all add: set_active_def)

lemma actives_set_active_nth:
  "i < length (actives s) \<Longrightarrow> actives (set_active (int i) f s) ! j =
    (if i = j then f (actives s ! i) else actives s ! j)"
  by (simp add: set_active_def nth_list_update)

lemma noc_inv_set_active:
  assumes inv: "noc_inv L n P A s" and i: "i < length (actives s)"
    and ok: "channel_ok L n P A (f (actives s ! i))"
    and own: "\<And>p. 0 \<le> p \<Longrightarrow> p < n \<Longrightarrow>
      port_mbufferid (port_of (f (actives s ! i)) p) = port_mbufferid (port_of (actives s ! i) p)
      \<and> port_mbufferpool (port_of (f (actives s ! i)) p) = port_mbufferpool (port_of (actives s ! i) p)"
  shows "noc_inv L n P A (set_active (int i) f s)"
proof -
  let ?s = "set_active (int i) f s"
  have nth: "actives ?s ! j = (if i = j then f (actives s ! i) else actives s ! j)" for j
    using actives_set_active_nth [OF i] .
  have owns: "owns ?s n = owns s n"
    by (rule owns_actives) (use own nth in auto)
  have pool: "port_mbufferpool (port_of (actives ?s ! j) p) = port_mbufferpool (port_of (actives s ! j) p)"
    if "owns s n j p b" for j p b using that own nth by (auto simp: owns_def)
  show ?thesis
    by (rule noc_invI, unfold owns) (use noc_invD [OF inv] nth ok pool in \<open>auto split: if_splits\<close>)
qed

text \<open>Changes to one port of a channel.\<close>

lemma channel_okD:
  assumes "channel_ok L n P A a"
  shows "mbufferpool a = P" "mbufferpool_aux a = A" "nports (portpool a) = n"
    "portpool_inv L (portpool a)" "requests_inv a" "valid_port a p \<longleftrightarrow> 0 \<le> p \<and> p < n"
  using assms by (auto simp: channel_ok_def valid_port_def)

lemma requests_inv_set_port:
  assumes "requests_inv a" "valid_port a p"
    and "port_is_requested (f (port_of a p)) \<longrightarrow> p \<in> set (waiting_ports (requests a))"
  shows "requests_inv (set_port p f a)"
proof -
  have eq: "(set_port p f a)\<lparr>requests := requests a\<rparr> = set_port p f a" by (simp add: set_port_def)
  have "requests_inv ((set_port p f a)\<lparr>requests := requests a\<rparr>)"
    using requests_invI [OF assms(1,2) requests_invD(1) [OF assms(1)] refl, of f] assms(3)
      requests_invD(3) [OF assms(1)] by blast
  then show ?thesis by (simp only: eq)
qed

lemma count_used_set_port:
  assumes "requests_inv a" "valid_port a p"
  shows "int (count_if (\<lambda>port. resource_is_used L (port_resource port)) (ports (portpool (set_port p f a)))) =
    int (count_if (\<lambda>port. resource_is_used L (port_resource port)) (ports (portpool a)))
      + (if resource_is_used L (port_resource (f (port_of a p))) then 1 else 0)
      - (if resource_is_used L (port_resource (port_of a p)) then 1 else 0)"
proof -
  let ?used = "\<lambda>port. resource_is_used L (port_resource port)" and ?ps = "ports (portpool a)"
  have p: "nat p < length ?ps" by (rule valid_port_nat [OF assms])
  show ?thesis
    using count_if_update_same [OF p, of ?used "f (?ps ! nat p)"]
      count_if_update_set [OF p, of ?used "f (?ps ! nat p)"]
      count_if_update_reset [OF p, of ?used "f (?ps ! nat p)"]
    by (auto simp: set_port_def port_of_def)
qed

lemma channel_ok_set_port:
  assumes ok: "channel_ok L n P A a" and p: "valid_port a p"
    and "resource_is_used L (port_resource (f (port_of a p))) = resource_is_used L (port_resource (port_of a p))"
    and "port_is_requested (f (port_of a p)) \<longrightarrow> port_is_requested (port_of a p)"
  shows "channel_ok L n P A (set_port p f a)"
  unfolding channel_ok_def
  using channel_okD [OF ok] assms count_used_set_port [OF channel_okD(5) [OF ok] p, of L f]
    requests_inv_set_port [OF channel_okD(5) [OF ok] p, of f] requests_invD(4) [OF channel_okD(5) [OF ok] p]
  by (auto simp: portpool_inv_def)

lemma channel_ok_update [simp]:
  "channel_ok L n P A (a\<lparr>act_resource := r\<rparr>) = channel_ok L n P A a"
  "channel_ok L n P A (a\<lparr>act_remote := i\<rparr>) = channel_ok L n P A a"
  "channel_ok L n P A (a\<lparr>act_local := i\<rparr>) = channel_ok L n P A a"
  "channel_ok L n P A (a\<lparr>act_flags := fl\<rparr>) = channel_ok L n P A a"
  "channel_ok L n P A (a\<lparr>hwfd := i\<rparr>) = channel_ok L n P A a"
  "channel_ok L n P A (a\<lparr>refcount := i\<rparr>) = channel_ok L n P A a"
  by (simp_all add: channel_ok_def requests_inv_def valid_port_def port_of_def)

lemma channel_ok_allowed [simp]:
  "channel_ok L n P A (active_set_allowed a) = channel_ok L n P A a"
  "channel_ok L n P A (active_set_notallowed a) = channel_ok L n P A a"
  by (simp_all add: active_set_allowed_def active_set_notallowed_def)

lemma port_of_update [simp]:
  "port_of (a\<lparr>act_resource := r\<rparr>) = port_of a" "port_of (a\<lparr>act_remote := i\<rparr>) = port_of a"
  "port_of (a\<lparr>act_local := i\<rparr>) = port_of a" "port_of (a\<lparr>act_flags := fl\<rparr>) = port_of a"
  "port_of (a\<lparr>hwfd := i\<rparr>) = port_of a" "port_of (a\<lparr>refcount := i\<rparr>) = port_of a"
  "port_of (active_set_allowed a) = port_of a" "port_of (active_set_notallowed a) = port_of a"
  by (simp_all add: port_of_def fun_eq_iff active_set_allowed_def active_set_notallowed_def)

lemma channel_port_of_set_port:
  assumes "channel_ok L n P A a" "0 \<le> p" "p < n" "0 \<le> q"
  shows "port_of (set_port p f a) q = (if p = q then f (port_of a p) else port_of a q)"
  using assms channel_okD [OF assms(1)] valid_port_nat [of a p] by (intro port_of_set_port) auto

text \<open>A port takes a buffer that nobody owns, and gives up the one it owns.\<close>

lemma owns_set_port:
  assumes ok: "channel_ok L n P A (actives s ! i)" and i: "i < length (actives s)" and p: "0 \<le> p" "p < n"
  shows "owns (set_active (int i) (set_port p f) s) n j q b \<longleftrightarrow>
    (if i = j \<and> p = q then port_mbufferid (f (port_of (actives s ! i) p)) = b \<and> 0 \<le> b else owns s n j q b)"
  using i p channel_port_of_set_port [OF ok p, of q f] actives_set_active_nth [OF i, of "set_port p f" j]
  by (auto simp: owns_def)

lemma noc_inv_set_owner:
  assumes inv: "noc_inv L n P A s" and i: "i < length (actives s)" and p: "0 \<le> p" "p < n"
    and f: "port_resource (f (port_of (actives s ! i) p)) = port_resource (port_of (actives s ! i) p)"
      "port_flags (f (port_of (actives s ! i) p)) = port_flags (port_of (actives s ! i) p)"
    and b: "port_mbufferid (f (port_of (actives s ! i) p)) = b"
    and own: "0 \<le> b \<Longrightarrow> owned_ok L P (mbufs s) b"
      "0 \<le> b \<Longrightarrow> port_mbufferpool (f (port_of (actives s ! i) p)) = Some P"
      "\<And>j q. 0 \<le> b \<Longrightarrow> \<not> owns s n j q b"
  shows "noc_inv L n P A (set_active (int i) (set_port p f) s)"
proof -
  let ?s = "set_active (int i) (set_port p f) s"
  note ok = noc_invD(2) [OF inv i]
  have owns: "owns ?s n j q c \<longleftrightarrow> (if i = j \<and> p = q then b = c \<and> 0 \<le> c else owns s n j q c)" for j q c
    using owns_set_port [OF ok i p, of f j q c] b by auto
  have ok': "channel_ok L n P A (set_port p f (actives s ! i))"
    by (rule channel_ok_set_port [OF ok]) (use channel_okD(6) [OF ok] p f in \<open>simp_all add: port_is_requested_def\<close>)
  show ?thesis
  proof (rule noc_invI)
    show "channel_ok L n P A (actives ?s ! j)" if "j < length (actives ?s)" for j
      using that ok' noc_invD(2) [OF inv] actives_set_active_nth [OF i] by auto
    show "port_mbufferpool (port_of (actives ?s ! j) q) = Some P" if c: "owns ?s n j q c" for j q c
    proof (cases "i = j \<and> p = q")
      case True
      then have "0 \<le> b" using c owns by auto
      then show ?thesis
        using own(2) True channel_port_of_set_port [OF ok p p(1), of f] actives_set_active_nth [OF i] by simp
    next
      case False
      then have "owns s n j q c" "0 \<le> q" using c owns [of j q c] by (simp, simp add: owns_def)
      then show ?thesis
        using False noc_invD(5) [OF inv] channel_port_of_set_port [OF ok p, of q f]
          actives_set_active_nth [OF i, of "set_port p f" j] by auto
    qed
    show "owned_ok L P (mbufs ?s) c" if "owns ?s n j q c" for j q c
      using that owns own noc_invD(4) [OF inv] by (auto split: if_splits)
    show "j = j' \<and> q = q'" if "owns ?s n j q c" "owns ?s n j' q' c" for j q j' q' c
      using that owns own noc_invD(6) [OF inv] by (auto split: if_splits)
  qed (use noc_invD [OF inv] in simp_all)
qed

text \<open>Changes to one buffer.\<close>

lemma mb_table_update_nth:
  "mbuffer_inv L P m \<Longrightarrow> i < nmbuffers P \<Longrightarrow> (mb_table m)[mbuffers P + i := b] ! (mbuffers P + j) =
    (if i = j then b else mb_table m ! (mbuffers P + j))"
  by (auto simp: mbuffer_inv_def nth_list_update)

lemma noc_inv_mbufs:
  assumes inv: "noc_inv L n P A s" and i: "i < nmbuffers P" and m': "mbuffer_inv L P m'"
    and tab: "mb_table m' = (mb_table (mbufs s))[mbuffers P + i := b]"
    and b: "sender_ok L n (length (actives s)) b"
    and own: "\<And>j p. owns s n j p (int i) \<Longrightarrow>
      resource_is_used L (mb_resource b) \<and> \<not> resource_is_busy L (mb_resource b)"
  shows "noc_inv L n P A (s\<lparr>mbufs := m'\<rparr>)"
proof -
  have owns: "owns (s\<lparr>mbufs := m'\<rparr>) = owns s" by (simp add: owns_def fun_eq_iff)
  have nth: "mb_table m' ! (mbuffers P + j) = (if i = j then b else mb_table (mbufs s) ! (mbuffers P + j))" for j
    unfolding tab by (rule mb_table_update_nth [OF noc_invD(1) [OF inv] i])
  have "owned_ok L P m' c" if "owns s n j p c" for j p c
    using that noc_invD(4) [OF inv that] own [of j p] nth [of "nat c"]
    by (cases "c = int i") (auto simp: owned_ok_def owns_def)
  then show ?thesis
    by (intro noc_invI) (use noc_invD [OF inv] m' b nth in \<open>auto simp: owns\<close>)
qed

lemma noc_inv_set_mbuf:
  assumes inv: "noc_inv L n P A s" and i: "i < nmbuffers P"
    and b: "b = mb_table (mbufs s) ! (mbuffers P + i)"
    and same: "mb_resource (f b) = mb_resource b" "mb_age (f b) = mb_age b"
    and snd: "sender_ok L n (length (actives s)) (f b)"
  shows "noc_inv L n P A (set_mbuf (mbuffers P + i) f s)"
proof -
  have "mbuffer_inv L P ((mbufs s)\<lparr>mb_table := (mb_table (mbufs s))[mbuffers P + i := f b]\<rparr>)"
    by (rule mbuffer_inv_same [OF noc_invD(1) [OF inv] i]) (use same b in simp_all)
  then have "noc_inv L n P A (s\<lparr>mbufs := (mbufs s)\<lparr>mb_table := (mb_table (mbufs s))[mbuffers P + i := f b]\<rparr>\<rparr>)"
  proof (rule noc_inv_mbufs [OF inv i])
    show "resource_is_used L (mb_resource (f b)) \<and> \<not> resource_is_busy L (mb_resource (f b))"
      if "owns s n j p (int i)" for j p
      using noc_invD(4) [OF inv that] by (simp add: owned_ok_def same flip: b)
  qed (use snd in simp_all)
  then show ?thesis by (simp add: set_mbuf_def b)
qed

lemma mbuffer_used_unowned:
  assumes "noc_inv L n P A s"
    and "\<not> resource_is_used L (mb_resource (mb_table (mbufs s) ! (mbuffers P + i)))
      \<or> resource_is_busy L (mb_resource (mb_table (mbufs s) ! (mbuffers P + i)))"
  shows "\<not> owns s n j p (int i)"
  using noc_invD(4) [OF assms(1), of j p "int i"] assms(2) by (auto simp: owned_ok_def)

lemma noc_mbuffer_alloc_cases:
  assumes laws: "klib_laws L" and inv: "noc_inv L n P A s" and sub: "sub_pool B P"
  obtains (busy) "mbuffer_alloc L B (mbufs s) = (- EBUSY, mbufs s)"
      "\<forall>i < nmbuffers B. resource_is_used L (mb_resource (mb_table (mbufs s) ! (mbuffers B + i)))"
  | (fresh) j i buf m' where "j < nmbuffers B" "mbuffers B + j = mbuffers P + i" "i < nmbuffers P"
      "mbuffer_alloc L B (mbufs s) = (int j, m')"
      "m' = (mbufs s)\<lparr>mb_table := (mb_table (mbufs s))[mbuffers P + i := buf]\<rparr>"
      "mb_table m' ! (mbuffers P + i) = buf"
      "resource_is_used L (mb_resource buf)" "\<not> resource_is_busy L (mb_resource buf)"
      "mb_actid buf = - 1" "mb_portid buf = - 1"
      "mb_message buf = MBUFFER_MESSAGE_INITIALIZER (mb_message (mb_table (mbufs s) ! (mbuffers P + i)))"
      "noc_inv L n P A (s\<lparr>mbufs := m'\<rparr>)" "\<And>k p. \<not> owns s n k p (int i)"
      "\<not> resource_is_used L (mb_resource (mb_table (mbufs s) ! (mbuffers P + i)))"
      "pending L P m' = pending L P (mbufs s)" "pending L B m' = pending L B (mbufs s)"
proof (cases rule: mbuffer_alloc_cases [OF laws mbuffer_inv_sub [OF noc_invD(1) [OF inv] sub]])
  case 1
  then show thesis by (rule busy)
next
  case (2 j buf m')
  define i where "i = sub_index B P j"
  note idx = sub_index [OF sub 2(1), folded i_def]
  have m': "m' = (mbufs s)\<lparr>mb_table := (mb_table (mbufs s))[mbuffers P + i := buf]\<rparr>"
    using 2(3) idx(2) by simp
  have st: "\<not> stored L (mb_table (mbufs s) ! (mbuffers P + i))" "\<not> stored L buf"
    using 2(4,7) idx(2) by (auto simp: stored_def)
  note upd = pending_update_other [OF noc_invD(1) [OF inv] idx(1) st, folded m']
  have pendB: "pending L B m' = pending L B (mbufs s)"
    unfolding 2(3)
    by (rule pending_update_other(2) [OF mbuffer_inv_sub [OF noc_invD(1) [OF inv] sub] 2(1)])
      (use st idx(2) in simp_all)
  have unused: "\<not> resource_is_used L (mb_resource (mb_table (mbufs s) ! (mbuffers P + i)))"
    using 2(4) idx(2) by simp
  have un: "\<not> owns s n k p (int i)" for k p by (rule mbuffer_used_unowned [OF inv]) (use unused in simp)
  have "mb_table m' = (mb_table (mbufs s))[mbuffers P + i := buf]" using m' by simp
  moreover have "sender_ok L n (length (actives s)) buf" using 2(8) by (simp add: sender_ok_def)
  ultimately have "noc_inv L n P A (s\<lparr>mbufs := m'\<rparr>)"
    using noc_inv_mbufs [OF inv idx(1) upd(1)] un by blast
  moreover have "mb_table m' ! (mbuffers P + i) = buf"
    using m' mb_table_update_nth [OF noc_invD(1) [OF inv] idx(1)] by simp
  ultimately show thesis using fresh [OF 2(1) idx(2,1) 2(2) m'] 2 un upd(2) pendB unused idx(2) by simp
qed

text \<open>Storing and discarding the message of a buffer that no port owns.\<close>

lemma noc_mbuffer_keep:
  assumes laws: "klib_laws L" and inv: "noc_inv L n P A s" and i: "i < nmbuffers P"
    and buf: "buf = mb_table (mbufs s) ! (mbuffers P + i)"
    and used: "resource_is_used L (mb_resource buf)" "\<not> resource_is_busy L (mb_resource buf)"
    and age: "curr_age (mbufs s) \<noteq> - 1" and un: "\<And>k p. \<not> owns s n k p (int i)"
  obtains m' where "mbuffer_release L P (int i) MBUFFER_KEEP_MESSAGE (mbufs s) = Some (0, m')"
    "noc_inv L n P A (s\<lparr>mbufs := m'\<rparr>)"
    "pending L P m' = pending L P (mbufs s) @
      [buf\<lparr>mb_age := curr_age (mbufs s), mb_resource := resource_set_busy L (mb_resource buf)\<rparr>]"
    "mb_table m' = (mb_table (mbufs s))[mbuffers P + i :=
      buf\<lparr>mb_age := curr_age (mbufs s), mb_resource := resource_set_busy L (mb_resource buf)\<rparr>]"
proof (rule mbuffer_keep [OF laws noc_invD(1) [OF inv] i buf used age])
  fix m'
  let ?b = "buf\<lparr>mb_age := curr_age (mbufs s), mb_resource := resource_set_busy L (mb_resource buf)\<rparr>"
  assume m': "mbuffer_release L P (int i) MBUFFER_KEEP_MESSAGE (mbufs s) = Some (0, m')"
    "mbuffer_inv L P m'" "pending L P m' = pending L P (mbufs s) @ [?b]"
    "mb_table m' = (mb_table (mbufs s))[mbuffers P + i := ?b]"
  have "sender_ok L n (length (actives s)) ?b"
    using noc_invD(3) [OF inv i] used laws by (simp add: sender_ok_def buf)
  from noc_inv_mbufs [OF inv i m'(2,4) this] un have "noc_inv L n P A (s\<lparr>mbufs := m'\<rparr>)" by blast
  then show thesis using that m' by blast
qed

lemma noc_mbuffer_discard:
  assumes laws: "klib_laws L" and inv: "noc_inv L n P A s" and i: "i < nmbuffers P"
    and buf: "buf = mb_table (mbufs s) ! (mbuffers P + i)" and used: "resource_is_used L (mb_resource buf)"
    and un: "\<And>k p. \<not> owns s n k p (int i)"
  obtains m' where "mbuffer_release L P (int i) MBUFFER_DISCARD_MESSAGE (mbufs s) = Some (0, m')"
    "noc_inv L n P A (s\<lparr>mbufs := m'\<rparr>)" "curr_age m' = curr_age (mbufs s)"
    "pending L P m' = (if stored L buf then remove1 buf (pending L P (mbufs s)) else pending L P (mbufs s))"
    "mb_table m' = (mb_table (mbufs s))[mbuffers P + i := mbuffer_reset L buf]"
proof (rule mbuffer_discard [OF laws noc_invD(1) [OF inv] i buf used])
  fix m'
  assume m': "mbuffer_release L P (int i) MBUFFER_DISCARD_MESSAGE (mbufs s) = Some (0, m')"
    "mbuffer_inv L P m'" "curr_age m' = curr_age (mbufs s)"
    "pending L P m' = (if stored L buf then remove1 buf (pending L P (mbufs s)) else pending L P (mbufs s))"
    "mb_table m' = (mb_table (mbufs s))[mbuffers P + i := mbuffer_reset L buf]"
  have "sender_ok L n (length (actives s)) (mbuffer_reset L buf)"
    by (simp add: sender_ok_def mbuffer_reset_def)
  from noc_inv_mbufs [OF inv i m'(2,5) this] un have "noc_inv L n P A (s\<lparr>mbufs := m'\<rparr>)" by blast
  then show thesis using that m' by blast
qed

section \<open>The ring of a channel\<close>

text \<open>The operations on the ring change the ring and the request flags of the ports only.\<close>

definition channel_same :: "int \<Rightarrow> 'r active \<Rightarrow> 'r active \<Rightarrow> bool" where
  "channel_same n a a' \<longleftrightarrow>
    act_resource a' = act_resource a \<and> act_remote a' = act_remote a \<and> act_local a' = act_local a
    \<and> hwfd a' = hwfd a \<and> act_size a' = act_size a
    \<and> mbufferpool a' = mbufferpool a \<and> mbufferpool_aux a' = mbufferpool_aux a
    \<and> (\<forall>q. 0 \<le> q \<and> q < n \<longrightarrow> port_resource (port_of a' q) = port_resource (port_of a q)
        \<and> port_mbufferid (port_of a' q) = port_mbufferid (port_of a q)
        \<and> port_mbufferpool (port_of a' q) = port_mbufferpool (port_of a q))"

lemma channel_same_refl [simp]: "channel_same n a a"
  by (simp add: channel_same_def)

lemma port_mbufferpool_requested [simp]:
  "port_mbufferpool (port_set_requested port) = port_mbufferpool port"
  "port_mbufferpool (port_set_notrequested port) = port_mbufferpool port"
  by (simp_all add: port_set_requested_def port_set_notrequested_def)

lemma channel_same_ring:
  assumes "channel_ok L n P A a" "0 \<le> p" "p < n"
    and "f = port_set_requested \<or> f = port_set_notrequested"
  shows "channel_same n a ((set_port p f a)\<lparr>requests := rq\<rparr>)"
  using assms channel_port_of_set_port [OF assms(1-3), of _ f] by (auto simp: channel_same_def)

lemma channel_ok_ring:
  assumes ok: "channel_ok L n P A a" and p: "0 \<le> p" "p < n"
    and f: "f = port_set_requested \<or> f = port_set_notrequested"
    and rq: "requests_inv ((set_port p f a)\<lparr>requests := rq\<rparr>)"
  shows "channel_ok L n P A ((set_port p f a)\<lparr>requests := rq\<rparr>)"
proof -
  have v: "valid_port a p" using channel_okD(6) [OF ok] p by simp
  have "port_resource (f (port_of a p)) = port_resource (port_of a p)" using f by auto
  then show ?thesis
    using channel_okD [OF ok] rq count_used_set_port [OF channel_okD(5) [OF ok] v, of L f]
    by (simp add: channel_ok_def portpool_inv_def)
qed

lemma ring_request:
  assumes laws: "klib_laws L" and ok: "channel_ok L n P A a" and p: "0 \<le> p" "p < n"
  obtains (full) "do_request_operation L p a = Some (- EBUSY, a)"
      "\<not> length (waiting_ports (requests a)) < nat (max_capacity (requests a))"
  | (room) a' where "do_request_operation L p a = Some (0, a')" "channel_ok L n P A a'" "channel_same n a a'"
      "port_is_requested (port_of a' p)" "waiting_ports (requests a') = waiting_ports (requests a) @ [p]"
      "length (waiting_ports (requests a)) < nat (max_capacity (requests a))"
proof (cases "length (waiting_ports (requests a)) < nat (max_capacity (requests a))")
  case True
  note inv = channel_okD(5) [OF ok]
  have v: "valid_port a p" using channel_okD(6) [OF ok] p by simp
  obtain rq where rq: "do_request_operation L p a = Some (0, (set_port p port_set_requested a)\<lparr>requests := rq\<rparr>)"
      "requests_inv ((set_port p port_set_requested a)\<lparr>requests := rq\<rparr>)"
      "waiting_ports rq = waiting_ports (requests a) @ [p]"
    using do_request_operation_room [OF laws inv v True] by blast
  show thesis
    by (rule room [OF rq(1)])
      (use channel_ok_ring [OF ok p _ rq(2)] channel_same_ring [OF ok p] rq(3) True
        channel_port_of_set_port [OF ok p p(1)] in simp_all)
next
  case False
  show thesis
    by (rule full [OF do_request_operation_full [OF laws channel_okD(5) [OF ok] _ False] False])
      (use channel_okD(6) [OF ok] p in simp)
qed

lemma ring_verify:
  assumes "klib_laws L" and ok: "channel_ok L n P A a" and "0 \<le> p" "p < n"
  shows "do_request_verify L p a = Some (\<exists>ps. waiting_ports (requests a) = p # ps)"
  using do_request_verify_front [OF assms(1) channel_okD(5) [OF ok]] channel_okD(6) [OF ok] assms(3,4) by simp

lemma ring_complete:
  assumes laws: "klib_laws L" and ok: "channel_ok L n P A a"
    and w: "waiting_ports (requests a) = p # ps"
  obtains a' where "do_request_complete L p a = Some (0, a')" "channel_ok L n P A a'" "channel_same n a a'"
    "waiting_ports (requests a') = ps" "\<not> port_is_requested (port_of a' p)"
proof -
  note inv = channel_okD(5) [OF ok]
  have p: "0 \<le> p" "p < n" using requests_invD(3) [OF inv, of p] channel_okD(6) [OF ok] w by auto
  obtain rq where rq: "do_request_complete L p a = Some (0, (set_port p port_set_notrequested a)\<lparr>requests := rq\<rparr>)"
      "requests_inv ((set_port p port_set_notrequested a)\<lparr>requests := rq\<rparr>)" "waiting_ports rq = ps"
    using do_request_complete_turn [OF laws inv w] by blast
  show thesis
    by (rule that [OF rq(1)])
      (use channel_ok_ring [OF ok p _ rq(2)] channel_same_ring [OF ok p] rq(3)
        channel_port_of_set_port [OF ok p p(1)] in simp_all)
qed

lemma ring_clear:
  assumes laws: "klib_laws L" and ok: "channel_ok L n P A a" and p: "0 \<le> p" "p < n"
  obtains a' where "do_request_clear L p a = Some (0, a')" "channel_ok L n P A a'" "channel_same n a a'"
    "length (waiting_ports (requests a)) < nat (max_capacity (requests a)) \<Longrightarrow>
      waiting_ports (requests a') = remove1 p (waiting_ports (requests a))
      \<and> (p \<in> set (waiting_ports (requests a)) \<longrightarrow> \<not> port_is_requested (port_of a' p))"
    "\<not> length (waiting_ports (requests a)) < nat (max_capacity (requests a)) \<Longrightarrow> a' = a"
proof (cases "p \<in> set (waiting_ports (requests a))
    \<and> length (waiting_ports (requests a)) < nat (max_capacity (requests a))")
  case True
  have v: "valid_port a p" using channel_okD(6) [OF ok] p by simp
  obtain rq where rq: "do_request_clear L p a = Some (0, (set_port p port_set_notrequested a)\<lparr>requests := rq\<rparr>)"
      "requests_inv ((set_port p port_set_notrequested a)\<lparr>requests := rq\<rparr>)"
      "waiting_ports rq = remove1 p (waiting_ports (requests a))"
    using do_request_clear_room [OF laws channel_okD(5) [OF ok] v] True by blast
  show thesis
    by (rule that [OF rq(1)])
      (use channel_ok_ring [OF ok p _ rq(2)] channel_same_ring [OF ok p] rq(3) True
        channel_port_of_set_port [OF ok p p(1)] in simp_all)
next
  case False
  then have "do_request_clear L p a = Some (0, a)"
    using do_request_clear_none [OF laws channel_okD(5) [OF ok], of p] channel_okD(6) [OF ok] p by blast
  then show thesis
    by (rule that) (use ok False in \<open>auto simp: remove1_idem\<close>)
qed

text \<open>Replacing a channel by one that differs in the ring and the flags.\<close>

lemma noc_inv_channel_same:
  assumes "noc_inv L n P A s" "i < length (actives s)" "channel_ok L n P A a'" "channel_same n (actives s ! i) a'"
  shows "noc_inv L n P A (set_active (int i) (\<lambda>_. a') s)"
  by (rule noc_inv_set_active [OF assms(1,2)]) (use assms(3,4) in \<open>simp_all add: channel_same_def\<close>)

lemma owns_channel_same:
  assumes "i < length (actives s)" "channel_same n (actives s ! i) a'"
  shows "owns (set_active (int i) (\<lambda>_. a') s) n = owns s n"
  by (rule owns_actives) (use assms actives_set_active_nth [OF assms(1)] in \<open>auto simp: channel_same_def\<close>)

end
