(* ===== verification/Facility.thy ===== *)
theory Facility
  imports Channels
begin

text \<open>
  What each operation on physical channels does, proved once for every facility.
  The locale \<open>facility\<close> is the contract between \<open>active.c\<close> and the facility that
  uses it: composed identifiers can be taken apart again, configuring a header
  changes nothing but the header and addresses the message, the header check accepts
  the messages that the search in the pool accepts, and the auxiliary pool is a part
  of the principal one.  The mailbox and the portal facilities interpret it.
\<close>

locale facility =
  fixes F :: "('r, 'h) active_functions" and n :: int and P :: "'r mbuffer_pool" and A :: "'r mbuffer_pool"
  assumes ports_pos: "0 < n"
    and actid_compose: "0 \<le> a \<Longrightarrow> 0 \<le> p \<Longrightarrow> p \<le> n \<Longrightarrow> get_actid F (ACTIVE_LADDRESS_COMPOSE a p n) = a"
    and portid_compose: "0 \<le> a \<Longrightarrow> 0 \<le> p \<Longrightarrow> p \<le> n \<Longrightarrow> get_portid F (ACTIVE_LADDRESS_COMPOSE a p n) = p"
    and config_same: "mb_resource (do_header_config F b c) = mb_resource b"
      "mb_age (do_header_config F b c) = mb_age b" "mb_actid (do_header_config F b c) = mb_actid b"
      "mb_portid (do_header_config F b c) = mb_portid b"
      "data (mb_message (do_header_config F b c)) = data (mb_message b)"
    and config_header: "hdr_dest (header (mb_message (do_header_config F b c))) = cfg_remote_addr c"
      "hdr_src (header (mb_message (do_header_config F b c))) = cfg_local_addr c"
    and header_check: "do_header_check F b c \<longleftrightarrow>
      hdr_dest (header (mb_message b)) = cfg_local_addr c \<and> source_check P b (cfg_remote_addr c)"
    and source_any: "source_check P b ACTIVE_ANY_SRC"
    and source_message: "mb_message b = mb_message b' \<Longrightarrow> source_check P b = source_check P b'"
    and aux_pool: "sub_pool A P"

section \<open>Allocation and release\<close>

definition matches_channel :: "'r klib \<Rightarrow> int \<Rightarrow> int \<Rightarrow> int \<Rightarrow> 'r active \<Rightarrow> bool" where
  "matches_channel L lcl rmt ctype a \<longleftrightarrow> resource_is_used L (act_resource a)
    \<and> (ctype = ACTIVE_TYPE_INPUT \<longrightarrow> resource_is_readable L (act_resource a))
    \<and> (ctype = ACTIVE_TYPE_OUTPUT \<longrightarrow> resource_is_writable L (act_resource a))
    \<and> act_local a = lcl \<and> act_remote a = rmt"

lemma active_search_cases:
  obtains (none) "active_search L lcl rmt ctype s = - EBUSY"
      "\<forall>i < length (actives s). \<not> matches_channel L lcl rmt ctype (actives s ! i)"
  | (found) i where "i < length (actives s)" "active_search L lcl rmt ctype s = int i"
      "matches_channel L lcl rmt ctype (actives s ! i)"
      "\<forall>j < i. \<not> matches_channel L lcl rmt ctype (actives s ! j)"
proof -
  have P: "(\<lambda>active. resource_is_used L (act_resource active)
      \<and> \<not> (ctype = ACTIVE_TYPE_INPUT \<and> \<not> resource_is_readable L (act_resource active))
      \<and> \<not> (ctype = ACTIVE_TYPE_OUTPUT \<and> \<not> resource_is_writable L (act_resource active))
      \<and> \<not> (act_local active \<noteq> lcl \<or> act_remote active \<noteq> rmt)) = matches_channel L lcl rmt ctype"
    by (auto simp: matches_channel_def fun_eq_iff)
  show thesis
  proof (cases "first_index (matches_channel L lcl rmt ctype) (actives s)")
    case None
    then have "active_search L lcl rmt ctype s = - EBUSY" unfolding active_search_def P by simp
    then show thesis using none None by (simp add: first_index_None_nth)
  next
    case (Some i)
    then have "active_search L lcl rmt ctype s = int i" unfolding active_search_def P by simp
    then show thesis using found [of i] first_index_SomeD [OF Some] by blast
  qed
qed

text \<open>The ports in use, as pairs of a channel and a port.\<close>

definition used_port_set :: "'r klib \<Rightarrow> int \<Rightarrow> ('r, 'h) noc \<Rightarrow> (nat \<times> int) set" where
  "used_port_set L n s = {(i, p). i < length (actives s) \<and> 0 \<le> p \<and> p < n
    \<and> resource_is_used L (port_resource (port_of (actives s ! i) p))}"

text \<open>Marking a port as used or free, together with the counters of its channel.\<close>

definition mark_port ::
  "int \<Rightarrow> ('r port \<Rightarrow> 'r port) \<Rightarrow> int \<Rightarrow> 'r active \<Rightarrow> 'r active" where
  "mark_port p f d a = (let a = set_port p f a in a\<lparr>refcount := refcount a + d,
     portpool := (portpool a)\<lparr>used_ports := used_ports (portpool a) + d\<rparr>\<rparr>)"

lemma mark_port_simps [simp]:
  "requests (mark_port p f d a) = requests a" "act_resource (mark_port p f d a) = act_resource a"
  "act_remote (mark_port p f d a) = act_remote a" "act_local (mark_port p f d a) = act_local a"
  "refcount (mark_port p f d a) = refcount a + d"
  "used_ports (portpool (mark_port p f d a)) = used_ports (portpool a) + d"
  "port_of (mark_port p f d a) = port_of (set_port p f a)"
  "nports (portpool (mark_port p f d a)) = nports (portpool a)"
  "ports (portpool (mark_port p f d a)) = ports (portpool (set_port p f a))"
  "mbufferpool (mark_port p f d a) = mbufferpool a" "mbufferpool_aux (mark_port p f d a) = mbufferpool_aux a"
  by (simp_all add: mark_port_def Let_def port_of_def fun_eq_iff)

lemma requests_inv_mark_port: "requests_inv (mark_port p f d a) = requests_inv (set_port p f a)"
proof -
  have "valid_port (mark_port p f d a) = valid_port a" by (simp add: valid_port_def fun_eq_iff)
  then show ?thesis unfolding requests_inv_def by simp
qed

lemma channel_ok_mark_port:
  assumes ok: "channel_ok L n P A a" and p: "0 \<le> p" "p < n"
    and d: "d = (if resource_is_used L (port_resource (f (port_of a p))) then 1 else 0)
      - (if resource_is_used L (port_resource (port_of a p)) then 1 else 0)"
    and f: "port_is_requested (f (port_of a p)) \<longrightarrow> port_is_requested (port_of a p)"
  shows "channel_ok L n P A (mark_port p f d a)"
proof -
  have v: "valid_port a p" using channel_okD(6) [OF ok] p by simp
  have "requests_inv (set_port p f a)"
    using requests_inv_set_port [OF channel_okD(5) [OF ok] v] requests_invD(4) [OF channel_okD(5) [OF ok] v] f
    by blast
  then show ?thesis
    using channel_okD [OF ok] count_used_set_port [OF channel_okD(5) [OF ok] v, of L f] d
    by (simp add: channel_ok_def portpool_inv_def requests_inv_mark_port)
qed

lemma noc_mark_port:
  assumes inv: "noc_inv L n P A s" and i: "i < length (actives s)" and p: "0 \<le> p" "p < n"
    and d: "d = (if resource_is_used L (port_resource (f (port_of (actives s ! i) p))) then 1 else 0)
      - (if resource_is_used L (port_resource (port_of (actives s ! i) p)) then 1 else 0)"
    and f: "port_is_requested (f (port_of (actives s ! i) p)) \<longrightarrow> port_is_requested (port_of (actives s ! i) p)"
      "port_mbufferid (f (port_of (actives s ! i) p)) = port_mbufferid (port_of (actives s ! i) p)"
      "port_mbufferpool (f (port_of (actives s ! i) p)) = port_mbufferpool (port_of (actives s ! i) p)"
  defines "s' \<equiv> set_active (int i) (\<lambda>_. mark_port p f d (actives s ! i)) s"
  shows "noc_inv L n P A s'"
    and "used_port_set L n s' = (if resource_is_used L (port_resource (f (port_of (actives s ! i) p)))
      then insert (i, p) (used_port_set L n s) else used_port_set L n s - {(i, p)})"
proof -
  note ok = noc_invD(2) [OF inv i]
  have port: "port_of (set_port p f (actives s ! i)) q =
      (if p = q then f (port_of (actives s ! i) p) else port_of (actives s ! i) q)" if "0 \<le> q" for q
    by (rule channel_port_of_set_port [OF ok p that])
  show "noc_inv L n P A s'"
    unfolding s'_def
    by (rule noc_inv_set_active [OF inv i])
      (use channel_ok_mark_port [of L n P A "actives s ! i" p d f, OF ok p d f(1)] port f in auto)
  have nth: "actives s' ! j = (if i = j then mark_port p f d (actives s ! i) else actives s ! j)" for j
    unfolding s'_def by (rule actives_set_active_nth [OF i])
  have len: "length (actives s') = length (actives s)" by (simp add: s'_def)
  show "used_port_set L n s' = (if resource_is_used L (port_resource (f (port_of (actives s ! i) p)))
      then insert (i, p) (used_port_set L n s) else used_port_set L n s - {(i, p)})"
    using i p port by (auto simp: used_port_set_def nth len split: if_splits)
qed

abbreviation (input) alloc_port :: "'r klib \<Rightarrow> 'r port \<Rightarrow> 'r port" where
  "alloc_port L port \<equiv> port\<lparr>port_flags := 0, port_resource := resource_set_used L (port_resource port)\<rparr>"

abbreviation (input) free_port :: "'r klib \<Rightarrow> 'r port \<Rightarrow> 'r port" where
  "free_port L port \<equiv> port\<lparr>port_resource := resource_set_unused L (port_resource port)\<rparr>"

lemma active_alloc_cases:
  assumes laws: "klib_laws L" and inv: "noc_inv L n P A s"
  obtains (none) "active_alloc L lcl rmt portid ctype s = (- EBUSY, s)"
      "\<forall>i < length (actives s). \<not> matches_channel L lcl rmt ctype (actives s ! i)"
  | (invalid) i where "active_alloc L lcl rmt portid ctype s = (- EINVAL, s)" "i < length (actives s)"
      "matches_channel L lcl rmt ctype (actives s ! i)"
      "if ctype = ACTIVE_TYPE_OUTPUT then \<forall>p. 0 \<le> p \<and> p < n \<longrightarrow> (i, p) \<in> used_port_set L n s
       else \<not> (0 \<le> portid \<and> portid < n)"
  | (busy) i where "active_alloc L lcl rmt portid ctype s = (- EBUSY, s)" "i < length (actives s)"
      "ctype \<noteq> ACTIVE_TYPE_OUTPUT" "matches_channel L lcl rmt ctype (actives s ! i)"
      "(i, portid) \<in> used_port_set L n s"
  | (ok) i p where "i < length (actives s)" "0 \<le> p" "p < n"
      "matches_channel L lcl rmt ctype (actives s ! i)" "(i, p) \<notin> used_port_set L n s"
      "if ctype = ACTIVE_TYPE_OUTPUT then \<forall>q. 0 \<le> q \<and> q < p \<longrightarrow> (i, q) \<in> used_port_set L n s else p = portid"
      "active_alloc L lcl rmt portid ctype s = (ACTIVE_LADDRESS_COMPOSE (int i) p n,
        set_active (int i) (\<lambda>_. mark_port p (alloc_port L) 1 (actives s ! i)) s)"
proof (cases rule: active_search_cases [of L lcl rmt ctype s])
  case none
  then show thesis using that(1) by (simp add: active_alloc_def)
next
  case (found i)
  let ?a = "actives s ! i"
  note chan = noc_invD(2) [OF inv found(1)]
  have np: "nports (portpool ?a) = n" and pp: "portpool_inv L (portpool ?a)" using channel_okD [OF chan] by auto
  have used: "(i, q) \<in> used_port_set L n s \<longleftrightarrow> resource_is_used L (port_resource (port_of ?a q))"
    if "0 \<le> q" "q < n" for q using found(1) that by (simp add: used_port_set_def)
  have alloc: "active_alloc L lcl rmt portid ctype s = (ACTIVE_LADDRESS_COMPOSE (int i) p n,
        set_active (int i) (\<lambda>_. mark_port p (alloc_port L) 1 ?a) s)"
    if "0 \<le> p" "p < n" "(i, p) \<notin> used_port_set L n s"
      "if ctype = ACTIVE_TYPE_OUTPUT then portpool_choose_port L (portpool ?a) = p else p = portid" for p
    using that used [of p] found laws np
    by (simp add: active_alloc_def Let_def ACTIVE_GET_NR_PORTS_def mark_port_def split: if_splits)
  show thesis
  proof (cases "ctype = ACTIVE_TYPE_OUTPUT")
    case out: True
    have len: "int (length (ports (portpool ?a))) = n" using pp np by (simp add: portpool_inv_def)
    show thesis
    proof (cases rule: portpool_choose_port_cases [OF pp])
      case 1
      have "(i, q) \<in> used_port_set L n s" if "0 \<le> q \<and> q < n" for q
        using 1(2) used that len by (simp add: port_of_def)
      then show thesis
        using invalid found 1(1) out by (simp add: active_alloc_def Let_def)
    next
      case (2 p)
      have p1: "int p < n" using 2(2) len by simp
      have p2: "(i, int p) \<notin> used_port_set L n s" using used [of "int p"] p1 2(3) by (simp add: port_of_def)
      have p3: "\<forall>q. 0 \<le> q \<and> q < int p \<longrightarrow> (i, q) \<in> used_port_set L n s"
        using used p1 2(4) by (auto simp: port_of_def nat_less_iff)
      note p = p1 p2 p3
      show thesis
        by (rule ok [OF found(1) _ p(1) found(3) p(2) _ alloc]) (use p out 2(1) in simp_all)
    qed
  next
    case inp: False
    consider "\<not> (0 \<le> portid \<and> portid < n)" | "0 \<le> portid" "portid < n" "(i, portid) \<in> used_port_set L n s"
      | "0 \<le> portid" "portid < n" "(i, portid) \<notin> used_port_set L n s" by blast
    then show thesis
    proof cases
      case 1
      then show thesis
        using invalid [of i] found inp laws np by (simp add: active_alloc_def Let_def ACTIVE_GET_NR_PORTS_def)
    next
      case 2
      then show thesis
        using busy [of i] found inp laws np used [of portid]
        by (simp add: active_alloc_def Let_def ACTIVE_GET_NR_PORTS_def)
    next
      case 3
      show thesis
        by (rule ok [OF found(1) 3(1,2) found(3) 3(3) _ alloc]) (use 3 inp in simp_all)
    qed
  qed
qed

section \<open>Reading a stored message\<close>

lemma read_clock_eq: "read_clock H s = (fst (clock_read H (hw s)), s\<lparr>hw := snd (clock_read H (hw s))\<rparr>)"
  by (simp add: read_clock_def split: prod.split)

lemma used_port_set_cong:
  assumes "length (actives s') = length (actives s)"
    and "\<And>i. i < length (actives s) \<Longrightarrow> channel_same n (actives s ! i) (actives s' ! i)"
  shows "used_port_set L n s' = used_port_set L n s"
  using assms by (auto simp: used_port_set_def channel_same_def)

lemma release_sender_spec:
  assumes laws: "klib_laws L" and inv: "noc_inv L n P A s"
    and buf: "sender_ok L n (length (actives s)) buf" "resource_is_used L (mb_resource buf)"
  obtains s' where "release_sender L buf s = Some s'" "noc_inv L n P A s'"
    "mbufs s' = mbufs s" "umem s' = umem s" "hw s' = hw s" "clock_error s' = clock_error s"
    "length (actives s') = length (actives s)" "owns s' n = owns s n"
    "\<And>i. i < length (actives s) \<Longrightarrow> channel_same n (actives s ! i) (actives s' ! i)"
    "\<And>p a. mb_actid buf = int a \<Longrightarrow> mb_portid buf = p \<Longrightarrow> 0 \<le> p \<Longrightarrow>
      a < length (actives s) \<and> p < n \<and> do_request_clear L p (actives s ! a) = Some (0, actives s' ! a)"
proof (cases "mb_actid buf \<ge> 0 \<and> mb_portid buf \<ge> 0")
  case True
  define i where "i = nat (mb_actid buf)"
  have i: "i < length (actives s)" "mb_actid buf = int i" and p: "0 \<le> mb_portid buf" "mb_portid buf < n"
    using True buf by (auto simp: sender_ok_def i_def)
  show thesis
  proof (rule ring_clear [OF laws noc_invD(2) [OF inv i(1)] p])
    fix a'
    assume a': "do_request_clear L (mb_portid buf) (actives s ! i) = Some (0, a')"
      "channel_ok L n P A a'" "channel_same n (actives s ! i) a'"
    have "release_sender L buf s = Some (set_active (int i) (\<lambda>_. a') s)"
      using True i a'(1) by (simp add: release_sender_def fetch_def)
    then show thesis
      by (rule that)
        (use noc_inv_channel_same [OF inv i(1) a'(2,3)] owns_channel_same [OF i(1) a'(3)] a' i p
          actives_set_active_nth [OF i(1)] in auto)
  qed
next
  case False
  then have "release_sender L buf s = Some s" by (auto simp: release_sender_def)
  then show thesis by (rule that) (use False inv in auto)
qed

lemma copy_to_user_simps [simp]:
  "actives (copy_to_user L a bs k s) = actives s" "mbufs (copy_to_user L a bs k s) = mbufs s"
  "hw (copy_to_user L a bs k s) = hw s" "clock_error (copy_to_user L a bs k s) = clock_error s"
  by (simp_all add: copy_to_user_def)

lemma umem_copy_to_user:
  "klib_laws L \<Longrightarrow> k \<le> length bs \<Longrightarrow> umem (copy_to_user L a bs k s) = store_bytes (umem s) a (take k bs)"
  by (simp add: copy_to_user_def klib_kmemcpy load_bytes_def)

lemma aread_stored_spec:
  assumes laws: "klib_laws L" and inv: "noc_inv L n P A s" and sub: "sub_pool B P"
    and j: "j < nmbuffers B" and buf: "buf = mb_table (mbufs s) ! (mbuffers B + j)" "stored L buf"
  obtains s' stats' where "aread_stored L H B (int j) config stats s = Some (ACTIVE_COMM_RECEIVED, stats', s')"
    "noc_inv L n P A s'" "pending L P (mbufs s') = remove1 buf (pending L P (mbufs s))"
    "cfg_size config \<le> length (data (mb_message buf)) \<Longrightarrow>
      umem s' = store_bytes (umem s) (cfg_buffer config) (take (cfg_size config) (data (mb_message buf)))"
    "ps_volume stats' = ps_volume stats + cfg_size config" "length (actives s') = length (actives s)"
    "\<And>i. i < length (actives s) \<Longrightarrow> channel_same n (actives s ! i) (actives s' ! i)"
    "\<And>p a. mb_actid buf = int a \<Longrightarrow> mb_portid buf = p \<Longrightarrow> 0 \<le> p \<Longrightarrow>
      a < length (actives s) \<and> p < n \<and> do_request_clear L p (actives s ! a) = Some (0, actives s' ! a)"
    "mb_table (mbufs s') = (mb_table (mbufs s))[mbuffers B + j := mbuffer_reset L buf]"
    "curr_age (mbufs s') = curr_age (mbufs s)"
proof -
  define i where "i = sub_index B P j"
  note idx = sub_index [OF sub j, folded i_def]
  define s1 where "s1 = (copy_to_user L (cfg_buffer config) (data (mb_message buf)) (cfg_size config)
    (s\<lparr>hw := snd (clock_read H (hw s))\<rparr>))\<lparr>hw := snd (clock_read H (snd (clock_read H (hw s))))\<rparr>"
  have s1: "noc_inv L n P A s1" "actives s1 = actives s" "mbufs s1 = mbufs s"
    using inv by (auto simp: s1_def elim: noc_inv_cong)
  have um: "umem s1 = store_bytes (umem s) (cfg_buffer config) (take (cfg_size config) (data (mb_message buf)))"
    if "cfg_size config \<le> length (data (mb_message buf))"
    by (simp add: s1_def umem_copy_to_user [OF laws that])
  have ub: "resource_is_used L (mb_resource buf)" "resource_is_busy L (mb_resource buf)"
    using buf by (auto simp: stored_def)
  have "sender_ok L n (length (actives s1)) buf"
    using noc_invD(3) [OF inv idx(1)] buf idx s1 by simp
  then show thesis
  proof (rule release_sender_spec [OF laws s1(1) _ ub(1)])
    fix s2
    assume s2: "release_sender L buf s1 = Some s2" "noc_inv L n P A s2" "mbufs s2 = mbufs s1"
      "umem s2 = umem s1" "length (actives s2) = length (actives s1)"
      "\<And>i. i < length (actives s1) \<Longrightarrow> channel_same n (actives s1 ! i) (actives s2 ! i)"
      "\<And>p a. mb_actid buf = int a \<Longrightarrow> mb_portid buf = p \<Longrightarrow> 0 \<le> p \<Longrightarrow>
        a < length (actives s1) \<and> p < n \<and> do_request_clear L p (actives s1 ! a) = Some (0, actives s2 ! a)"
    have b2: "buf = mb_table (mbufs s2) ! (mbuffers P + i)" using buf idx s1 s2 by simp
    have un: "\<not> owns s2 n k p (int i)" for k p
      by (rule mbuffer_used_unowned [OF s2(2)]) (use ub b2 in simp)
    show thesis
    proof (rule noc_mbuffer_discard [OF laws s2(2) idx(1) b2 ub(1) un])
      fix m'
      assume m': "mbuffer_release L P (int i) MBUFFER_DISCARD_MESSAGE (mbufs s2) = Some (0, m')"
        "noc_inv L n P A (s2\<lparr>mbufs := m'\<rparr>)" "curr_age m' = curr_age (mbufs s2)"
        "pending L P m' = (if stored L buf then remove1 buf (pending L P (mbufs s2)) else pending L P (mbufs s2))"
        "mb_table m' = (mb_table (mbufs s2))[mbuffers P + i := mbuffer_reset L buf]"
      have rel: "mbuffer_release L B (int j) MBUFFER_DISCARD_MESSAGE (mbufs s2) = Some (0, m')"
        using mbuffer_release_sub [OF laws sub j] m'(1) by (simp add: i_def)
      show thesis
        by (rule that [of _ "s2\<lparr>mbufs := m'\<rparr>"],
            simp add: aread_stored_def mbuffer_get_Some [OF laws j] read_clock_eq Let_def buf(1) [symmetric]
              s1_def [symmetric] s2(1) rel)
          (use m' s2 s1(2,3) um ub buf(2) idx in \<open>simp_all\<close>)
    qed
  qed
qed

section \<open>Taking and giving up a buffer\<close>

abbreviation (input) take_mbuffer :: "'r mbuffer_pool \<Rightarrow> int \<Rightarrow> 'r port \<Rightarrow> 'r port" where
  "take_mbuffer P b port \<equiv> port\<lparr>port_mbufferid := b, port_mbufferpool := Some P\<rparr>"

abbreviation (input) drop_mbuffer :: "'r port \<Rightarrow> 'r port" where
  "drop_mbuffer port \<equiv> port\<lparr>port_mbufferid := - 1, port_mbufferpool := None\<rparr>"

lemma set_active_mbufs: "set_active i f (s\<lparr>mbufs := m\<rparr>) = (set_active i f s)\<lparr>mbufs := m\<rparr>"
  by (simp add: set_active_def)

lemma owns_updates [simp]:
  "owns (s\<lparr>mbufs := m\<rparr>) = owns s" "owns (s\<lparr>hw := h\<rparr>) = owns s" "owns (s\<lparr>umem := u\<rparr>) = owns s"
  by (simp_all add: owns_def fun_eq_iff)

lemma noc_drop_mbuffer:
  assumes inv: "noc_inv L n P A s" and own: "owns s n i p b"
  shows "noc_inv L n P A (set_active (int i) (set_port p drop_mbuffer) s)"
    and "\<not> owns (set_active (int i) (set_port p drop_mbuffer) s) n j q b"
proof -
  have i: "i < length (actives s)" and p: "0 \<le> p" "p < n" using own by (auto simp: owns_def)
  show "noc_inv L n P A (set_active (int i) (set_port p drop_mbuffer) s)"
    by (rule noc_inv_set_owner [OF inv i p, where b = "- 1"]) simp_all
  show "\<not> owns (set_active (int i) (set_port p drop_mbuffer) s) n j q b"
    using owns_set_port [OF noc_invD(2) [OF inv i] i p, of drop_mbuffer j q b] noc_invD(6) [OF inv own]
    by (auto split: if_splits)
qed

text \<open>The buffer of a port is released and the port gives it up; when the message is
  kept it joins the queue of stored messages.\<close>

lemma noc_release_owned:
  assumes laws: "klib_laws L" and inv: "noc_inv L n P A s" and own: "owns s n i p b"
    and age: "rule = MBUFFER_KEEP_MESSAGE \<Longrightarrow> curr_age (mbufs s) \<noteq> - 1"
  obtains m' where "mbuffer_release L P b rule (mbufs s) = Some (0, m')"
    "noc_inv L n P A (set_active (int i) (set_port p drop_mbuffer) (s\<lparr>mbufs := m'\<rparr>))"
    "map mb_message (pending L P m') = map mb_message (pending L P (mbufs s)) @
      (if rule = MBUFFER_KEEP_MESSAGE then [mb_message (mb_table (mbufs s) ! (mbuffers P + nat b))] else [])"
    "resource_is_used L (mb_resource (mb_table m' ! (mbuffers P + nat b))) \<longleftrightarrow> rule = MBUFFER_KEEP_MESSAGE"
    "rule = MBUFFER_DISCARD_MESSAGE \<Longrightarrow> pending L P m' = pending L P (mbufs s)"
proof -
  let ?s = "set_active (int i) (set_port p drop_mbuffer) s" and ?k = "nat b"
  note ok = noc_invD(4) [OF inv own]
  have b: "b = int ?k" "?k < nmbuffers P" using ok own by (auto simp: owned_ok_def owns_def)
  have used: "resource_is_used L (mb_resource (mb_table (mbufs s) ! (mbuffers P + ?k)))"
    "\<not> resource_is_busy L (mb_resource (mb_table (mbufs s) ! (mbuffers P + ?k)))"
    using ok by (auto simp: owned_ok_def)
  note inv' = noc_drop_mbuffer [OF inv own]
  have un: "\<not> owns ?s n j q (int ?k)" for j q using inv'(2) b(1) by simp
  have len: "mbuffers P + ?k < length (mb_table (mbufs s))"
    using noc_invD(1) [OF inv] b(2) by (simp add: mbuffer_inv_def)
  show thesis
  proof (cases rule)
    case MBUFFER_KEEP_MESSAGE
    show thesis
      by (rule noc_mbuffer_keep [OF laws inv'(1) b(2) refl])
        (use used age un b(1) that MBUFFER_KEEP_MESSAGE len laws in \<open>auto simp: set_active_mbufs\<close>)
  next
    case MBUFFER_DISCARD_MESSAGE
    show thesis
      by (rule noc_mbuffer_discard [OF laws inv'(1) b(2) refl])
        (use used un b(1) that MBUFFER_DISCARD_MESSAGE len laws in
          \<open>auto simp: set_active_mbufs stored_def mbuffer_reset_def\<close>)
  qed
qed

section \<open>Setting up a read\<close>

lemma pending_set_mbuf:
  assumes "noc_inv L n P A s" "sub_pool B P" "i < nmbuffers B"
    and "\<not> stored L (mb_table (mbufs s) ! (mbuffers B + i))"
      "\<not> stored L (f (mb_table (mbufs s) ! (mbuffers B + i)))"
  shows "pending L B (mbufs (set_mbuf (mbuffers B + i) f s)) = pending L B (mbufs s)"
  using pending_update_other(2) [OF mbuffer_inv_sub [OF noc_invD(1) [OF assms(1)] assms(2)] assms(3-5)]
  by (simp add: set_mbuf_def)

lemma noc_inv_set_active_fields:
  assumes inv: "noc_inv L n P A s" and i: "i < length (actives s)"
    and f: "\<And>a. channel_ok L n P A (f a) = channel_ok L n P A a" "\<And>a. port_of (f a) = port_of a"
  shows "noc_inv L n P A (set_active (int i) f s)"
  by (rule noc_inv_set_active [OF inv i]) (use f noc_invD(2) [OF inv i] in simp_all)

text \<open>A port takes a buffer just allocated from the principal pool.\<close>

lemma noc_take_mbuffer:
  assumes laws: "klib_laws L" and inv: "noc_inv L n P A s" and i: "i < length (actives s)"
    and p: "0 \<le> p" "p < n"
  obtains (busy) "mbuffer_alloc L P (mbufs s) = (- EBUSY, mbufs s)"
      "\<forall>k < nmbuffers P. resource_is_used L (mb_resource (mb_table (mbufs s) ! (mbuffers P + k)))"
  | (fresh) k m' where "mbuffer_alloc L P (mbufs s) = (int k, m')" "k < nmbuffers P"
      "\<not> resource_is_used L (mb_resource (mb_table (mbufs s) ! (mbuffers P + k)))"
      "noc_inv L n P A (s\<lparr>mbufs := m'\<rparr>)"
      "noc_inv L n P A (set_active (int i) (set_port p (take_mbuffer P (int k))) (s\<lparr>mbufs := m'\<rparr>))"
      "owns (set_active (int i) (set_port p (take_mbuffer P (int k))) (s\<lparr>mbufs := m'\<rparr>)) n i p (int k)"
      "pending L P m' = pending L P (mbufs s)"
      "mb_message (mb_table m' ! (mbuffers P + k)) =
        MBUFFER_MESSAGE_INITIALIZER (mb_message (mb_table (mbufs s) ! (mbuffers P + k)))"
      "resource_is_used L (mb_resource (mb_table m' ! (mbuffers P + k)))" "\<And>j q. \<not> owns s n j q (int k)"
proof (cases rule: noc_mbuffer_alloc_cases [OF laws inv sub_pool_refl])
  case 1
  then show thesis by (rule busy)
next
  case (2 j k buf m')
  then have jk: "j = k" by simp
  let ?s = "s\<lparr>mbufs := m'\<rparr>"
  have inv': "noc_inv L n P A (set_active (int i) (set_port p (take_mbuffer P (int k))) ?s)"
    by (rule noc_inv_set_owner [OF 2(12), where b = "int k"])
      (use i p 2 in \<open>simp_all add: owned_ok_def\<close>)
  have own: "owns (set_active (int i) (set_port p (take_mbuffer P (int k))) ?s) n i p (int k)"
    using owns_set_port [OF noc_invD(2) [OF 2(12)] _ p, of i "take_mbuffer P (int k)" i p "int k"] i by simp
  show thesis
    by (rule fresh [of k m']) (use 2 jk inv' own in simp_all)
qed

lemma aread_setup_spec:
  assumes laws: "klib_laws L" and inv: "noc_inv L n P A s" and i: "i < length (actives s)"
    and p: "0 \<le> p" "p < n"
  obtains (failed) r s' where "aread_setup L H F (int i) p rmt stats s = Some (r, stats, s')" "r < 0"
      "noc_inv L n P A s'" "act_remote (actives s' ! i) = rmt"
      "pending L P (mbufs s') = pending L P (mbufs s)" "umem s' = umem s"
      "act_local (actives s' ! i) = act_local (actives s ! i)"
      "act_resource (actives s' ! i) = act_resource (actives s ! i)"
      "length (actives s') = length (actives s)" "\<And>j. j \<noteq> i \<Longrightarrow> actives s' ! j = actives s ! j"
  | (started) s' k where "aread_setup L H F (int i) p rmt stats s = Some (ACTIVE_COMM_SUCCESS, stats, s')"
      "noc_inv L n P A s'" "owns s' n i p (int k)" "act_remote (actives s' ! i) = - 1"
      "resource_is_busy L (act_resource (actives s' ! i))"
      "pending L P (mbufs s') = pending L P (mbufs s)" "umem s' = umem s"
proof -
  define s1 where "s1 = set_active (int i) (\<lambda>a. (active_set_allowed a)\<lparr>act_remote := rmt\<rparr>) s"
  have i1: "i < length (actives s1)" and m1: "mbufs s1 = mbufs s" and u1: "umem s1 = umem s"
    using i by (simp_all add: s1_def)
  have a1: "actives s1 ! i = (active_set_allowed (actives s ! i))\<lparr>act_remote := rmt\<rparr>"
    using i by (simp add: s1_def actives_set_active_nth)
  have P: "mbufferpool (actives s1 ! i) = P"
    using a1 channel_okD(1) [OF noc_invD(2) [OF inv i]] by (simp add: active_set_allowed_def)
  have inv1: "noc_inv L n P A s1"
    unfolding s1_def by (rule noc_inv_set_active_fields [OF inv i]) simp_all
  show thesis
  proof (cases rule: noc_take_mbuffer [OF laws inv1 i1 p])
    case 1
    then have "aread_setup L H F (int i) p rmt stats s = Some (- EBUSY, stats, s1)"
      using P by (simp add: aread_setup_def s1_def [symmetric] Let_def)
    then show thesis
      by (rule failed) (use inv1 a1 i m1 u1 in \<open>simp_all add: s1_def actives_set_active_nth active_set_allowed_def\<close>)
  next
    case (2 k m')
    define s2 where "s2 = set_active (int i) (set_port p (take_mbuffer P (int k))) (s1\<lparr>mbufs := m'\<rparr>)"
    obtain t1 h1 where c1: "clock_read H (hw s) = (t1, h1)" by fastforce
    obtain r h2 where rd: "do_aread F (hwfd (actives s1 ! i)) (mbuffers P + k) (act_size (actives s1 ! i)) h1 = (r, h2)"
      by fastforce
    obtain t2 h3 where c2: "clock_read H h2 = (t2, h3)" by fastforce
    define s3 where "s3 = s2\<lparr>hw := h2\<rparr>"
    have clk: "read_clock H s2 = (t1, s2\<lparr>hw := h1\<rparr>)" "read_clock H s3 = (t2, s3\<lparr>hw := h3\<rparr>)"
      using c1 c2 by (simp_all add: read_clock_def s3_def s2_def s1_def)
    have inv3: "noc_inv L n P A s3" and own3: "owns s3 n i p (int k)" and m3: "mbufs s3 = m'"
      and u3: "umem s3 = umem s" and i3: "i < length (actives s3)"
      using 2(5,6) i1 u1 by (simp_all add: s3_def s2_def)
    have a3: "actives s3 ! j = (if i = j then set_port p (take_mbuffer P (int k)) (actives s1 ! i) else actives s1 ! j)" for j
      using i1 by (simp add: s3_def s2_def set_active_mbufs actives_set_active_nth)
    have pend: "pending L P m' = pending L P (mbufs s)" using 2(7) m1 by simp
    have ms: "mbufs s2 = m'" by (simp add: s2_def)
    note run = aread_setup_def s1_def [symmetric] Let_def P 2(1) s2_def [symmetric]
      mbuffer_get_Some [OF laws 2(2)] clk rd s3_def [symmetric]
    show thesis
    proof (cases "r < 0")
      case True
      show thesis
      proof (rule noc_release_owned [OF laws inv3 own3, of MBUFFER_DISCARD_MESSAGE], simp)
        fix m2
        let ?s = "set_active (int i) (set_port p drop_mbuffer) (s3\<lparr>mbufs := m2\<rparr>)"
        assume m2: "mbuffer_release L P (int k) MBUFFER_DISCARD_MESSAGE (mbufs s3) = Some (0, m2)"
          "noc_inv L n P A ?s"
          "MBUFFER_DISCARD_MESSAGE = MBUFFER_DISCARD_MESSAGE \<Longrightarrow> pending L P m2 = pending L P (mbufs s3)"
        have "aread_setup L H F (int i) p rmt stats s = Some (r, stats, ?s)"
          using True m2(1) m3 by (simp add: run ms)
        then show thesis
          by (rule failed [OF _ True m2(2)])
            (use i3 a3 a1 m2(3) m3 pend u3 i in
              \<open>simp_all add: set_active_mbufs actives_set_active_nth s1_def active_set_allowed_def s3_def s2_def\<close>)
      qed
    next
      case False
      define s4 where "s4 = set_active (int i) (\<lambda>a. active_set_notallowed (a\<lparr>act_remote := - 1\<rparr>))
        (s3\<lparr>hw := h3\<rparr>)"
      define s5 where "s5 = set_mbuf (mbuffers P + k) (\<lambda>buf. buf\<lparr>mb_latency :=
        ACTIVE_COMPUTE_LATENCY s4 t1 t2\<rparr>) s4"
      define s6 where "s6 = set_active (int i) (\<lambda>a. a\<lparr>act_resource := resource_set_busy L (act_resource a)\<rparr>) s5"
      have inv4: "noc_inv L n P A s4"
        unfolding s4_def by (rule noc_inv_set_active_fields) (use inv3 i3 in simp_all)
      have inv5: "noc_inv L n P A s5"
        unfolding s5_def by (rule noc_inv_set_mbuf [OF inv4 2(2) refl])
          (use noc_invD(3) [OF inv4 2(2)] in \<open>simp_all add: sender_ok_def\<close>)
      have inv6: "noc_inv L n P A s6"
        unfolding s6_def by (rule noc_inv_set_active_fields [OF inv5]) (use i3 in \<open>simp_all add: s5_def s4_def set_mbuf_def\<close>)
      have "aread_setup L H F (int i) p rmt stats s = Some (ACTIVE_COMM_SUCCESS, stats, s6)"
        using False by (simp add: run s4_def s5_def s6_def)
      then show thesis
      proof (rule started [OF _ inv6])
        have a6: "actives s6 ! i = (active_set_notallowed ((actives s3 ! i)\<lparr>act_remote := - 1\<rparr>))
            \<lparr>act_resource := resource_set_busy L (act_resource (actives s3 ! i))\<rparr>"
          using i3 by (simp add: s6_def s5_def s4_def set_mbuf_def actives_set_active_nth active_set_notallowed_def)
        show "act_remote (actives s6 ! i) = - 1" "resource_is_busy L (act_resource (actives s6 ! i))"
          using laws by (simp_all add: a6 active_set_notallowed_def)
        show "owns s6 n i p (int k)"
          using own3 a6 i3 by (simp add: owns_def s6_def s5_def s4_def set_mbuf_def)
        have "mbufs s4 = m'" using m3 by (simp add: s4_def)
        moreover have "pending L P (mbufs s5) = pending L P (mbufs s4)"
          unfolding s5_def
          by (rule pending_set_mbuf [OF inv4 sub_pool_refl 2(2)])
            (use noc_invD(4) [OF inv3 own3] m3 in \<open>simp_all add: stored_def owned_ok_def s4_def\<close>)
        ultimately show "pending L P (mbufs s6) = pending L P (mbufs s)" using pend by (simp add: s6_def)
        show "umem s6 = umem s" using u3 by (simp add: s6_def s5_def s4_def set_mbuf_def)
      qed
    qed
  qed
qed

section \<open>Writing\<close>

lemma set_mbuf_simps [simp]:
  "actives (set_mbuf k f s) = actives s" "umem (set_mbuf k f s) = umem s" "hw (set_mbuf k f s) = hw s"
  "clock_error (set_mbuf k f s) = clock_error s" "curr_age (mbufs (set_mbuf k f s)) = curr_age (mbufs s)"
  "length (mb_table (mbufs (set_mbuf k f s))) = length (mb_table (mbufs s))"
  "k < length (mb_table (mbufs s)) \<Longrightarrow> mb_table (mbufs (set_mbuf k f s)) ! k = f (mb_table (mbufs s) ! k)"
  by (simp_all add: set_mbuf_def)

lemma owns_set_mbuf [simp]: "owns (set_mbuf k f s) = owns s"
  by (simp add: owns_def fun_eq_iff)

lemma set_mbuf_hw: "set_mbuf k f (s\<lparr>hw := h\<rparr>) = (set_mbuf k f s)\<lparr>hw := h\<rparr>"
  by (simp add: set_mbuf_def)

lemma set_mbuf_twice:
  "k < length (mb_table (mbufs s)) \<Longrightarrow> set_mbuf k g (set_mbuf k f s) = set_mbuf k (\<lambda>b. g (f b)) s"
  by (simp add: set_mbuf_def)

text \<open>The message as \<open>awrite_fill\<close> writes it.\<close>

definition addressed :: "active_config \<Rightarrow> byte list \<Rightarrow> mbuffer_message \<Rightarrow> mbuffer_message \<Rightarrow> bool" where
  "addressed config bytes old msg \<longleftrightarrow>
    hdr_dest (header msg) = cfg_remote_addr config \<and> hdr_src (header msg) = cfg_local_addr config
    \<and> (cfg_size config \<le> length (data old) \<longrightarrow>
        data msg = bytes @ drop (cfg_size config) (data old))"

text \<open>The last lines of \<open>active_wait\<close>: the buffer is released, the port gives it up and the
  channel is free again.\<close>

definition wait_close :: "'r klib \<Rightarrow> nat \<Rightarrow> int \<Rightarrow> 'r mbuffer_mem \<Rightarrow> ('r, 'h) noc \<Rightarrow> ('r, 'h) noc" where
  "wait_close L i p m s = set_active (int i) (\<lambda>a. (set_port p drop_mbuffer a)\<lparr>act_resource :=
     resource_set_notbusy L (act_resource a)\<rparr>) (s\<lparr>mbufs := m\<rparr>)"

text \<open>The results of waiting on a channel, given the status of the device.\<close>

definition wait_result ::
  "'r klib \<Rightarrow> ('r, 'h) active_functions \<Rightarrow> int \<Rightarrow> 'r mbuffer_pool \<Rightarrow> nat \<Rightarrow> int \<Rightarrow> 'r mbuffer \<Rightarrow> int \<Rightarrow> active_config \<Rightarrow> ('r, 'h) noc \<Rightarrow> int \<Rightarrow> ('r, 'h) noc \<Rightarrow> bool" where
  "wait_result L F n P i p buf ret config s ret' s' \<longleftrightarrow>
    (let a = actives s ! i; a' = actives s' ! i;
         msgs = map mb_message (pending L P (mbufs s)); msgs' = map mb_message (pending L P (mbufs s'))
     in if ret \<noteq> 0
        then ret' = ret \<and> umem s' = umem s \<and> msgs' = msgs \<and> requests a' = requests a
        else if resource_is_readable L (act_resource a)
        then requests a' = requests a \<and>
          (if do_header_check F buf config
           then ret' = ACTIVE_COMM_SUCCESS \<and> msgs' = msgs
             \<and> (cfg_size config \<le> length (data (mb_message buf)) \<longrightarrow> umem s' =
                 store_bytes (umem s) (cfg_buffer config) (take (cfg_size config) (data (mb_message buf))))
           else ret' = ACTIVE_COMM_AGAIN \<and> umem s' = umem s
             \<and> msgs' = msgs @ (if (i, get_portid F (hdr_dest (header (mb_message buf)))) \<in> used_port_set L n s
                 then [mb_message buf] else []))
        else ret' = ACTIVE_COMM_SUCCESS \<and> umem s' = umem s \<and> msgs' = msgs
          \<and> (resource_is_writable L (act_resource a) \<longrightarrow>
               waiting_ports (requests a) = p # waiting_ports (requests a')))"

text \<open>What is assumed of the device when a transfer ends: it writes into no buffer but the
  one the port gave it, and a successful read leaves there a message addressed to a
  port number that exists.\<close>

definition device_delivers :: "'r klib \<Rightarrow> ('r, 'h) active_functions \<Rightarrow> int \<Rightarrow> 'r mbuffer_pool \<Rightarrow> 'h \<Rightarrow> 'r active \<Rightarrow> int \<Rightarrow> bool" where
  "device_delivers L F n P h a p \<longleftrightarrow>
    (\<forall>ret d h'. do_wait F (hwfd a) h = (ret, d, h') \<longrightarrow>
      (case d of None \<Rightarrow> ret \<noteq> 0 \<or> \<not> resource_is_readable L (act_resource a)
       | Some (k, msg) \<Rightarrow> k = mbuffers P + nat (port_mbufferid (port_of a p))
           \<and> 0 \<le> get_portid F (hdr_dest (header msg)) \<and> get_portid F (hdr_dest (header msg)) < n))"

context facility
begin

lemma awrite_fill_spec:
  assumes laws: "klib_laws L" and inv: "noc_inv L n P A s" and k: "k < nmbuffers P"
    and buf: "buf = mb_table (mbufs s) ! (mbuffers P + k)" "\<not> stored L buf"
  obtains buf' h where "awrite_fill L H F (mbuffers P + k) config s =
      (set_mbuf (mbuffers P + k) (\<lambda>_. buf') s)\<lparr>hw := h\<rparr>"
    "noc_inv L n P A (set_mbuf (mbuffers P + k) (\<lambda>_. buf') s)"
    "pending L P (mbufs (set_mbuf (mbuffers P + k) (\<lambda>_. buf') s)) = pending L P (mbufs s)"
    "mb_resource buf' = mb_resource buf" "mb_actid buf' = mb_actid buf" "mb_portid buf' = mb_portid buf"
    "addressed config (load_bytes (umem s) (cfg_buffer config) (cfg_size config)) (mb_message buf) (mb_message buf')"
proof -
  let ?bytes = "load_bytes (umem s) (cfg_buffer config) (cfg_size config)" and ?k = "mbuffers P + k"
  obtain t1 h1 where c1: "clock_read H (hw s) = (t1, h1)" by fastforce
  obtain t2 h2 where c2: "clock_read H h1 = (t2, h2)" by fastforce
  define buf1 where "buf1 = do_header_config F buf config"
  define buf' where "buf' = buf1\<lparr>mb_message := (mb_message buf1)
    \<lparr>data := kmemcpy L (data (mb_message buf1)) ?bytes (cfg_size config)\<rparr>,
    mb_latency := (t2 - t1) - clock_error s\<rparr>"
  have len: "?k < length (mb_table (mbufs s))"
    using noc_invD(1) [OF inv] k by (simp add: mbuffer_inv_def)
  have fill: "awrite_fill L H F ?k config s = (set_mbuf ?k (\<lambda>_. buf') s)\<lparr>hw := h2\<rparr>"
    using len c1 c2
    by (simp add: awrite_fill_def read_clock_def Let_def ACTIVE_COMPUTE_LATENCY_def set_mbuf_def
        buf'_def buf1_def buf(1) load_bytes_def)
  have same: "mb_resource buf' = mb_resource buf" "mb_age buf' = mb_age buf"
    "mb_actid buf' = mb_actid buf" "mb_portid buf' = mb_portid buf"
    by (simp_all add: buf'_def buf1_def config_same)
  have inv': "noc_inv L n P A (set_mbuf ?k (\<lambda>_. buf') s)"
    by (rule noc_inv_set_mbuf [OF inv k refl])
      (use same noc_invD(3) [OF inv k] in \<open>simp_all add: sender_ok_def flip: buf\<close>)
  have pend: "pending L P (mbufs (set_mbuf ?k (\<lambda>_. buf') s)) = pending L P (mbufs s)"
    by (rule pending_set_mbuf [OF inv sub_pool_refl k]) (use same(1) buf in \<open>simp_all add: stored_def\<close>)
  have "addressed config ?bytes (mb_message buf) (mb_message buf')"
    using laws by (auto simp: addressed_def buf'_def buf1_def config_header config_same
        klib_kmemcpy load_bytes_def)
  then show thesis using that [OF fill inv' pend same(1,3,4)] by blast
qed

lemma set_active_same: "set_active (int i) (\<lambda>_. actives s ! i) s = s"
  by (simp add: set_active_def)

lemma forward_store_spec:
  assumes laws: "klib_laws L" and inv: "noc_inv L n P A s" and i: "i < length (actives s)"
    and p: "0 \<le> p" "p < n" and j: "j < nmbuffers A"
    and buf: "resource_is_used L (mb_resource (mb_table (mbufs s) ! (mbuffers A + j)))"
      "\<not> resource_is_busy L (mb_resource (mb_table (mbufs s) ! (mbuffers A + j)))"
    and un: "\<And>q r. \<not> owns s n q r (int (sub_index A P j))" and age: "curr_age (mbufs s) \<noteq> - 1"
  obtains m' h stats' buf where
    "forward_store L H F (int i) p A (int j) config stats s =
      Some (ACTIVE_COMM_RECEIVED, stats', s\<lparr>mbufs := m', hw := h\<rparr>)"
    "noc_inv L n P A (s\<lparr>mbufs := m', hw := h\<rparr>)"
    "pending L P m' = pending L P (mbufs s) @ [buf]" "pending L A m' = pending L A (mbufs s) @ [buf]"
    "stored L buf" "mb_actid buf = int i" "mb_portid buf = p"
    "addressed config (load_bytes (umem s) (cfg_buffer config) (cfg_size config))
      (mb_message (mb_table (mbufs s) ! (mbuffers A + j))) (mb_message buf)"
    "ps_volume stats' = ps_volume stats + cfg_size config"
proof -
  define k where "k = sub_index A P j"
  note idx = sub_index [OF aux_pool j, folded k_def]
  have len: "mbuffers P + k < length (mb_table (mbufs s))"
    using noc_invD(1) [OF inv] idx(1) by (simp add: mbuffer_inv_def)
  have ns: "\<not> stored L (mb_table (mbufs s) ! (mbuffers P + k))" using buf idx by (simp add: stored_def)
  show thesis
  proof (rule awrite_fill_spec [OF laws inv idx(1) refl ns, of H config])
    fix buf1 h
    let ?s1 = "set_mbuf (mbuffers P + k) (\<lambda>_. buf1) s"
    let ?f = "\<lambda>buf. buf\<lparr>mb_actid := int i, mb_portid := p\<rparr>"
    assume fill: "awrite_fill L H F (mbuffers P + k) config s = ?s1\<lparr>hw := h\<rparr>" and inv1: "noc_inv L n P A ?s1"
      and pend1: "pending L P (mbufs ?s1) = pending L P (mbufs s)"
      and b1: "mb_resource buf1 = mb_resource (mb_table (mbufs s) ! (mbuffers P + k))"
      and msg: "addressed config (load_bytes (umem s) (cfg_buffer config) (cfg_size config))
        (mb_message (mb_table (mbufs s) ! (mbuffers P + k))) (mb_message buf1)"
    define s2 where "s2 = set_mbuf (mbuffers P + k) (\<lambda>_. ?f buf1) s"
    have s2: "s2 = set_mbuf (mbuffers P + k) ?f ?s1" using len by (simp add: s2_def set_mbuf_def)
    have b2: "mb_table (mbufs s2) ! (mbuffers P + k) = ?f buf1" using len by (simp add: s2_def)
    have inv2: "noc_inv L n P A s2"
      unfolding s2 by (rule noc_inv_set_mbuf [OF inv1 idx(1) refl]) (use len i p in \<open>simp_all add: sender_ok_def\<close>)
    have pend2: "pending L P (mbufs s2) = pending L P (mbufs s)" "pending L A (mbufs s2) = pending L A (mbufs s)"
      using pending_set_mbuf [OF inv sub_pool_refl idx(1) ns, of "\<lambda>_. ?f buf1"]
        pending_set_mbuf [OF inv aux_pool j, of "\<lambda>_. ?f buf1"] ns b1 idx(2)
      by (simp_all add: s2_def stored_def)
    have used: "resource_is_used L (mb_resource (?f buf1))" "\<not> resource_is_busy L (mb_resource (?f buf1))"
      using buf b1 idx by simp_all
    show thesis
    proof (rule noc_mbuffer_keep [OF laws inv2 idx(1) b2 [symmetric] used])
      fix m'
      let ?b = "(?f buf1)\<lparr>mb_age := curr_age (mbufs s2), mb_resource := resource_set_busy L (mb_resource (?f buf1))\<rparr>"
      assume m': "mbuffer_release L P (int k) MBUFFER_KEEP_MESSAGE (mbufs s2) = Some (0, m')"
        "noc_inv L n P A (s2\<lparr>mbufs := m'\<rparr>)" "pending L P m' = pending L P (mbufs s2) @ [?b]"
      have rel: "mbuffer_release L A (int j) MBUFFER_KEEP_MESSAGE (mbufs s2) = Some (0, m')"
        using mbuffer_release_sub [OF laws aux_pool j] m'(1) by (simp add: k_def)
      have bA: "?f buf1 = mb_table (mbufs s2) ! (mbuffers A + j)" using b2 idx(2) by simp
      have age2: "curr_age (mbufs s2) \<noteq> - 1" using age by (simp add: s2_def)
      have pendA: "pending L A m' = pending L A (mbufs s2) @ [?b]"
        by (rule mbuffer_keep [OF laws mbuffer_inv_sub [OF noc_invD(1) [OF inv2] aux_pool] j bA used age2])
          (use rel in simp)
      have st: "s2\<lparr>hw := h, mbufs := m'\<rparr> = s\<lparr>mbufs := m', hw := h\<rparr>" by (simp add: s2_def set_mbuf_def)
      have "forward_store L H F (int i) p A (int j) config stats s =
        Some (ACTIVE_COMM_RECEIVED, stats\<lparr>ps_latency := ps_latency stats + mb_latency (mb_table m' ! (mbuffers P + k)),
          ps_volume := ps_volume stats + cfg_size config\<rparr>, s\<lparr>mbufs := m', hw := h\<rparr>)"
        using rel st by (simp add: forward_store_def mbuffer_get_Some [OF laws j] idx(2) fill Let_def
            set_mbuf_hw flip: s2)
      moreover have "noc_inv L n P A (s\<lparr>mbufs := m', hw := h\<rparr>)"
        using m'(2) unfolding st [symmetric] by (auto elim: noc_inv_cong)
      ultimately show thesis
        by (rule that [where buf = ?b]) (use m' pendA pend2 laws used msg idx(2) in \<open>simp_all add: stored_def\<close>)
    qed (use un age in \<open>simp_all add: s2_def k_def\<close>)
  qed
qed

lemma awrite_forward_spec:
  assumes laws: "klib_laws L" and inv: "noc_inv L n P A s" and i: "i < length (actives s)"
    and p: "0 \<le> p" "p < n" and age: "curr_age (mbufs s) \<noteq> - 1"
  obtains (refused) "awrite_forward L H F (int i) p config stats s = Some (- EBUSY, stats, s)"
      "port_is_requested (port_of (actives s ! i) p)
        \<or> \<not> length (waiting_ports (requests (actives s ! i))) < nat (max_capacity (requests (actives s ! i)))"
  | (nobuf) a' where "awrite_forward L H F (int i) p config stats s =
        Some (- EBUSY, stats, set_active (int i) (\<lambda>_. a') s)"
      "noc_inv L n P A (set_active (int i) (\<lambda>_. a') s)" "channel_same n (actives s ! i) a'"
      "port_is_requested (port_of a' p)"
      "\<forall>j < nmbuffers A. resource_is_used L (mb_resource (mb_table (mbufs s) ! (mbuffers A + j)))"
  | (sent) a' m' h stats' buf j where "awrite_forward L H F (int i) p config stats s =
        Some (ACTIVE_COMM_RECEIVED, stats', (set_active (int i) (\<lambda>_. a') s)\<lparr>mbufs := m', hw := h\<rparr>)"
      "noc_inv L n P A ((set_active (int i) (\<lambda>_. a') s)\<lparr>mbufs := m', hw := h\<rparr>)"
      "channel_same n (actives s ! i) a'"
      "waiting_ports (requests a') = waiting_ports (requests (actives s ! i)) @ [p]"
      "pending L P m' = pending L P (mbufs s) @ [buf]" "pending L A m' = pending L A (mbufs s) @ [buf]"
      "stored L buf" "mb_actid buf = int i" "mb_portid buf = p" "j < nmbuffers A"
      "addressed config (load_bytes (umem s) (cfg_buffer config) (cfg_size config))
        (MBUFFER_MESSAGE_INITIALIZER (mb_message (mb_table (mbufs s) ! (mbuffers A + j)))) (mb_message buf)"
      "ps_volume stats' = ps_volume stats + cfg_size config"
proof (cases "port_is_requested (port_of (actives s ! i) p)")
  case True
  then show thesis using refused by (simp add: awrite_forward_def)
next
  case nreq: False
  note chan = noc_invD(2) [OF inv i]
  show thesis
  proof (cases rule: ring_request [OF laws chan p])
    case 1
    then have "awrite_forward L H F (int i) p config stats s = Some (- EBUSY, stats, s)"
      using nreq by (simp add: awrite_forward_def set_active_same)
    then show thesis using refused 1(2) by blast
  next
    case (2 a')
    define s1 where "s1 = set_active (int i) (\<lambda>_. a') s"
    have inv1: "noc_inv L n P A s1" unfolding s1_def by (rule noc_inv_channel_same [OF inv i 2(2,3)])
    have m1: "mbufs s1 = mbufs s" "umem s1 = umem s" "length (actives s1) = length (actives s)"
      by (simp_all add: s1_def)
    have A: "mbufferpool_aux (actives s ! i) = A" using channel_okD(2) [OF chan] .
    show thesis
    proof (cases rule: noc_mbuffer_alloc_cases [OF laws inv1 aux_pool])
      case 1
      have "awrite_forward L H F (int i) p config stats s = Some (- EBUSY, stats, s1)"
        using nreq 2(1) 1(1) A by (simp add: awrite_forward_def Let_def s1_def)
      then show thesis using nobuf [of a'] 2(3,4) inv1 1(2) m1 by (simp add: s1_def)
    next
      case alloc: (2 j k buf m2)
      have inv2: "noc_inv L n P A (s1\<lparr>mbufs := m2\<rparr>)" using alloc(12) .
      have "awrite_forward L H F (int i) p config stats s =
          forward_store L H F (int i) p A (int j) config stats (s1\<lparr>mbufs := m2\<rparr>)"
        using nreq 2(1) alloc(4) A by (simp add: awrite_forward_def Let_def s1_def)
      note run = this
      have k: "sub_index A P j = k" using alloc(2) aux_pool by (simp add: sub_pool_def sub_index_def)
      have un: "\<not> owns (s1\<lparr>mbufs := m2\<rparr>) n q r (int (sub_index A P j))" for q r
        using alloc(13) k by simp
      have age2: "curr_age (mbufs (s1\<lparr>mbufs := m2\<rparr>)) \<noteq> - 1" using age alloc(5) m1 by simp
      have tab: "mb_table (mbufs (s1\<lparr>mbufs := m2\<rparr>)) ! (mbuffers A + j) = buf" using alloc(2,6) by simp
      show thesis
      proof (rule forward_store_spec [OF laws inv2 _ p alloc(1) _ _ un age2, of i H config stats])
        fix m' h stats' buf'
        assume r: "forward_store L H F (int i) p A (int j) config stats (s1\<lparr>mbufs := m2\<rparr>) =
            Some (ACTIVE_COMM_RECEIVED, stats', s1\<lparr>mbufs := m2\<rparr>\<lparr>mbufs := m', hw := h\<rparr>)"
          "noc_inv L n P A (s1\<lparr>mbufs := m2\<rparr>\<lparr>mbufs := m', hw := h\<rparr>)"
          "pending L P m' = pending L P (mbufs (s1\<lparr>mbufs := m2\<rparr>)) @ [buf']"
          "pending L A m' = pending L A (mbufs (s1\<lparr>mbufs := m2\<rparr>)) @ [buf']"
          "stored L buf'" "mb_actid buf' = int i" "mb_portid buf' = p"
          "addressed config (load_bytes (umem (s1\<lparr>mbufs := m2\<rparr>)) (cfg_buffer config) (cfg_size config))
            (mb_message (mb_table (mbufs (s1\<lparr>mbufs := m2\<rparr>)) ! (mbuffers A + j))) (mb_message buf')"
          "ps_volume stats' = ps_volume stats + cfg_size config"
        have old: "mb_message buf = MBUFFER_MESSAGE_INITIALIZER (mb_message (mb_table (mbufs s) ! (mbuffers A + j)))"
          using alloc(2,11) m1 by simp
        show thesis
          by (rule sent [where a' = a' and m' = m' and h = h and stats' = stats' and buf = buf' and j = j])
            (use run r 2 alloc(1,15,16) m1 tab old in \<open>simp_all add: s1_def\<close>)
      qed (use i m1 alloc(7,8) tab in simp_all)
    qed
  qed
qed

lemma awrite_request:
  assumes laws: "klib_laws L" and chan: "channel_ok L n P A a" and p: "0 \<le> p" "p < n"
  obtains r0 a' where "(if \<not> port_is_requested (port_of a p) then do_request_operation L p a else Some (0, a)) = Some (r0, a')"
    "channel_ok L n P A a'" "channel_same n a a'"
    "r0 < 0 \<Longrightarrow> \<not> length (waiting_ports (requests a)) < nat (max_capacity (requests a))"
proof (cases "port_is_requested (port_of a p)")
  case True
  then show thesis using that [of 0 a] chan by simp
next
  case nreq: False
  show thesis
  proof (cases rule: ring_request [OF laws chan p])
    case 1
    then show thesis using that [of "- EBUSY" a] nreq chan by simp
  next
    case (2 a')
    then show thesis using that [of 0 a'] nreq by simp
  qed
qed

text \<open>The device is driven only when the port has its turn and the channel is not busy.\<close>

lemma awrite_send_spec:
  assumes laws: "klib_laws L" and inv: "noc_inv L n P A s" and own: "owns s n i p (int k)"
  obtains (waiting) a' where "awrite_send L H F (int i) p (mbuffers P + k) stats s =
        Some (- EBUSY, stats, set_active (int i) (\<lambda>_. a') s)"
      "noc_inv L n P A (set_active (int i) (\<lambda>_. a') s)" "channel_same n (actives s ! i) a'"
      "(\<nexists>ps. waiting_ports (requests a') = p # ps) \<or> resource_is_busy L (act_resource (actives s ! i))
        \<or> \<not> length (waiting_ports (requests (actives s ! i))) < nat (max_capacity (requests (actives s ! i)))"
  | (failed) a' r h ps where "awrite_send L H F (int i) p (mbuffers P + k) stats s =
        Some (r, stats, (set_active (int i) (\<lambda>_. a') s)\<lparr>hw := h\<rparr>)" "r < 0"
      "noc_inv L n P A (set_active (int i) (\<lambda>_. a') s)" "channel_same n (actives s ! i) a'"
      "waiting_ports (requests a') = p # ps" "\<not> resource_is_busy L (act_resource (actives s ! i))"
  | (started) s' a' r h ps where "awrite_send L H F (int i) p (mbuffers P + k) stats s =
        Some (ACTIVE_COMM_SUCCESS, stats, s')" "noc_inv L n P A s'" "owns s' n i p (int k)"
      "channel_same n (actives s ! i) a'" "waiting_ports (requests a') = p # ps"
      "actives s' ! i = a'\<lparr>act_resource := resource_set_busy L (act_resource a')\<rparr>"
      "\<not> resource_is_busy L (act_resource (actives s ! i))"
      "do_awrite F (hwfd (actives s ! i)) (mb_message (mb_table (mbufs s) ! (mbuffers P + k)))
        (act_size (actives s ! i)) (snd (clock_read H (hw s))) = (r, h)" "0 \<le> r"
      "hw s' = snd (clock_read H h)" "pending L P (mbufs s') = pending L P (mbufs s)" "umem s' = umem s"
      "mb_message (mb_table (mbufs s') ! (mbuffers P + k)) = mb_message (mb_table (mbufs s) ! (mbuffers P + k))"
proof -
  have i: "i < length (actives s)" and p: "0 \<le> p" "p < n" using own by (auto simp: owns_def)
  note chan = noc_invD(2) [OF inv i]
  have k: "k < nmbuffers P" using noc_invD(4) [OF inv own] by (simp add: owned_ok_def)
  obtain r0 a' where req: "(if \<not> port_is_requested (port_of (actives s ! i) p)
        then do_request_operation L p (actives s ! i) else Some (0, actives s ! i)) = Some (r0, a')"
      and a': "channel_ok L n P A a'" "channel_same n (actives s ! i) a'"
      and full: "r0 < 0 \<Longrightarrow> \<not> length (waiting_ports (requests (actives s ! i))) < nat (max_capacity (requests (actives s ! i)))"
    using awrite_request [OF laws chan p] by blast
  let ?s1 = "set_active (int i) (\<lambda>_. a') s"
  have inv1: "noc_inv L n P A ?s1" by (rule noc_inv_channel_same [OF inv i a'])
  have own1: "owns ?s1 n i p (int k)" using owns_channel_same [OF i a'(2)] own by simp
  have same: "act_resource a' = act_resource (actives s ! i)" "hwfd a' = hwfd (actives s ! i)"
    "act_size a' = act_size (actives s ! i)" using a'(2) by (simp_all add: channel_same_def)
  note ver = ring_verify [OF laws a'(1) p]
  consider "r0 < 0 \<or> (\<nexists>ps. waiting_ports (requests a') = p # ps) \<or> resource_is_busy L (act_resource a')"
    | ps where "\<not> r0 < 0" "waiting_ports (requests a') = p # ps" "\<not> resource_is_busy L (act_resource a')" by blast
  then show thesis
  proof cases
    case 1
    then have "awrite_send L H F (int i) p (mbuffers P + k) stats s = Some (- EBUSY, stats, ?s1)"
      using req ver by (auto simp: awrite_send_def Let_def)
    then show thesis by (rule waiting) (use inv1 a' 1 full same in auto)
  next
    case (2 ps)
    obtain t1 h1 where c1: "clock_read H (hw s) = (t1, h1)" by fastforce
    obtain r h2 where wr: "do_awrite F (hwfd (actives s ! i)) (mb_message (mb_table (mbufs s) ! (mbuffers P + k)))
        (act_size (actives s ! i)) h1 = (r, h2)" by fastforce
    obtain t2 h3 where c2: "clock_read H h2 = (t2, h3)" by fastforce
    show thesis
    proof (cases "r < 0")
      case True
      then have "awrite_send L H F (int i) p (mbuffers P + k) stats s = Some (r, stats, ?s1\<lparr>hw := h2\<rparr>)"
        using req ver 2 c1 wr same by (simp add: awrite_send_def Let_def read_clock_def)
      then show thesis by (rule failed [OF _ True inv1 a'(2) 2(2)]) (use 2 same in simp)
    next
      case False
      let ?f = "\<lambda>buf. buf\<lparr>mb_latency := (t2 - t1) - clock_error s\<rparr>"
      define s2 where "s2 = set_mbuf (mbuffers P + k) ?f ?s1"
      define s3 where "s3 = set_active (int i) (\<lambda>a. a\<lparr>act_resource := resource_set_busy L (act_resource a)\<rparr>) s2"
      have "awrite_send L H F (int i) p (mbuffers P + k) stats s = Some (ACTIVE_COMM_SUCCESS, stats, s3\<lparr>hw := h3\<rparr>)"
        using False req ver 2 c1 c2 wr same
        by (simp add: awrite_send_def Let_def read_clock_def s3_def s2_def ACTIVE_COMPUTE_LATENCY_def set_mbuf_def set_active_def)
      moreover have inv2: "noc_inv L n P A s2"
        unfolding s2_def by (rule noc_inv_set_mbuf [OF inv1 k refl])
          (use noc_invD(3) [OF inv1 k] in \<open>simp_all add: sender_ok_def\<close>)
      have i2: "i < length (actives s2)" using i by (simp add: s2_def)
      have "noc_inv L n P A (s3\<lparr>hw := h3\<rparr>)"
        unfolding s3_def noc_inv_updates by (rule noc_inv_set_active_fields [OF inv2 i2]) simp_all
      moreover have a3: "actives s3 ! i = a'\<lparr>act_resource := resource_set_busy L (act_resource a')\<rparr>"
        using i by (simp add: s3_def s2_def actives_set_active_nth)
      moreover have "owns (s3\<lparr>hw := h3\<rparr>) n i p (int k)"
        using own1 i a3 by (simp add: owns_def s3_def s2_def actives_set_active_nth)
      moreover have "pending L P (mbufs s2) = pending L P (mbufs ?s1)"
        unfolding s2_def by (rule pending_set_mbuf [OF inv1 sub_pool_refl k])
          (use noc_invD(4) [OF inv1 own1] in \<open>simp_all add: stored_def owned_ok_def\<close>)
      moreover have "mb_message (mb_table (mbufs s2) ! (mbuffers P + k)) = mb_message (mb_table (mbufs s) ! (mbuffers P + k))"
        using k noc_invD(1) [OF inv] by (simp add: s2_def set_mbuf_def mbuffer_inv_def)
      ultimately show thesis
        using started [of "s3\<lparr>hw := h3\<rparr>" a' ps r h2] a' 2 same c1 c2 wr False
        by (simp add: s3_def s2_def)
    qed
  qed
qed

section \<open>Waiting\<close>

text \<open>The effect of a completed transfer on the ring, the user's memory and the queue,
  before the buffer is released.\<close>

lemma wait_finish_spec:
  assumes laws: "klib_laws L" and inv: "noc_inv L n P A s" and own: "owns s n i p (int k)"
    and fd: "get_actid F fd = int i" "get_portid F fd = p"
    and buf: "buf = mb_table (mbufs s) ! (mbuffers P + k)"
    and turn: "resource_is_writable L (act_resource (actives s ! i)) \<Longrightarrow>
      \<exists>ps. waiting_ports (requests (actives s ! i)) = p # ps"
    and dest: "resource_is_readable L (act_resource (actives s ! i)) \<Longrightarrow> \<not> do_header_check F buf config \<Longrightarrow>
      0 \<le> get_portid F (hdr_dest (header (mb_message buf))) \<and> get_portid F (hdr_dest (header (mb_message buf))) < n"
  obtains (consumed) s' where "wait_finish L H F fd (mbuffers P + k) config s =
        Some (ACTIVE_COMM_SUCCESS, MBUFFER_DISCARD_MESSAGE, s')"
      "resource_is_readable L (act_resource (actives s ! i))" "do_header_check F buf config"
      "noc_inv L n P A s'" "actives s' = actives s" "curr_age (mbufs s') = curr_age (mbufs s)"
      "pending L P (mbufs s') = pending L P (mbufs s)"
      "cfg_size config \<le> length (data (mb_message buf)) \<Longrightarrow>
        umem s' = store_bytes (umem s) (cfg_buffer config) (take (cfg_size config) (data (mb_message buf)))"
  | (other) keep where "wait_finish L H F fd (mbuffers P + k) config s = Some (ACTIVE_COMM_AGAIN, keep, s)"
      "resource_is_readable L (act_resource (actives s ! i))" "\<not> do_header_check F buf config"
      "keep = (if (i, get_portid F (hdr_dest (header (mb_message buf)))) \<in> used_port_set L n s
        then MBUFFER_KEEP_MESSAGE else MBUFFER_DISCARD_MESSAGE)"
  | (written) a' ps where "wait_finish L H F fd (mbuffers P + k) config s =
        Some (ACTIVE_COMM_SUCCESS, MBUFFER_DISCARD_MESSAGE, set_active (int i) (\<lambda>_. a') s)"
      "resource_is_writable L (act_resource (actives s ! i))"
      "\<not> resource_is_readable L (act_resource (actives s ! i))"
      "waiting_ports (requests (actives s ! i)) = p # ps" "waiting_ports (requests a') = ps"
      "channel_ok L n P A a'" "channel_same n (actives s ! i) a'" "\<not> port_is_requested (port_of a' p)"
  | (plain) "wait_finish L H F fd (mbuffers P + k) config s =
        Some (ACTIVE_COMM_SUCCESS, MBUFFER_DISCARD_MESSAGE, s)"
      "\<not> resource_is_readable L (act_resource (actives s ! i))" "\<not> resource_is_writable L (act_resource (actives s ! i))"
proof -
  have i: "i < length (actives s)" and p: "0 \<le> p" "p < n" using own by (auto simp: owns_def)
  note chan = noc_invD(2) [OF inv i]
  have k: "k < nmbuffers P" using noc_invD(4) [OF inv own] by (simp add: owned_ok_def)
  consider "resource_is_readable L (act_resource (actives s ! i))" "do_header_check F buf config"
    | "resource_is_readable L (act_resource (actives s ! i))" "\<not> do_header_check F buf config"
    | "\<not> resource_is_readable L (act_resource (actives s ! i))" "resource_is_writable L (act_resource (actives s ! i))"
    | "\<not> resource_is_readable L (act_resource (actives s ! i))" "\<not> resource_is_writable L (act_resource (actives s ! i))"
    by blast
  then show thesis
  proof cases
    case 1
    obtain t1 h1 where c1: "clock_read H (hw s) = (t1, h1)" by fastforce
    obtain t2 h2 where c2: "clock_read H h1 = (t2, h2)" by fastforce
    let ?f = "\<lambda>buf. buf\<lparr>mb_latency := mb_latency buf + ((t2 - t1) - clock_error s)\<rparr>"
    define s1 where "s1 = set_mbuf (mbuffers P + k) ?f s"
    define u where "u = umem (copy_to_user L (cfg_buffer config) (data (mb_message buf)) (cfg_size config) s)"
    have inv1: "noc_inv L n P A s1"
      unfolding s1_def by (rule noc_inv_set_mbuf [OF inv k refl])
        (use noc_invD(3) [OF inv k] in \<open>simp_all add: sender_ok_def\<close>)
    have pend: "pending L P (mbufs s1) = pending L P (mbufs s)"
      unfolding s1_def by (rule pending_set_mbuf [OF inv sub_pool_refl k])
        (use noc_invD(4) [OF inv own] in \<open>simp_all add: stored_def owned_ok_def\<close>)
    have "wait_finish L H F fd (mbuffers P + k) config s =
        Some (ACTIVE_COMM_SUCCESS, MBUFFER_DISCARD_MESSAGE, s1\<lparr>umem := u, hw := h2\<rparr>)"
      using 1 fd c1 c2 by (simp add: wait_finish_def Let_def buf read_clock_def copy_to_user_def set_mbuf_def
          s1_def u_def ACTIVE_COMPUTE_LATENCY_def load_bytes_def)
    then show thesis
      by (rule consumed [OF _ 1])
        (use inv1 pend umem_copy_to_user [OF laws] in \<open>simp_all add: s1_def u_def\<close>)
  next
    case 2
    let ?q = "get_portid F (hdr_dest (header (mb_message buf)))"
    have q: "0 \<le> ?q" "?q < n" using dest 2 by auto
    have len: "int (length (ports (portpool (actives s ! i)))) = n"
      using channel_okD(3,4) [OF chan] by (simp add: portpool_inv_def)
    have used: "(i, ?q) \<in> used_port_set L n s \<longleftrightarrow>
        resource_is_used L (port_resource (ports (portpool (actives s ! i)) ! nat ?q))"
      using q i by (simp add: used_port_set_def port_of_def)
    have "wait_finish L H F fd (mbuffers P + k) config s = Some (ACTIVE_COMM_AGAIN,
        if (i, ?q) \<in> used_port_set L n s then MBUFFER_KEEP_MESSAGE else MBUFFER_DISCARD_MESSAGE, s)"
      using 2 fd q len used by (simp add: wait_finish_def Let_def buf fetch_def)
    then show thesis by (rule other [OF _ 2 refl])
  next
    case 3
    obtain ps where ps: "waiting_ports (requests (actives s ! i)) = p # ps" using turn 3 by blast
    show thesis
    proof (rule ring_complete [OF laws chan ps])
      fix a'
      assume a': "do_request_complete L p (actives s ! i) = Some (0, a')" "channel_ok L n P A a'"
        "channel_same n (actives s ! i) a'" "waiting_ports (requests a') = ps" "\<not> port_is_requested (port_of a' p)"
      have "wait_finish L H F fd (mbuffers P + k) config s =
          Some (ACTIVE_COMM_SUCCESS, MBUFFER_DISCARD_MESSAGE, set_active (int i) (\<lambda>_. a') s)"
        using 3 fd a'(1) by (simp add: wait_finish_def Let_def)
      then show thesis by (rule written [OF _ 3(2,1) ps a'(4,2,3,5)])
    qed
  next
    case 4
    then have "wait_finish L H F fd (mbuffers P + k) config s =
        Some (ACTIVE_COMM_SUCCESS, MBUFFER_DISCARD_MESSAGE, s)"
      using fd by (simp add: wait_finish_def Let_def)
    then show thesis by (rule plain [OF _ 4])
  qed
qed

lemma wait_close_spec:
  assumes laws: "klib_laws L" and inv: "noc_inv L n P A s" and own: "owns s n i p b"
    and age: "keep = MBUFFER_KEEP_MESSAGE \<Longrightarrow> curr_age (mbufs s) \<noteq> - 1"
  obtains m where "mbuffer_release L P b keep (mbufs s) = Some (0, m)"
    "noc_inv L n P A (wait_close L i p m s)"
    "map mb_message (pending L P m) = map mb_message (pending L P (mbufs s)) @
      (if keep = MBUFFER_KEEP_MESSAGE then [mb_message (mb_table (mbufs s) ! (mbuffers P + nat b))] else [])"
proof -
  have i: "i < length (actives s)" using own by (auto simp: owns_def)
  show thesis
  proof (rule noc_release_owned [OF laws inv own age])
    fix m
    let ?s = "set_active (int i) (set_port p drop_mbuffer) (s\<lparr>mbufs := m\<rparr>)"
    assume m: "mbuffer_release L P b keep (mbufs s) = Some (0, m)" "noc_inv L n P A ?s"
      "map mb_message (pending L P m) = map mb_message (pending L P (mbufs s)) @
        (if keep = MBUFFER_KEEP_MESSAGE then [mb_message (mb_table (mbufs s) ! (mbuffers P + nat b))] else [])"
    have "noc_inv L n P A (set_active (int i) (\<lambda>a. a\<lparr>act_resource := resource_set_notbusy L (act_resource a)\<rparr>) ?s)"
      by (rule noc_inv_set_active_fields [OF m(2)]) (use i in simp_all)
    moreover have "set_active (int i) (\<lambda>a. a\<lparr>act_resource := resource_set_notbusy L (act_resource a)\<rparr>) ?s =
        wait_close L i p m s"
      using i by (simp add: wait_close_def set_active_def)
    ultimately show thesis using that m by simp
  qed
qed

lemma wait_close_simps:
  assumes "klib_laws L" "noc_inv L n P A s" "i < length (actives s)" "0 \<le> p" "p < n"
  shows "mbufs (wait_close L i p m s) = m" "umem (wait_close L i p m s) = umem s" "hw (wait_close L i p m s) = hw s"
    "length (actives (wait_close L i p m s)) = length (actives s)"
    "\<not> resource_is_busy L (act_resource (actives (wait_close L i p m s) ! i))"
    "port_mbufferid (port_of (actives (wait_close L i p m s) ! i) p) = - 1"
    "requests (actives (wait_close L i p m s) ! i) = requests (actives s ! i)"
    "resource_is_used L (act_resource (actives (wait_close L i p m s) ! i)) =
      resource_is_used L (act_resource (actives s ! i))"
    "j \<noteq> i \<Longrightarrow> actives (wait_close L i p m s) ! j = actives s ! j"
  using assms channel_port_of_set_port [OF noc_invD(2) [OF assms(2,3)] assms(4,5,4), of drop_mbuffer]
  by (simp_all add: wait_close_def set_active_mbufs actives_set_active_nth)

lemma wait_end_spec:
  assumes laws: "klib_laws L" and inv: "noc_inv L n P A s" and own: "owns s n i p (int k)"
    and fd: "get_actid F fd = int i" "get_portid F fd = p"
    and buf: "buf = mb_table (mbufs s) ! (mbuffers P + k)"
    and turn: "resource_is_writable L (act_resource (actives s ! i)) \<Longrightarrow>
      \<exists>ps. waiting_ports (requests (actives s ! i)) = p # ps"
    and dest: "ret = 0 \<Longrightarrow> resource_is_readable L (act_resource (actives s ! i)) \<Longrightarrow>
      0 \<le> get_portid F (hdr_dest (header (mb_message buf))) \<and> get_portid F (hdr_dest (header (mb_message buf))) < n"
    and age: "curr_age (mbufs s) \<noteq> - 1"
  obtains ret' stats' s' where "wait_end L H F fd (int k) ret t1 t2 config stats s = Some (ret', stats', s')"
    "noc_inv L n P A s'" "\<not> resource_is_busy L (act_resource (actives s' ! i))"
    "port_mbufferid (port_of (actives s' ! i) p) = - 1" "wait_result L F n P i p buf ret config s ret' s'"
proof -
  have i: "i < length (actives s)" and p: "0 \<le> p" "p < n" using own by (auto simp: owns_def)
  have k: "k < nmbuffers P" using noc_invD(4) [OF inv own] by (simp add: owned_ok_def)
  have pool: "port_mbufferpool (port_of (actives s ! i) p) = Some P" by (rule noc_invD(5) [OF inv own])
  note result = that
  have close: thesis
    if st: "noc_inv L n P A s2" "owns s2 n i p (int k)" "length (actives s2) = length (actives s)"
      "keep = MBUFFER_KEEP_MESSAGE \<Longrightarrow> curr_age (mbufs s2) \<noteq> - 1"
      and run: "\<And>m. mbuffer_release L P (int k) keep (mbufs s2) = Some (0, m) \<Longrightarrow>
        wait_end L H F fd (int k) ret t1 t2 config stats s = Some (ret', stats', wait_close L i p m s2)"
      and res: "\<And>m. map mb_message (pending L P m) = map mb_message (pending L P (mbufs s2)) @
          (if keep = MBUFFER_KEEP_MESSAGE then [mb_message (mb_table (mbufs s2) ! (mbuffers P + k))] else []) \<Longrightarrow>
        wait_result L F n P i p buf ret config s ret' (wait_close L i p m s2)"
    for s2 keep ret' stats'
  proof (rule wait_close_spec [OF laws st(1,2,4)])
    fix m
    assume m: "mbuffer_release L P (int k) keep (mbufs s2) = Some (0, m)"
      "noc_inv L n P A (wait_close L i p m s2)"
      "map mb_message (pending L P m) = map mb_message (pending L P (mbufs s2)) @
        (if keep = MBUFFER_KEEP_MESSAGE then [mb_message (mb_table (mbufs s2) ! (mbuffers P + nat (int k)))] else [])"
    show thesis
      by (rule result [OF run [OF m(1)] m(2)])
        (use wait_close_simps [OF laws st(1) _ p] i st(3) res m(3) in simp_all)
  qed
  show thesis
  proof (cases "ret = 0")
    case False
    show thesis
      by (rule close [of s MBUFFER_DISCARD_MESSAGE ret stats])
        (use inv own pool False fd wait_close_simps [OF laws inv i p] in
          \<open>simp_all add: wait_end_def wait_close_def wait_result_def Let_def\<close>)
  next
    case True
    define s1 where "s1 = set_mbuf (mbuffers P + k)
      (\<lambda>buf. buf\<lparr>mb_latency := mb_latency buf + ACTIVE_COMPUTE_LATENCY s t1 t2\<rparr>) s"
    let ?b = "mb_table (mbufs s1) ! (mbuffers P + k)"
    have inv1: "noc_inv L n P A s1"
      unfolding s1_def by (rule noc_inv_set_mbuf [OF inv k refl])
        (use noc_invD(3) [OF inv k] in \<open>simp_all add: sender_ok_def\<close>)
    have pend: "pending L P (mbufs s1) = pending L P (mbufs s)"
      unfolding s1_def by (rule pending_set_mbuf [OF inv sub_pool_refl k])
        (use noc_invD(4) [OF inv own] in \<open>simp_all add: stored_def owned_ok_def\<close>)
    have own1: "owns s1 n i p (int k)" using own by (simp add: s1_def)
    have a1: "actives s1 = actives s" "umem s1 = umem s" "curr_age (mbufs s1) = curr_age (mbufs s)"
      by (simp_all add: s1_def)
    have u1: "used_port_set L n s1 = used_port_set L n s" by (simp add: used_port_set_def a1)
    have b: "mb_message ?b = mb_message buf"
      using noc_invD(1) [OF inv] k by (simp add: s1_def buf mbuffer_inv_def)
    have chk: "do_header_check F ?b config = do_header_check F buf config"
      using header_check source_message [OF b] b by simp
    have run: "wait_end L H F fd (int k) ret t1 t2 config stats s =
        Some (r, st, wait_close L i p m s2)"
      if "wait_finish L H F fd (mbuffers P + k) config s1 = Some (r, keep, s2)"
        "mbuffer_release L P (int k) keep (mbufs s2) = Some (0, m)"
        "st = (if r = ACTIVE_COMM_SUCCESS then stats\<lparr>ps_volume := ps_volume stats + cfg_size config,
            ps_latency := ps_latency stats + mb_latency (mb_table (mbufs s2) ! (mbuffers P + k))\<rparr> else stats)"
      for r st keep s2 m
      using that True fd pool by (simp add: wait_end_def wait_close_def Let_def mbuffer_get_Some [OF laws k] flip: s1_def)
    show thesis
    proof (cases rule: wait_finish_spec [OF laws inv1 own1 fd refl, of config H])
      case 1
      then show ?case using turn a1 by simp
    next
      case 2
      then show ?case using dest True a1 b by simp
    next
      case (3 s2)
      have own2: "owns s2 n i p (int k)" using own1 3(5) by (simp add: owns_def)
      show ?thesis
        by (rule close [where keep = MBUFFER_DISCARD_MESSAGE, OF 3(4) own2 _ _ run [OF 3(1) _ refl]])
          (use 3 True a1 b chk pend wait_close_simps [OF laws 3(4) _ p] i in \<open>simp_all add: wait_result_def Let_def\<close>)
    next
      case (4 keep)
      show ?thesis
        by (rule close [where keep = keep, OF inv1 own1 _ _ run [OF 4(1) _ refl]])
          (use 4 True a1 b chk pend u1 age wait_close_simps [OF laws inv1 _ p] i in \<open>simp_all add: wait_result_def Let_def\<close>)
    next
      case (5 a' ps)
      let ?s2 = "set_active (int i) (\<lambda>_. a') s1"
      have i1: "i < length (actives s1)" using i a1 by simp
      have inv2: "noc_inv L n P A ?s2" by (rule noc_inv_channel_same [OF inv1 i1 5(6,7)])
      have own2: "owns ?s2 n i p (int k)" using owns_channel_same [OF i1 5(7)] own1 by simp
      show ?thesis
        by (rule close [where keep = MBUFFER_DISCARD_MESSAGE, OF inv2 own2 _ _ run [OF 5(1) _ refl]])
          (use 5 True a1 b pend i1 wait_close_simps [OF laws inv2 _ p] in
            \<open>simp_all add: wait_result_def Let_def actives_set_active_nth\<close>)
    next
      case 6
      show ?thesis
        by (rule close [where keep = MBUFFER_DISCARD_MESSAGE, OF inv1 own1 _ _ run [OF 6(1) _ refl]])
          (use 6 True a1 pend wait_close_simps [OF laws inv1 _ p] i in \<open>simp_all add: wait_result_def Let_def\<close>)
    qed
  qed
qed

lemma valid_callE:
  assumes "klib_laws L" "noc_inv L n P A s" "active_valid_call L F fd s"
  obtains i p where "get_actid F fd = int i" "i < length (actives s)" "get_portid F fd = p" "0 \<le> p" "p < n"
proof -
  let ?i = "nat (get_actid F fd)"
  have v: "0 \<le> get_actid F fd" "get_actid F fd < int (length (actives s))" "0 \<le> get_portid F fd"
    "get_portid F fd < nports (portpool (actives s ! ?i))"
    using assms by (auto simp: active_valid_call_def ACTIVE_GET_NR_PORTS_def)
  moreover have "nports (portpool (actives s ! ?i)) = n"
    using channel_okD(3) [OF noc_invD(2) [OF assms(2), of ?i]] v(1,2) by simp
  ultimately show thesis using that [of ?i] by simp
qed

lemma valid_callI:
  assumes "klib_laws L" "noc_inv L n P A s" "i < length (actives s)" "0 \<le> p" "p < n"
  shows "active_valid_call L F (ACTIVE_LADDRESS_COMPOSE (int i) p n) s"
  using assms channel_okD(3) [OF noc_invD(2) [OF assms(2,3)]]
  by (simp add: active_valid_call_def actid_compose portid_compose ACTIVE_GET_NR_PORTS_def)

lemma wait_begin_spec:
  assumes laws: "klib_laws L" and inv: "noc_inv L n P A s"
    and fd: "get_actid F fd = int i" "i < length (actives s)" "get_portid F fd = p" "0 \<le> p" "p < n"
  obtains (refused) "wait_begin L F fd s = Some (Inl (- EBADF))"
      "(i, p) \<notin> used_port_set L n s \<or> \<not> resource_is_busy L (act_resource (actives s ! i))
        \<or> port_mbufferid (port_of (actives s ! i) p) < 0
        \<or> resource_is_writable L (act_resource (actives s ! i)) \<and> (\<nexists>ps. waiting_ports (requests (actives s ! i)) = p # ps)"
  | (go) k where "wait_begin L F fd s = Some (Inr (int k))" "owns s n i p (int k)"
      "(i, p) \<in> used_port_set L n s" "resource_is_busy L (act_resource (actives s ! i))"
      "resource_is_writable L (act_resource (actives s ! i)) \<Longrightarrow> \<exists>ps. waiting_ports (requests (actives s ! i)) = p # ps"
proof -
  let ?a = "actives s ! i" and ?b = "port_mbufferid (port_of (actives s ! i) p)"
  note ver = ring_verify [OF laws noc_invD(2) [OF inv fd(2)] fd(4,5)]
  have used: "(i, p) \<in> used_port_set L n s \<longleftrightarrow> resource_is_used L (port_resource (port_of ?a p))"
    using fd by (simp add: used_port_set_def)
  show thesis
  proof (cases "(i, p) \<in> used_port_set L n s \<and> resource_is_busy L (act_resource ?a) \<and> 0 \<le> ?b
      \<and> (resource_is_writable L (act_resource ?a) \<longrightarrow> (\<exists>ps. waiting_ports (requests ?a) = p # ps))")
    case True
    then show thesis
      using go [of "nat ?b"] fd ver used by (auto simp: wait_begin_def Let_def owns_def)
  next
    case False
    then have "wait_begin L F fd s = Some (Inl (- EBADF))"
      using fd ver used by (auto simp: wait_begin_def Let_def)
    then show thesis by (rule refused) (use False in auto)
  qed
qed

lemma active_wait_spec:
  assumes laws: "klib_laws L" and inv: "noc_inv L n P A s" and call: "active_valid_call L F fd s"
    and fd: "get_actid F fd = int i" "i < length (actives s)" "get_portid F fd = p" "0 \<le> p" "p < n"
    and dev: "device_delivers L F n P (snd (clock_read H (hw s))) (actives s ! i) p" and age: "curr_age (mbufs s) \<noteq> - 1"
  obtains (refused) "active_wait L H F fd config stats s = Some (- EBADF, stats, s)"
      "(i, p) \<notin> used_port_set L n s \<or> \<not> resource_is_busy L (act_resource (actives s ! i))
        \<or> port_mbufferid (port_of (actives s ! i) p) < 0
        \<or> resource_is_writable L (act_resource (actives s ! i)) \<and> (\<nexists>ps. waiting_ports (requests (actives s ! i)) = p # ps)"
  | (finished) ret d h ret' stats' s' buf where "active_wait L H F fd config stats s = Some (ret', stats', s')"
      "do_wait F (hwfd (actives s ! i)) (snd (clock_read H (hw s))) = (ret, d, h)"
      "noc_inv L n P A s'" "\<not> resource_is_busy L (act_resource (actives s' ! i))"
      "port_mbufferid (port_of (actives s' ! i) p) = - 1"
      "case d of None \<Rightarrow> True | Some (k, msg) \<Rightarrow> mb_message buf = msg"
      "wait_result L F n P i p buf ret config s ret' s'"
proof (cases rule: wait_begin_spec [OF laws inv fd])
  case 1
  then show thesis using refused call by (simp add: active_wait_def)
next
  case (2 k)
  obtain t1 h1 where c1: "clock_read H (hw s) = (t1, h1)" by fastforce
  obtain ret d h2 where w: "do_wait F (hwfd (actives s ! i)) h1 = (ret, d, h2)" by (metis prod_cases3)
  obtain t2 h3 where c2: "clock_read H h2 = (t2, h3)" by fastforce
  define s1 where "s1 = (deliver d s)\<lparr>hw := h3\<rparr>"
  let ?k = "mbuffers P + k"
  have k: "k < nmbuffers P" "?k < length (mb_table (mbufs s))"
    using noc_invD(4) [OF inv 2(2)] noc_invD(1) [OF inv] by (auto simp: owned_ok_def mbuffer_inv_def)
  have d: "d = None \<and> (ret \<noteq> 0 \<or> \<not> resource_is_readable L (act_resource (actives s ! i)))
    \<or> (\<exists>msg. d = Some (?k, msg) \<and> 0 \<le> get_portid F (hdr_dest (header msg)) \<and> get_portid F (hdr_dest (header msg)) < n)"
  proof -
    have "case d of None \<Rightarrow> ret \<noteq> 0 \<or> \<not> resource_is_readable L (act_resource (actives s ! i))
       | Some (k, msg) \<Rightarrow> k = mbuffers P + nat (port_mbufferid (port_of (actives s ! i) p))
           \<and> 0 \<le> get_portid F (hdr_dest (header msg)) \<and> get_portid F (hdr_dest (header msg)) < n"
      using dev w unfolding device_delivers_def c1 snd_conv by blast
    then show ?thesis using 2(2) by (cases d) (auto simp: owns_def)
  qed
  have s1: "noc_inv L n P A s1" "actives s1 = actives s" "umem s1 = umem s" "curr_age (mbufs s1) = curr_age (mbufs s)"
    "pending L P (mbufs s1) = pending L P (mbufs s)" "owns s1 n i p (int k)"
  proof -
    have ns: "\<not> stored L (mb_table (mbufs s) ! ?k)"
      using noc_invD(4) [OF inv 2(2)] by (simp add: stored_def owned_ok_def)
    have "noc_inv L n P A (set_mbuf ?k (\<lambda>buf. buf\<lparr>mb_message := msg\<rparr>) s)" for msg
      by (rule noc_inv_set_mbuf [OF inv k(1) refl])
        (use noc_invD(3) [OF inv k(1)] in \<open>simp_all add: sender_ok_def\<close>)
    moreover have "pending L P (mbufs (set_mbuf ?k (\<lambda>buf. buf\<lparr>mb_message := msg\<rparr>) s)) = pending L P (mbufs s)" for msg
      by (rule pending_set_mbuf [OF inv sub_pool_refl k(1) ns]) (use ns in \<open>simp add: stored_def\<close>)
    ultimately show "noc_inv L n P A s1" "actives s1 = actives s" "umem s1 = umem s"
      "curr_age (mbufs s1) = curr_age (mbufs s)" "pending L P (mbufs s1) = pending L P (mbufs s)"
      "owns s1 n i p (int k)"
      using d inv 2(2) by (auto simp: s1_def deliver_def)
  qed
  have run: "active_wait L H F fd config stats s = wait_end L H F fd (int k) ret t1 t2 config stats s1"
    using call 2(1) fd c1 c2 w by (simp add: active_wait_def read_clock_def s1_def deliver_def set_mbuf_hw split: option.split)
  have u: "used_port_set L n s1 = used_port_set L n s" by (simp add: used_port_set_def s1)
  let ?b = "mb_table (mbufs s1) ! ?k"
  have msg: "case d of None \<Rightarrow> True | Some (k, msg) \<Rightarrow> mb_message ?b = msg"
    using d k by (auto simp: s1_def deliver_def)
  have dest: "0 \<le> get_portid F (hdr_dest (header (mb_message ?b)))
      \<and> get_portid F (hdr_dest (header (mb_message ?b))) < n"
    if "ret = 0" "resource_is_readable L (act_resource (actives s1 ! i))"
    using d msg that s1(2) by auto
  have w': "do_wait F (hwfd (actives s ! i)) (snd (clock_read H (hw s))) = (ret, d, h2)" using c1 w by simp
  have res: "wait_result L F n P i p ?b ret config s r s' = wait_result L F n P i p ?b ret config s1 r s'" for r s'
    by (simp add: wait_result_def s1 u)
  have age1: "curr_age (mbufs s1) \<noteq> - 1" and turn1: "resource_is_writable L (act_resource (actives s1 ! i)) \<Longrightarrow>
      \<exists>ps. waiting_ports (requests (actives s1 ! i)) = p # ps"
    using age s1 2(5) by auto
  show thesis
    by (rule wait_end_spec [OF laws s1(1,6) fd(1,3) refl turn1 dest age1])
      (use finished [OF _ w' _ _ _ msg] run res in auto)
qed

end

end
