(* ===== verification/Channel_Ops.thy ===== *)
theory Channel_Ops
  imports Facility
begin

text \<open>
  The operations of \<open>Active\<close> as a whole: on well-formed tables none of them panics
  and each keeps the tables well formed; the cases of reading and writing; creating
  and opening channels.
\<close>

section \<open>Releasing a port\<close>

context facility
begin

lemma active_release_cases:
  assumes laws: "klib_laws L" and inv: "noc_inv L n P A s" and call: "active_valid_call L F fd s"
    and fd: "get_actid F fd = int i" "i < length (actives s)" "get_portid F fd = p" "0 \<le> p" "p < n"
  defines "dest \<equiv> ACTIVE_LADDRESS_COMPOSE (act_local (actives s ! i)) p n"
  obtains (bad) "active_release L F fd s = Some (- EBADF, s)" "\<not> resource_is_used L (act_resource (actives s ! i))"
  | (pending) b where "active_release L F fd s = Some (- EBUSY, s)"
      "resource_is_readable L (act_resource (actives s ! i))"
      "b \<in> set (pending L P (mbufs s))" "hdr_dest (header (mb_message b)) = dest"
  | (unused) "active_release L F fd s = Some (- EINVAL, s)" "(i, p) \<notin> used_port_set L n s"
  | (ok) "active_release L F fd s =
        Some (0, set_active (int i) (\<lambda>_. mark_port p (free_port L) (- 1) (actives s ! i)) s)"
      "(i, p) \<in> used_port_set L n s" "resource_is_used L (act_resource (actives s ! i))"
      "resource_is_readable L (act_resource (actives s ! i)) \<Longrightarrow>
        \<forall>b \<in> set (pending L P (mbufs s)). hdr_dest (header (mb_message b)) \<noteq> dest"
proof -
  let ?a = "actives s ! i"
  have a: "mbufferpool ?a = P" "nports (portpool ?a) = n" using channel_okD [OF noc_invD(2) [OF inv fd(2)]] by auto
  have used: "(i, p) \<in> used_port_set L n s \<longleftrightarrow> resource_is_used L (port_resource (port_of ?a p))"
    using fd by (simp add: used_port_set_def)
  have match: "mbuffer_matches L P dest ACTIVE_ANY_SRC b \<longleftrightarrow> stored L b \<and> hdr_dest (header (mb_message b)) = dest" for b
    by (auto simp: mbuffer_matches_def stored_def source_any)
  note run = active_release_def Let_def ACTIVE_GET_NR_PORTS_def call fd a dest_def [symmetric]
  consider "\<not> resource_is_used L (act_resource ?a)"
    | "resource_is_used L (act_resource ?a)" "resource_is_readable L (act_resource ?a)"
      "0 \<le> mbuffer_search L P dest ACTIVE_ANY_SRC (mbufs s)"
    | "resource_is_used L (act_resource ?a)"
      "\<not> (resource_is_readable L (act_resource ?a) \<and> 0 \<le> mbuffer_search L P dest ACTIVE_ANY_SRC (mbufs s))" by blast
  then show thesis
  proof cases
    case 1
    then show thesis using bad by (simp add: run)
  next
    case 2
    then obtain b where "b \<in> set (filter (mbuffer_matches L P dest ACTIVE_ANY_SRC) (pending L P (mbufs s)))"
      using mbuffer_search_pending [OF noc_invD(1) [OF inv], of dest ACTIVE_ANY_SRC] by (auto dest: hd_in_set)
    then show thesis using pending [of b] 2 match by (simp add: run)
  next
    case 3
    have none: "\<forall>b \<in> set (pending L P (mbufs s)). hdr_dest (header (mb_message b)) \<noteq> dest"
      if "resource_is_readable L (act_resource ?a)"
      using 3 that mbuffer_search_pending [OF noc_invD(1) [OF inv], of dest ACTIVE_ANY_SRC] match
      by (auto simp: filter_empty_conv set_pending)
    show thesis
    proof (cases "(i, p) \<in> used_port_set L n s")
      case True
      then show thesis using 3 ok none used by (auto simp: run mark_port_def)
    next
      case False
      then show thesis using 3 unused used by (auto simp: run)
    qed
  qed
qed

section \<open>Reading\<close>

lemma active_aread_cases:
  fixes config :: active_config and H :: "'h noc_hal"
  assumes laws: "klib_laws L" and inv: "noc_inv L n P A s" and call: "active_valid_call L F fd s"
    and fd: "get_actid F fd = int i" "i < length (actives s)" "get_portid F fd = p" "0 \<le> p" "p < n"
  defines "rmt \<equiv> get_actid F (cfg_remote_addr config)"
  defines "B \<equiv> (if node_is_local H rmt then A else P)"
  defines "msgs \<equiv> filter (mbuffer_matches L B (cfg_local_addr config) (cfg_remote_addr config)) (pending L B (mbufs s))"
  obtains (bad) "active_aread L H F fd config stats s = Some (- EBADF, stats, s)" "(i, p) \<notin> used_port_set L n s"
  | (received) j where "(i, p) \<in> used_port_set L n s" "j < nmbuffers B" "msgs \<noteq> []"
      "mb_table (mbufs s) ! (mbuffers B + j) = hd msgs" "stored L (hd msgs)"
      "active_aread L H F fd config stats s = aread_stored L H B (int j) config stats s"
  | (refused) r where "active_aread L H F fd config stats s = Some (r, stats, s)" "msgs = []"
      "r = (if node_is_local H rmt then - ENOMSG else - EBUSY)"
      "node_is_local H rmt \<or> resource_is_busy L (act_resource (actives s ! i))" "(i, p) \<in> used_port_set L n s"
  | (denied) r h where "active_aread L H F fd config stats s = Some (r, stats, s\<lparr>hw := h\<rparr>)" "r < 0" "msgs = []"
      "do_allow F (actives s ! i) rmt (hw s) = (r, h)" "(i, p) \<in> used_port_set L n s" "\<not> node_is_local H rmt"
      "\<not> resource_is_busy L (act_resource (actives s ! i))"
  | (prepared) r h where "msgs = []" "\<not> node_is_local H rmt" "(i, p) \<in> used_port_set L n s"
      "\<not> resource_is_busy L (act_resource (actives s ! i))" "do_allow F (actives s ! i) rmt (hw s) = (r, h)" "\<not> r < 0"
      "active_aread L H F fd config stats s = aread_setup L H F (int i) p rmt stats (s\<lparr>hw := h\<rparr>)"
proof -
  let ?a = "actives s ! i"
  have a: "mbufferpool ?a = P" "mbufferpool_aux ?a = A" using channel_okD [OF noc_invD(2) [OF inv fd(2)]] by auto
  have used: "(i, p) \<in> used_port_set L n s \<longleftrightarrow> resource_is_used L (port_resource (port_of ?a p))"
    using fd by (simp add: used_port_set_def)
  have B: "sub_pool B P" using aux_pool by (simp add: B_def)
  obtain r h where al: "do_allow F ?a rmt (hw s) = (r, h)" by fastforce
  have run: "active_aread L H F fd config stats s =
      (let b = mbuffer_search L B (cfg_local_addr config) (cfg_remote_addr config) (mbufs s)
       in if (i, p) \<notin> used_port_set L n s then Some (- EBADF, stats, s)
          else if 0 \<le> b then aread_stored L H B b config stats s
          else if node_is_local H rmt then Some (- ENOMSG, stats, s)
          else if resource_is_busy L (act_resource ?a) then Some (- EBUSY, stats, s)
          else if r < 0 then Some (r, stats, s\<lparr>hw := h\<rparr>)
          else aread_setup L H F (int i) p rmt stats (s\<lparr>hw := h\<rparr>))"
    using call al used fd
    by (cases "node_is_local H rmt") (simp_all add: active_aread_def Let_def B_def a rmt_def [symmetric])
  show thesis
  proof (cases "(i, p) \<in> used_port_set L n s")
    case False
    then show thesis using bad by (simp add: run)
  next
    case True
    from mbuffer_search_pending [OF mbuffer_inv_sub [OF noc_invD(1) [OF inv] B],
        of "cfg_local_addr config" "cfg_remote_addr config", folded msgs_def]
    show thesis
    proof (elim disjE exE conjE)
      fix j
      assume j: "j < nmbuffers B" "msgs \<noteq> []" "mb_table (mbufs s) ! (mbuffers B + j) = hd msgs"
        "mbuffer_search L B (cfg_local_addr config) (cfg_remote_addr config) (mbufs s) = int j"
      have "stored L (hd msgs)" using hd_in_set [OF j(2)] by (simp add: msgs_def set_pending)
      then show thesis using received [OF True j(1,2,3)] True j(4) by (simp add: run)
    next
      assume none: "mbuffer_search L B (cfg_local_addr config) (cfg_remote_addr config) (mbufs s) = - EINVAL"
        "msgs = []"
      consider "node_is_local H rmt \<or> resource_is_busy L (act_resource ?a)"
        | "\<not> node_is_local H rmt" "\<not> resource_is_busy L (act_resource ?a)" "r < 0"
        | "\<not> node_is_local H rmt" "\<not> resource_is_busy L (act_resource ?a)" "\<not> r < 0" by blast
      then show thesis
      proof cases
        case 1
        then have "active_aread L H F fd config stats s =
            Some (if node_is_local H rmt then - ENOMSG else - EBUSY, stats, s)"
          using none True by (auto simp: run)
        then show thesis by (rule refused [OF _ none(2) refl 1 True])
      next
        case 2
        then show thesis using denied [of r h] none True al by (simp add: run)
      next
        case 3
        then show thesis using prepared [OF none(2) 3(1) True 3(2) al 3(3)] none True al by (simp add: run)
      qed
    qed
  qed
qed

section \<open>Writing\<close>

text \<open>A write to a remote node with no buffer yet: the port takes a buffer that holds the
  message.\<close>

lemma awrite_prepare:
  assumes laws: "klib_laws L" and inv: "noc_inv L n P A s" and call: "active_valid_call L F fd s"
    and fd: "get_actid F fd = int i" "i < length (actives s)" "get_portid F fd = p" "0 \<le> p" "p < n"
    and new: "port_mbufferid (port_of (actives s ! i) p) < 0" "\<not> node_is_local H (act_remote (actives s ! i))"
      "(i, p) \<in> used_port_set L n s"
  obtains (nobuf) "active_awrite L H F fd config stats s = Some (- EBUSY, stats, s)"
      "\<forall>k < nmbuffers P. resource_is_used L (mb_resource (mb_table (mbufs s) ! (mbuffers P + k)))"
  | (filled) k s1 where "active_awrite L H F fd config stats s = awrite_send L H F (int i) p (mbuffers P + k) stats s1"
      "noc_inv L n P A s1" "owns s1 n i p (int k)" "pending L P (mbufs s1) = pending L P (mbufs s)" "umem s1 = umem s"
      "actives s1 = (actives s)[i := set_port p (take_mbuffer P (int k)) (actives s ! i)]"
      "addressed config (load_bytes (umem s) (cfg_buffer config) (cfg_size config))
        (MBUFFER_MESSAGE_INITIALIZER (mb_message (mb_table (mbufs s) ! (mbuffers P + k))))
        (mb_message (mb_table (mbufs s1) ! (mbuffers P + k)))"
proof -
  let ?a = "actives s ! i"
  have a: "mbufferpool ?a = P" using channel_okD [OF noc_invD(2) [OF inv fd(2)]] by auto
  have used: "resource_is_used L (port_resource (port_of ?a p))" using new(3) by (simp add: used_port_set_def)
  show thesis
  proof (cases rule: noc_mbuffer_alloc_cases [OF laws inv sub_pool_refl])
    case 1
    then show thesis using nobuf call fd new used a by (simp add: active_awrite_def Let_def)
  next
    case (2 j k buf m')
    then have jk: "j = k" by simp
    let ?s1 = "s\<lparr>mbufs := m'\<rparr>"
    have b: "buf = mb_table (mbufs ?s1) ! (mbuffers P + k)" "\<not> stored L buf" using 2 by (auto simp: stored_def)
    show thesis
    proof (rule awrite_fill_spec [OF laws 2(12,3) b, of H config])
      fix buf' h
      let ?s2 = "set_mbuf (mbuffers P + k) (\<lambda>_. buf') ?s1"
      let ?s3 = "set_active (int i) (set_port p (take_mbuffer P (int k))) (?s2\<lparr>hw := h\<rparr>)"
      assume fill: "awrite_fill L H F (mbuffers P + k) config ?s1 = ?s2\<lparr>hw := h\<rparr>"
        and inv2: "noc_inv L n P A ?s2" and pend: "pending L P (mbufs ?s2) = pending L P (mbufs ?s1)"
        and res: "mb_resource buf' = mb_resource buf"
        and msg: "addressed config (load_bytes (umem ?s1) (cfg_buffer config) (cfg_size config)) (mb_message buf) (mb_message buf')"
      have len: "mbuffers P + k < length (mb_table (mbufs s))"
        using noc_invD(1) [OF inv] 2(3) by (simp add: mbuffer_inv_def)
      have tab: "mb_table (mbufs ?s2) ! (mbuffers P + k) = buf'" using len 2(5) by (simp add: set_mbuf_def)
      have inv2': "noc_inv L n P A (?s2\<lparr>hw := h\<rparr>)" using inv2 by simp
      have inv3: "noc_inv L n P A ?s3"
        by (rule noc_inv_set_owner [OF inv2', where b = "int k"])
          (use fd 2 tab res in \<open>simp_all add: owned_ok_def\<close>)
      have own3: "owns ?s3 n i p (int k)"
        using owns_set_port [OF noc_invD(2) [OF inv2'] _ fd(4,5), of i "take_mbuffer P (int k)" i p "int k"] fd(2) by simp
      have "active_awrite L H F fd config stats s = awrite_send L H F (int i) p (mbuffers P + k) stats ?s3"
        using call fd new used a 2(4) jk mbuffer_get_Some [OF laws 2(1)] fill
        by (simp add: active_awrite_def Let_def)
      then show thesis
        by (rule filled [OF _ inv3 own3])
          (use pend 2 msg tab fd(2) in \<open>simp_all add: set_active_def\<close>)
    qed
  qed
qed

lemma active_awrite_cases:
  assumes laws: "klib_laws L" and inv: "noc_inv L n P A s" and call: "active_valid_call L F fd s"
    and fd: "get_actid F fd = int i" "i < length (actives s)" "get_portid F fd = p" "0 \<le> p" "p < n"
  obtains (bad) "active_awrite L H F fd config stats s = Some (- EINVAL, stats, s)" "(i, p) \<notin> used_port_set L n s"
  | (forward) "active_awrite L H F fd config stats s = awrite_forward L H F (int i) p config stats s"
      "node_is_local H (act_remote (actives s ! i))" "(i, p) \<in> used_port_set L n s"
      "port_mbufferid (port_of (actives s ! i) p) < 0"
  | (remote) "\<not> node_is_local H (act_remote (actives s ! i))" "(i, p) \<in> used_port_set L n s"
      "port_mbufferid (port_of (actives s ! i) p) < 0"
  | (again) k where "active_awrite L H F fd config stats s = awrite_send L H F (int i) p (mbuffers P + k) stats s"
      "owns s n i p (int k)" "(i, p) \<in> used_port_set L n s"
proof -
  let ?a = "actives s ! i" and ?b = "port_mbufferid (port_of (actives s ! i) p)"
  have used: "(i, p) \<in> used_port_set L n s \<longleftrightarrow> resource_is_used L (port_resource (port_of ?a p))"
    using fd by (simp add: used_port_set_def)
  consider "(i, p) \<notin> used_port_set L n s"
    | "(i, p) \<in> used_port_set L n s" "?b < 0" "node_is_local H (act_remote ?a)"
    | "(i, p) \<in> used_port_set L n s" "?b < 0" "\<not> node_is_local H (act_remote ?a)"
    | "(i, p) \<in> used_port_set L n s" "0 \<le> ?b" by fastforce
  then show thesis
  proof cases
    case 1
    then show thesis using bad call fd used by (simp add: active_awrite_def Let_def)
  next
    case 2
    then show thesis using forward call fd used by (simp add: active_awrite_def Let_def)
  next
    case 3
    then show thesis using remote by simp
  next
    case 4
    then obtain k where b: "?b = int k" using nonneg_int_cases by blast
    have own: "owns s n i p (int k)" using b fd by (simp add: owns_def)
    have "k < nmbuffers P" using noc_invD(4) [OF inv own] by (simp add: owned_ok_def)
    then have "mbuffer_get L P ?b = Some (mbuffers P + k)"
      using mbuffer_get_Some [OF laws] b by simp
    then show thesis
      using again [OF _ own 4(1)] 4 call fd used noc_invD(5) [OF inv own] by (simp add: active_awrite_def Let_def)
  qed
qed

section \<open>No operation panics, and the tables stay well formed\<close>

lemma release_total:
  assumes "klib_laws L" "noc_inv L n P A s" "active_valid_call L F fd s"
  shows "\<exists>r s'. active_release L F fd s = Some (r, s') \<and> noc_inv L n P A s'"
proof (rule valid_callE [OF assms])
  fix i p
  assume fd: "get_actid F fd = int i" "i < length (actives s)" "get_portid F fd = p" "0 \<le> p" "p < n"
  show ?thesis
  proof (cases rule: active_release_cases [OF assms fd])
    case ok: 4
    have "noc_inv L n P A (set_active (int i) (\<lambda>_. mark_port p (free_port L) (- 1) (actives s ! i)) s)"
      by (rule noc_mark_port(1) [OF assms(2) fd(2,4,5)])
        (use ok(2) assms(1) in \<open>simp_all add: used_port_set_def port_is_requested_def\<close>)
    then show ?thesis using ok(1) by blast
  qed (use assms(2) in blast)+
qed

lemma aread_total:
  assumes "klib_laws L" "noc_inv L n P A s" "active_valid_call L F fd s"
  shows "\<exists>r stats' s'. active_aread L H F fd config stats s = Some (r, stats', s') \<and> noc_inv L n P A s'"
proof (rule valid_callE [OF assms])
  fix i p
  assume fd: "get_actid F fd = int i" "i < length (actives s)" "get_portid F fd = p" "0 \<le> p" "p < n"
  show ?thesis
  proof (cases rule: active_aread_cases [OF assms fd, of H config stats])
    case rec: (2 j)
    have sub: "sub_pool (if node_is_local H (get_actid F (cfg_remote_addr config)) then A else P) P"
      using aux_pool by simp
    show ?thesis
      by (rule aread_stored_spec [OF assms(1,2) sub rec(2) refl, of H config stats])
        (use rec in auto)
  next
    case prep: (5 r h)
    have inv: "noc_inv L n P A (s\<lparr>hw := h\<rparr>)" using assms(2) by simp
    have i: "i < length (actives (s\<lparr>hw := h\<rparr>))" using fd(2) by simp
    show ?thesis
      by (rule aread_setup_spec [OF assms(1) inv i fd(4,5), of H F "get_actid F (cfg_remote_addr config)" stats])
        (use prep(7) in auto)
  qed (use assms(2) in auto)
qed

lemma awrite_total:
  assumes "klib_laws L" "noc_inv L n P A s" "active_valid_call L F fd s" and age: "curr_age (mbufs s) \<noteq> - 1"
  shows "\<exists>r stats' s'. active_awrite L H F fd config stats s = Some (r, stats', s') \<and> noc_inv L n P A s'"
proof (rule valid_callE [OF assms(1-3)])
  fix i p
  assume fd: "get_actid F fd = int i" "i < length (actives s)" "get_portid F fd = p" "0 \<le> p" "p < n"
  have send: "\<exists>r stats' s'. awrite_send L H F (int i) p (mbuffers P + k) stats s1 = Some (r, stats', s') \<and> noc_inv L n P A s'"
    if "noc_inv L n P A s1" "owns s1 n i p (int k)" for k s1
    by (rule awrite_send_spec [OF assms(1) that, of H stats]) auto
  show ?thesis
  proof (cases rule: active_awrite_cases [OF assms(1-3) fd, of H config stats])
    case 2
    show ?thesis
      by (rule awrite_forward_spec [OF assms(1,2) fd(2,4,5) age, of H config stats]) (use 2(1) assms(2) in auto)
  next
    case 3
    show ?thesis
      by (rule awrite_prepare [OF assms(1-3) fd 3(3,1,2), of config stats]) (use send assms(2) in auto)
  next
    case (4 k)
    then show ?thesis using send [OF assms(2) 4(2)] by auto
  qed (use assms(2) in auto)
qed

lemma wait_total:
  assumes "klib_laws L" "noc_inv L n P A s" "active_valid_call L F fd s" and age: "curr_age (mbufs s) \<noteq> - 1"
    and dev: "device_delivers L F n P (snd (clock_read H (hw s))) (actives s ! nat (get_actid F fd)) (get_portid F fd)"
  shows "\<exists>r stats' s'. active_wait L H F fd config stats s = Some (r, stats', s') \<and> noc_inv L n P A s'"
proof (rule valid_callE [OF assms(1-3)])
  fix i p
  assume fd: "get_actid F fd = int i" "i < length (actives s)" "get_portid F fd = p" "0 \<le> p" "p < n"
  have dev': "device_delivers L F n P (snd (clock_read H (hw s))) (actives s ! i) p" using dev fd by simp
  show ?thesis
    by (rule active_wait_spec [OF assms(1-3) fd dev' age, of config stats]) (use assms(2) in auto)
qed

lemma alloc_inv:
  assumes laws: "klib_laws L" and inv: "noc_inv L n P A s"
  shows "noc_inv L n P A (snd (active_alloc L lcl rmt portid ctype s))"
proof (cases rule: active_alloc_cases [OF laws inv, of lcl rmt portid ctype])
  case ok: (4 i p)
  have "noc_inv L n P A (set_active (int i) (\<lambda>_. mark_port p (alloc_port L) 1 (actives s ! i)) s)"
    by (rule noc_mark_port(1) [OF inv ok(1,2,3)])
      (use ok(1-3,5) laws in \<open>simp_all add: used_port_set_def port_is_requested_def\<close>)
  then show ?thesis using ok(7) by simp
qed (use inv in simp_all)

section \<open>Creating and opening channels\<close>

lemma alloc_slot_cases:
  assumes "noc_inv L n P A s"
  obtains (none) "active_alloc_slot L s = (None, s)" "\<forall>a \<in> set (actives s). resource_is_used L (act_resource a)"
  | (slot) i where "i < length (actives s)" "\<not> resource_is_used L (act_resource (actives s ! i))"
      "active_alloc_slot L s = (Some i, set_active (int i) (\<lambda>a. a\<lparr>act_resource :=
        resource_set_used L (RESOURCE_INITIALIZER L)\<rparr>) s)"
      "noc_inv L n P A (set_active (int i) (\<lambda>a. a\<lparr>act_resource :=
        resource_set_used L (RESOURCE_INITIALIZER L)\<rparr>) s)"
proof (cases "first_index (\<lambda>active. \<not> resource_is_used L (act_resource active)) (actives s)")
  case None
  then have "active_alloc_slot L s = (None, s)" by (simp add: active_alloc_slot_def)
  then show thesis by (rule none) (use None in \<open>simp add: first_index_None_iff\<close>)
next
  case (Some i)
  note i = first_index_SomeD [OF Some]
  show thesis
    by (rule slot [OF i(1,2)])
      (use Some noc_inv_set_active_fields [OF assms i(1)] in \<open>simp_all add: active_alloc_slot_def\<close>)
qed

lemma create_inv:
  assumes inv: "noc_inv L n P A s"
  shows "noc_inv L n P A (snd (active_create L F lcl s))"
proof (cases "active_search L lcl (- 1) ACTIVE_TYPE_INPUT s \<ge> 0")
  case False
  then show ?thesis
  proof (cases rule: alloc_slot_cases [OF inv])
    case (2 i)
    let ?s = "set_active (int i) (\<lambda>a. a\<lparr>act_resource := resource_set_used L (RESOURCE_INITIALIZER L)\<rparr>) s"
    have i: "i < length (actives ?s)" using 2(1) by simp
    show ?thesis
      using False 2 noc_inv_set_active_fields [OF 2(4) i]
      by (auto simp: active_create_def Let_def active_free_slot_def split: prod.split
          intro!: noc_inv_set_active_fields)
  qed (use False inv in \<open>simp add: active_create_def\<close>)
qed (use inv in \<open>simp add: active_create_def\<close>)

lemma open_inv:
  assumes inv: "noc_inv L n P A s"
  shows "noc_inv L n P A (snd (active_open L H F lcl rmt s))"
proof -
  define s0 where "s0 = (if clock_error s = 0
    then let (t1, s) = read_clock H s; (t2, s) = read_clock H s in s\<lparr>clock_error := t2 - t1\<rparr> else s)"
  have inv0: "noc_inv L n P A s0"
    using inv by (simp add: s0_def read_clock_eq)
  note run = active_open_def s0_def [symmetric] Let_def
  show ?thesis
  proof (cases "active_search L lcl rmt ACTIVE_TYPE_OUTPUT s0 \<ge> 0")
    case False
    then show ?thesis
    proof (cases rule: alloc_slot_cases [OF inv0])
      case (2 i)
      let ?s = "set_active (int i) (\<lambda>a. a\<lparr>act_resource := resource_set_used L (RESOURCE_INITIALIZER L)\<rparr>) s0"
      have i: "i < length (actives ?s)" using 2(1) by simp
      show ?thesis
        using False 2 noc_inv_set_active_fields [OF 2(4) i]
        by (auto simp: run active_free_slot_def split: prod.split intro!: noc_inv_set_active_fields)
    qed (use False inv0 in \<open>simp add: run\<close>)
  qed (use inv0 in \<open>simp add: run\<close>)
qed

end

section \<open>Reachable states\<close>

text \<open>
  One step is one call of an operation on the channels of a facility with any
  arguments (\<open>active_valid_call\<close> is the assertion of the source on them).  A message is
  stored only while the counter of ages has not run out, and waiting relies on the
  device as \<open>device_delivers\<close> says.
\<close>

inductive channel_step ::
  "'r klib \<Rightarrow> 'h noc_hal \<Rightarrow> ('r, 'h) active_functions \<Rightarrow> int \<Rightarrow> 'r mbuffer_pool
    \<Rightarrow> ('r, 'h) noc \<Rightarrow> ('r, 'h) noc \<Rightarrow> bool"
  for L H F n P where
  alloc: "active_alloc L lcl rmt portid ctype s = (r, s') \<Longrightarrow> channel_step L H F n P s s'"
| release: "active_valid_call L F fd s \<Longrightarrow> active_release L F fd s = Some (r, s') \<Longrightarrow>
    channel_step L H F n P s s'"
| aread: "active_valid_call L F fd s \<Longrightarrow> active_aread L H F fd config stats s = Some (r, stats', s') \<Longrightarrow>
    channel_step L H F n P s s'"
| awrite: "active_valid_call L F fd s \<Longrightarrow> curr_age (mbufs s) \<noteq> - 1 \<Longrightarrow>
    active_awrite L H F fd config stats s = Some (r, stats', s') \<Longrightarrow> channel_step L H F n P s s'"
| wait: "active_valid_call L F fd s \<Longrightarrow> curr_age (mbufs s) \<noteq> - 1 \<Longrightarrow>
    device_delivers L F n P (snd (clock_read H (hw s))) (actives s ! nat (get_actid F fd)) (get_portid F fd) \<Longrightarrow>
    active_wait L H F fd config stats s = Some (r, stats', s') \<Longrightarrow> channel_step L H F n P s s'"
| create: "active_create L F lcl s = (r, s') \<Longrightarrow> channel_step L H F n P s s'"
| open_channel: "active_open L H F lcl rmt s = (r, s') \<Longrightarrow> channel_step L H F n P s s'"

context facility
begin

lemma channel_step_inv:
  assumes "channel_step L H F n P s s'" "klib_laws L" "noc_inv L n P A s"
  shows "noc_inv L n P A s'"
  using assms(1)
proof cases
  case (alloc lcl rmt portid ctype r)
  then show ?thesis using alloc_inv [OF assms(2,3), of lcl rmt portid ctype] by simp
next
  case (release fd r)
  then show ?thesis using release_total [OF assms(2,3)] by fastforce
next
  case (aread fd config stats r stats')
  then show ?thesis using aread_total [OF assms(2,3), of fd H config stats] by fastforce
next
  case (awrite fd config stats r stats')
  then show ?thesis using awrite_total [OF assms(2,3), of fd H config stats] by fastforce
next
  case (wait fd config stats r stats')
  then show ?thesis using wait_total [OF assms(2,3), of fd H config stats] by fastforce
next
  case (create lcl r)
  then show ?thesis using create_inv [OF assms(3), of lcl] by simp
next
  case (open_channel lcl rmt r)
  then show ?thesis using open_inv [OF assms(3), of H lcl rmt] by simp
qed

lemma reachable_inv:
  assumes "(channel_step L H F n P)\<^sup>*\<^sup>* s0 s" "klib_laws L" "noc_inv L n P A s0"
  shows "noc_inv L n P A s"
  using assms(1) by induction (use assms channel_step_inv in blast)+

end

section \<open>Fresh tables\<close>

text \<open>A channel just after the initialisation of its facility.\<close>

definition fresh_port :: "'r klib \<Rightarrow> 'r port \<Rightarrow> bool" where
  "fresh_port L port \<longleftrightarrow> port_resource port = RESOURCE_INITIALIZER L \<and> port_flags port = 0
    \<and> port_mbufferid port = - 1 \<and> port_mbufferpool port = None"

definition fresh_channel :: "'r klib \<Rightarrow> int \<Rightarrow> 'r mbuffer_pool \<Rightarrow> 'r mbuffer_pool \<Rightarrow> 'r active \<Rightarrow> bool" where
  "fresh_channel L n P A a \<longleftrightarrow> mbufferpool a = P \<and> mbufferpool_aux a = A
    \<and> (\<forall>port \<in> set (ports (portpool a)). fresh_port L port)
    \<and> length (ports (portpool a)) = nat n \<and> nports (portpool a) = n \<and> used_ports (portpool a) = 0
    \<and> requests a = \<lparr>head = 0, tail = 0, max_capacity = n, nelements = 0, fifo = replicate (nat n) (- 1)\<rparr>"

lemma fresh_fifo_inv:
  assumes "n = 2 ^ k"
  shows "fifo_inv \<lparr>head = 0, tail = 0, max_capacity = n, nelements = 0, fifo = replicate (nat n) (- 1)\<rparr>"
  using assms by (auto simp: fifo_inv_def)

lemma fresh_channel_port:
  assumes "fresh_channel L n P A a" "0 \<le> p" "p < n"
  shows "fresh_port L (port_of a p)"
  using assms by (auto simp: fresh_channel_def port_of_def)

lemma fresh_channel_ok:
  assumes laws: "klib_laws L" and a: "fresh_channel L n P A a" and n: "n = 2 ^ k"
  shows "channel_ok L n P A a"
proof -
  have np: "0 < n" using n by simp
  have "count_if (\<lambda>port. resource_is_used L (port_resource port)) (ports (portpool a)) = 0"
    using a laws by (auto simp: fresh_channel_def fresh_port_def count_if_def filter_empty_conv)
  moreover have "waiting_ports (requests a) = []"
    using a by (simp add: fresh_channel_def waiting_ports_def)
  moreover have "\<not> port_is_requested (port_of a p)" if "valid_port a p" for p
    using fresh_channel_port [OF a, of p] that a
    by (auto simp: valid_port_def fresh_channel_def fresh_port_def port_is_requested_def)
  ultimately show ?thesis
    using a np fresh_fifo_inv [OF n]
    by (auto simp: channel_ok_def portpool_inv_def requests_inv_def fresh_channel_def)
qed

lemma fresh_noc_inv:
  assumes laws: "klib_laws L" and n: "n = 2 ^ k"
    and len: "mbuffers P + nmbuffers P \<le> length (mb_table (mbufs s))"
    and free: "\<And>b. b \<in> set (mb_table (mbufs s)) \<Longrightarrow> \<not> resource_is_used L (mb_resource b)"
    and fresh: "\<And>a. a \<in> set (actives s) \<Longrightarrow> fresh_channel L n P A a"
  shows "noc_inv L n P A s"
proof -
  have "\<not> stored L b" if "b \<in> set (pool_buffers P (mbufs s))" for b
    using that free by (auto simp: pool_buffers_def stored_def dest: in_set_takeD in_set_dropD)
  then have "mbuffer_inv L P (mbufs s)" using len by (auto simp: mbuffer_inv_def)
  moreover have "\<not> owns s n i p b" for i p b
    using fresh_channel_port [OF fresh [OF nth_mem], of i p] by (auto simp: owns_def fresh_port_def)
  moreover have "sender_ok L n (length (actives s)) (mb_table (mbufs s) ! (mbuffers P + j))"
    if "j < nmbuffers P" for j
    using free [OF nth_mem] len that by (simp add: sender_ok_def)
  ultimately show ?thesis
    using fresh_channel_ok [OF laws fresh [OF nth_mem] n] by (auto simp: noc_inv_def)
qed

text \<open>Opening a channel to every node in turn keeps the tables well formed.\<close>

section \<open>Opening a channel to every node\<close>

lemma map_int_upt_eq: "[0..N - 1] = map int [0..<nat N]"
  by (rule nth_equalityI) auto

text \<open>Slot 0 is the input channel, slot \<open>j + 1\<close> the output channel to node \<open>j\<close>, for the
  first \<open>k\<close> nodes; the other slots are free.\<close>

definition connected :: "'r klib \<Rightarrow> int \<Rightarrow> nat \<Rightarrow> ('r, 'h) noc \<Rightarrow> bool" where
  "connected L lcl k s \<longleftrightarrow> k < length (actives s)
    \<and> matches_channel L lcl (- 1) ACTIVE_TYPE_INPUT (actives s ! 0)
    \<and> (\<forall>j < k. matches_channel L lcl (int j) ACTIVE_TYPE_OUTPUT (actives s ! Suc j))
    \<and> (\<forall>j < length (actives s). k < j \<longrightarrow> \<not> resource_is_used L (act_resource (actives s ! j)))"

context facility
begin

lemma open_all_inv:
  "open_all (active_open L H F lcl) is s = Some s' \<Longrightarrow> noc_inv L n P A s \<Longrightarrow> noc_inv L n P A s'"
proof (induction "is" arbitrary: s)
  case (Cons i "is")
  obtain r s1 where "active_open L H F lcl i s = (r, s1)" by fastforce
  then show ?case using Cons.IH [of s1] Cons.prems open_inv [of L s H lcl i]
    by (auto simp: KASSERT_def split: if_splits)
qed simp

lemma create_connected:
  assumes laws: "klib_laws L" and dev: "\<And>h. 0 \<le> fst (do_create F lcl h)"
    and free: "\<And>a. a \<in> set (actives s) \<Longrightarrow> \<not> resource_is_used L (act_resource a)" and ne: "actives s \<noteq> []"
  shows "fst (active_create L F lcl s) \<ge> 0" "connected L lcl 0 (snd (active_create L F lcl s))"
    "length (actives (snd (active_create L F lcl s))) = length (actives s)"
proof -
  obtain a as where s: "actives s = a # as" using ne by (cases "actives s") auto
  have search: "active_search L lcl (- 1) ACTIVE_TYPE_INPUT s = - EBUSY"
    using free by (cases rule: active_search_cases [of L lcl "- 1" 0 s]) (auto simp: matches_channel_def)
  have slot: "first_index (\<lambda>active. \<not> resource_is_used L (act_resource active)) (actives s) = Some 0"
    using free s by simp
  obtain fd h where "do_create F lcl (hw s) = (fd, h)" by fastforce
  then have run: "active_create L F lcl s = (0, (set_active 0 (\<lambda>active. active\<lparr>act_resource :=
        resource_set_notbusy L (resource_set_rdonly L (resource_set_used L (RESOURCE_INITIALIZER L))),
        act_flags := 0, hwfd := fd, act_local := lcl, act_remote := - 1, refcount := 0\<rparr>) s)\<lparr>hw := h\<rparr>)"
    using search slot dev [of "hw s"] s
    by (simp add: active_create_def active_alloc_slot_def set_active_def)
  show "fst (active_create L F lcl s) \<ge> 0" "connected L lcl 0 (snd (active_create L F lcl s))"
    "length (actives (snd (active_create L F lcl s))) = length (actives s)"
    using laws free s by (auto simp: run connected_def matches_channel_def set_active_def nth_Cons')
qed

lemma open_connected:
  assumes laws: "klib_laws L" and dev: "\<And>h. 0 \<le> fst (do_open F lcl rmt h)" and loc: "node_is_local H lcl"
    and con: "connected L lcl k s" and rmt: "rmt = int k" and room: "Suc k < length (actives s)"
  shows "fst (active_open L H F lcl rmt s) \<ge> 0" "connected L lcl (Suc k) (snd (active_open L H F lcl rmt s))"
    "length (actives (snd (active_open L H F lcl rmt s))) = length (actives s)"
proof -
  define s0 where "s0 = (if clock_error s = 0
    then let (t1, s) = read_clock H s; (t2, s) = read_clock H s in s\<lparr>clock_error := t2 - t1\<rparr> else s)"
  have acts: "actives s0 = actives s" by (simp add: s0_def read_clock_eq)
  have used: "resource_is_used L (act_resource (actives s ! j)) \<and> act_remote (actives s ! j) = int j - 1"
    if "j \<le> k" for j
    using con that by (cases j) (auto simp: connected_def matches_channel_def)
  have free: "\<not> resource_is_used L (act_resource (actives s ! j))" if "k < j" "j < length (actives s)" for j
    using con that by (simp add: connected_def)
  have "\<not> matches_channel L lcl rmt ACTIVE_TYPE_OUTPUT (actives s ! j)" if "j < length (actives s)" for j
    using used [of j] free [OF _ that] rmt by (cases "j \<le> k") (auto simp: matches_channel_def)
  then have search: "active_search L lcl rmt ACTIVE_TYPE_OUTPUT s0 = - EBUSY"
    using acts by (cases rule: active_search_cases [of L lcl rmt 1 s0]) auto
  have slot: "first_index (\<lambda>active. \<not> resource_is_used L (act_resource active)) (actives s) = Some (Suc k)"
    using used free room by (auto simp: first_index_Some_iff)
  obtain fd h where op: "(if \<not> node_is_local H rmt then do_open F lcl rmt (hw s0) else (- EINVAL, hw s0)) = (fd, h)"
    by fastforce
  have fd: "\<not> (\<not> node_is_local H rmt \<and> fd < 0)" using op dev [of "hw s0"] by (auto split: if_splits)
  have run: "active_open L H F lcl rmt s = (int (Suc k), (set_active (int (Suc k)) (\<lambda>active. active\<lparr>
        act_flags := 0, hwfd := fd, refcount := 0, act_local := lcl, act_remote := rmt, act_resource :=
        resource_set_notbusy L (resource_set_wronly L (resource_set_used L (RESOURCE_INITIALIZER L)))\<rparr>) s0)\<lparr>hw := h\<rparr>)"
    unfolding active_open_def s0_def [symmetric] unfolding Let_def active_alloc_slot_def acts slot
    by (cases "node_is_local H rmt")
      (use search op fd loc room in \<open>simp_all add: set_active_def acts nat_add_distrib\<close>)
  show "fst (active_open L H F lcl rmt s) \<ge> 0" "connected L lcl (Suc k) (snd (active_open L H F lcl rmt s))"
    "length (actives (snd (active_open L H F lcl rmt s))) = length (actives s)"
    unfolding run using con room rmt laws
    by (auto simp: connected_def matches_channel_def set_active_def acts nth_list_update less_Suc_eq)
qed

lemma open_all_connected:
  assumes laws: "klib_laws L" and dev: "\<And>rmt h. 0 \<le> fst (do_open F lcl rmt h)" and loc: "node_is_local H lcl"
  shows "connected L lcl k s \<Longrightarrow> k + m < length (actives s) \<Longrightarrow>
    \<exists>s'. open_all (active_open L H F lcl) (map int [k..<k + m]) s = Some s' \<and> connected L lcl (k + m) s'"
proof (induction m arbitrary: k s)
  case (Suc m)
  note one = open_connected [OF laws dev loc Suc.prems(1) refl]
  have room: "Suc k < length (actives s)" "Suc k + m < length (actives (snd (active_open L H F lcl (int k) s)))"
    using Suc.prems(2) one(3) by auto
  obtain s' where "open_all (active_open L H F lcl) (map int [Suc k..<Suc k + m])
        (snd (active_open L H F lcl (int k) s)) = Some s'" "connected L lcl (Suc k + m) s'"
    using Suc.IH [OF one(2) [OF room(1)] room(2)] by blast
  moreover have "[k..<k + Suc m] = k # [Suc k..<Suc k + m]" by (simp add: upt_conv_Cons del: upt_Suc)
  ultimately show ?case
    using one(1) [OF room(1)] by (simp add: case_prod_beta KASSERT_def del: upt_Suc)
qed simp

lemma boot_connected:
  assumes laws: "klib_laws L" and loc: "node_is_local H lcl"
    and dev: "\<And>h. 0 \<le> fst (do_create F lcl h)" "\<And>rmt h. 0 \<le> fst (do_open F lcl rmt h)"
    and free: "\<And>a. a \<in> set (actives s) \<Longrightarrow> \<not> resource_is_used L (act_resource a)"
    and room: "nat (PROCESSOR_NOC_NODES_NUM H) < length (actives s)"
  obtains r s1 s' where "active_create L F lcl s = (r, s1)" "0 \<le> r"
    "open_all (active_open L H F lcl) [0..PROCESSOR_NOC_NODES_NUM H - 1] s1 = Some s'"
    "connected L lcl (nat (PROCESSOR_NOC_NODES_NUM H)) s'"
proof -
  let ?s1 = "snd (active_create L F lcl s)"
  have "actives s \<noteq> []" using room by auto
  note create = create_connected [OF laws dev(1) free this]
  obtain s' where s': "open_all (active_open L H F lcl) (map int [0..<0 + nat (PROCESSOR_NOC_NODES_NUM H)]) ?s1 = Some s'"
      "connected L lcl (0 + nat (PROCESSOR_NOC_NODES_NUM H)) s'"
    using open_all_connected [OF laws dev(2) loc create(2), of "nat (PROCESSOR_NOC_NODES_NUM H)"] create(3) room by auto
  have "[0..PROCESSOR_NOC_NODES_NUM H - 1] = map int [0..<nat (PROCESSOR_NOC_NODES_NUM H)]"
    by (rule map_int_upt_eq)
  then show thesis
    using s' create(1) by (intro that [of "fst (active_create L F lcl s)" ?s1 s']) simp_all
qed

end

end
