(* ===== verification/Channel_Flow.thy ===== *)
theory Channel_Flow
  imports Channel_Ops
begin

text \<open>
  What happens to a message over several operations on physical channels, proved once
  for every facility: a message written to the local node and read back, a message
  handed to the device and its completion, and the life of a port.
\<close>

context facility
begin

section \<open>Decoding identifiers\<close>

lemma valid_call_cong:
  assumes "length (actives s') = length (actives s)"
    and "\<And>i. i < length (actives s) \<Longrightarrow> nports (portpool (actives s' ! i)) = nports (portpool (actives s ! i))"
    and "klib_laws L"
  shows "active_valid_call L F fd s' = active_valid_call L F fd s"
  using assms by (auto simp: active_valid_call_def ACTIVE_GET_NR_PORTS_def)

lemma valid_call_inv:
  assumes "klib_laws L" "noc_inv L n P A s" "noc_inv L n P A s'" "length (actives s') = length (actives s)"
  shows "active_valid_call L F fd s' = active_valid_call L F fd s"
  using assms channel_okD(3) [OF noc_invD(2) [OF assms(2)]] channel_okD(3) [OF noc_invD(2) [OF assms(3)]]
  by (intro valid_call_cong) simp_all

section \<open>A message to the local node\<close>

text \<open>The write stores the message at the end of the queue.\<close>

lemma forward_write:
  assumes laws: "klib_laws L" and inv: "noc_inv L n P A s" and age: "curr_age (mbufs s) \<noteq> - 1"
    and call: "active_valid_call L F fd s"
    and fd: "get_actid F fd = int i" "i < length (actives s)" "get_portid F fd = p" "0 \<le> p" "p < n"
    and loc: "node_is_local H (act_remote (actives s ! i))"
    and port: "(i, p) \<in> used_port_set L n s" "port_mbufferid (port_of (actives s ! i) p) < 0"
      "\<not> port_is_requested (port_of (actives s ! i) p)"
    and room: "length (waiting_ports (requests (actives s ! i))) < nat (max_capacity (requests (actives s ! i)))"
    and free: "\<exists>j < nmbuffers A. \<not> resource_is_used L (mb_resource (mb_table (mbufs s) ! (mbuffers A + j)))"
    and size: "\<And>b. b \<in> set (pool_buffers A (mbufs s)) \<Longrightarrow> cfg_size config \<le> length (data (mb_message b))"
  obtains s1 stats1 buf where "active_awrite L H F fd config stats s = Some (ACTIVE_COMM_RECEIVED, stats1, s1)"
    "noc_inv L n P A s1" "length (actives s1) = length (actives s)" "used_port_set L n s1 = used_port_set L n s"
    "umem s1 = umem s"
    "pending L P (mbufs s1) = pending L P (mbufs s) @ [buf]" "pending L A (mbufs s1) = pending L A (mbufs s) @ [buf]"
    "stored L buf" "mb_actid buf = int i" "mb_portid buf = p"
    "hdr_dest (header (mb_message buf)) = cfg_remote_addr config" "hdr_src (header (mb_message buf)) = cfg_local_addr config"
    "take (cfg_size config) (data (mb_message buf)) = load_bytes (umem s) (cfg_buffer config) (cfg_size config)"
    "cfg_size config \<le> length (data (mb_message buf))"
    "waiting_ports (requests (actives s1 ! i)) = waiting_ports (requests (actives s ! i)) @ [p]"
    "\<And>j. j < length (actives s) \<Longrightarrow> channel_same n (actives s ! j) (actives s1 ! j)"
proof -
  have run: "active_awrite L H F fd config stats s = awrite_forward L H F (int i) p config stats s"
    by (cases rule: active_awrite_cases [OF laws inv call fd, of H config stats])
      (use port loc in \<open>auto simp: owns_def\<close>)
  show thesis
  proof (cases rule: awrite_forward_spec [OF laws inv fd(2,4,5) age, of H config stats])
    case 1 then show thesis using port(3) room by blast
  next
    case 2 then show thesis using free by blast
  next
    case (3 a' m' h stats' buf j)
    let ?s1 = "(set_active (int i) (\<lambda>_. a') s)\<lparr>mbufs := m', hw := h\<rparr>"
    let ?old = "mb_table (mbufs s) ! (mbuffers A + j)"
    have "mbuffer_inv L A (mbufs s)" using mbuffer_inv_sub [OF noc_invD(1) [OF inv] aux_pool] .
    then have "?old \<in> set (pool_buffers A (mbufs s))"
      using 3(10) pool_buffers_length pool_buffers_nth by (metis nth_mem)
    then have "cfg_size config \<le> length (data (MBUFFER_MESSAGE_INITIALIZER (mb_message ?old)))"
      using size by (simp add: MBUFFER_MESSAGE_INITIALIZER_def)
    with 3(11) have msg: "hdr_dest (header (mb_message buf)) = cfg_remote_addr config"
      "hdr_src (header (mb_message buf)) = cfg_local_addr config"
      "take (cfg_size config) (data (mb_message buf)) = load_bytes (umem s) (cfg_buffer config) (cfg_size config)"
      "cfg_size config \<le> length (data (mb_message buf))"
      by (simp_all add: addressed_def load_bytes_def)
    have same: "channel_same n (actives s ! j) (actives ?s1 ! j)" if "j < length (actives s)" for j
      using 3(3) fd(2) that by (cases "j = i") (simp_all add: set_active_def)
    have "used_port_set L n ?s1 = used_port_set L n s"
      by (rule used_port_set_cong) (use same in \<open>simp_all add: set_active_def\<close>)
    then show thesis
      by (intro that [of stats' ?s1 buf]) (use run 3 msg same fd(2) in \<open>simp_all add: set_active_def\<close>)
  qed
qed

text \<open>Reading the oldest stored message that matches.\<close>

lemma stored_read:
  fixes config :: active_config and H :: "'h noc_hal"
  assumes laws: "klib_laws L" and inv: "noc_inv L n P A s" and call: "active_valid_call L F fd s"
    and fd: "get_actid F fd = int i" "i < length (actives s)" "get_portid F fd = p" "0 \<le> p" "p < n"
    and port: "(i, p) \<in> used_port_set L n s"
  defines "B \<equiv> (if node_is_local H (get_actid F (cfg_remote_addr config)) then A else P)"
  assumes msgs: "filter (mbuffer_matches L B (cfg_local_addr config) (cfg_remote_addr config)) (pending L B (mbufs s)) = buf # bufs"
  obtains s' stats' where "active_aread L H F fd config stats s = Some (ACTIVE_COMM_RECEIVED, stats', s')"
    "noc_inv L n P A s'" "pending L P (mbufs s') = remove1 buf (pending L P (mbufs s))"
    "cfg_size config \<le> length (data (mb_message buf)) \<Longrightarrow>
      umem s' = store_bytes (umem s) (cfg_buffer config) (take (cfg_size config) (data (mb_message buf)))"
    "ps_volume stats' = ps_volume stats + cfg_size config" "length (actives s') = length (actives s)"
    "\<And>i. i < length (actives s) \<Longrightarrow> channel_same n (actives s ! i) (actives s' ! i)"
    "\<And>p a. mb_actid buf = int a \<Longrightarrow> mb_portid buf = p \<Longrightarrow> 0 \<le> p \<Longrightarrow>
      a < length (actives s) \<and> p < n \<and> do_request_clear L p (actives s ! a) = Some (0, actives s' ! a)"
proof -
  have sub: "sub_pool B P" using aux_pool by (simp add: B_def)
  obtain j where j: "j < nmbuffers B" "mb_table (mbufs s) ! (mbuffers B + j) = buf" "stored L buf"
      "active_aread L H F fd config stats s = aread_stored L H B (int j) config stats s"
    by (cases rule: active_aread_cases [OF laws inv call fd, of H config stats, folded B_def])
      (use port msgs in auto)
  show thesis
    by (rule aread_stored_spec [OF laws inv sub j(1) j(2) [symmetric] j(3), of H config stats])
      (use j(4) in \<open>auto intro: that\<close>)
qed

lemma local_roundtrip:
  fixes wc rc :: active_config and H :: "'h noc_hal"
  assumes laws: "klib_laws L" and inv: "noc_inv L n P A s" and age: "curr_age (mbufs s) \<noteq> - 1"
    and wcall: "active_valid_call L F wfd s"
    and wfd: "get_actid F wfd = int i" "i < length (actives s)" "get_portid F wfd = p" "0 \<le> p" "p < n"
    and loc: "node_is_local H (act_remote (actives s ! i))"
    and port: "(i, p) \<in> used_port_set L n s" "port_mbufferid (port_of (actives s ! i) p) < 0"
      "p \<notin> set (waiting_ports (requests (actives s ! i)))"
    and room: "length (waiting_ports (requests (actives s ! i))) < nat (max_capacity (requests (actives s ! i)))"
    and free: "\<exists>j < nmbuffers A. \<not> resource_is_used L (mb_resource (mb_table (mbufs s) ! (mbuffers A + j)))"
    and size: "\<And>b. b \<in> set (pool_buffers A (mbufs s)) \<Longrightarrow> cfg_size wc \<le> length (data (mb_message b))"
    and rcall: "active_valid_call L F rfd s"
    and rport: "(nat (get_actid F rfd), get_portid F rfd) \<in> used_port_set L n s"
    and addr: "cfg_local_addr rc = cfg_remote_addr wc" "cfg_size rc = cfg_size wc"
    and src: "\<And>b. hdr_src (header (mb_message b)) = cfg_local_addr wc \<Longrightarrow> source_check P b (cfg_remote_addr rc)"
  defines "B \<equiv> (if node_is_local H (get_actid F (cfg_remote_addr rc)) then A else P)"
  assumes first: "filter (mbuffer_matches L B (cfg_local_addr rc) (cfg_remote_addr rc)) (pending L B (mbufs s)) = []"
  shows "\<exists>stats1 s1 stats2 s2.
    active_awrite L H F wfd wc wstats s = Some (ACTIVE_COMM_RECEIVED, stats1, s1)
    \<and> active_aread L H F rfd rc rstats s1 = Some (ACTIVE_COMM_RECEIVED, stats2, s2)
    \<and> umem s2 = store_bytes (umem s) (cfg_buffer rc) (load_bytes (umem s) (cfg_buffer wc) (cfg_size wc))
    \<and> pending L P (mbufs s2) = pending L P (mbufs s)
    \<and> (length (waiting_ports (requests (actives s1 ! i))) < nat (max_capacity (requests (actives s1 ! i))) \<longrightarrow>
        waiting_ports (requests (actives s2 ! i)) = waiting_ports (requests (actives s ! i))
        \<and> \<not> port_is_requested (port_of (actives s2 ! i) p))"
proof -
  have notreq: "\<not> port_is_requested (port_of (actives s ! i) p)"
    using channel_okD(5,6) [OF noc_invD(2) [OF inv wfd(2)]] port(3) wfd(4,5) requests_invD(4) by blast
  show ?thesis
  proof (rule forward_write [OF laws inv age wcall wfd loc port(1,2) notreq room free size])
    fix stats1 s1 buf
    assume w: "active_awrite L H F wfd wc wstats s = Some (ACTIVE_COMM_RECEIVED, stats1, s1)"
      and inv1: "noc_inv L n P A s1" and len: "length (actives s1) = length (actives s)"
      and used: "used_port_set L n s1 = used_port_set L n s" and um: "umem s1 = umem s"
      and pend: "pending L P (mbufs s1) = pending L P (mbufs s) @ [buf]" "pending L A (mbufs s1) = pending L A (mbufs s) @ [buf]"
      and buf: "stored L buf" "mb_actid buf = int i" "mb_portid buf = p"
        "hdr_dest (header (mb_message buf)) = cfg_remote_addr wc" "hdr_src (header (mb_message buf)) = cfg_local_addr wc"
        "take (cfg_size wc) (data (mb_message buf)) = load_bytes (umem s) (cfg_buffer wc) (cfg_size wc)"
        "cfg_size wc \<le> length (data (mb_message buf))"
      and ring: "waiting_ports (requests (actives s1 ! i)) = waiting_ports (requests (actives s ! i)) @ [p]"
    have call1: "active_valid_call L F rfd s1" using valid_call_inv [OF laws inv inv1 len] rcall by blast
    have new: "buf \<notin> set (pending L P (mbufs s))"
      using distinct_pending [OF noc_invD(1) [OF inv1]] pend(1) by auto
    have msgs: "filter (mbuffer_matches L B (cfg_local_addr rc) (cfg_remote_addr rc)) (pending L B (mbufs s1)) = [buf]"
      using first pend buf(1,4) addr(1) src [OF buf(5)] aux_pool
      by (cases "node_is_local H (get_actid F (cfg_remote_addr rc))")
        (simp_all add: B_def mbuffer_matches_def stored_def sub_pool_def)
    show ?thesis
    proof (rule valid_callE [OF laws inv1 call1])
      fix j q
      assume rfd: "get_actid F rfd = int j" "j < length (actives s1)" "get_portid F rfd = q" "0 \<le> q" "q < n"
      then have rport1: "(j, q) \<in> used_port_set L n s1" using rport used by simp
      show ?thesis
      proof (rule stored_read [OF laws inv1 call1 rfd rport1, of H rc buf "[]" rstats])
        show "filter (mbuffer_matches L (if node_is_local H (get_actid F (cfg_remote_addr rc)) then A else P)
            (cfg_local_addr rc) (cfg_remote_addr rc))
            (pending L (if node_is_local H (get_actid F (cfg_remote_addr rc)) then A else P) (mbufs s1)) = [buf]"
          using msgs unfolding B_def .
      next
        fix s2 stats2
        assume r: "active_aread L H F rfd rc rstats s1 = Some (ACTIVE_COMM_RECEIVED, stats2, s2)"
          and pend2: "pending L P (mbufs s2) = remove1 buf (pending L P (mbufs s1))"
          and um2: "cfg_size rc \<le> length (data (mb_message buf)) \<Longrightarrow>
            umem s2 = store_bytes (umem s1) (cfg_buffer rc) (take (cfg_size rc) (data (mb_message buf)))"
          and clear: "\<And>p a. mb_actid buf = int a \<Longrightarrow> mb_portid buf = p \<Longrightarrow> 0 \<le> p \<Longrightarrow>
            a < length (actives s1) \<and> p < n \<and> do_request_clear L p (actives s1 ! a) = Some (0, actives s2 ! a)"
        have i1: "i < length (actives s1)" using wfd(2) len by simp
        have "waiting_ports (requests (actives s2 ! i)) = waiting_ports (requests (actives s ! i))
            \<and> \<not> port_is_requested (port_of (actives s2 ! i) p)"
          if "length (waiting_ports (requests (actives s1 ! i))) < nat (max_capacity (requests (actives s1 ! i)))"
          by (rule ring_clear [OF laws noc_invD(2) [OF inv1 i1] wfd(4,5)])
            (use that clear [OF buf(2,3) wfd(4)] ring port(3) in \<open>auto simp: remove1_append\<close>)
        moreover have "pending L P (mbufs s2) = pending L P (mbufs s)"
          using pend2 pend(1) new by (simp add: remove1_append)
        moreover have "umem s2 = store_bytes (umem s) (cfg_buffer rc) (load_bytes (umem s) (cfg_buffer wc) (cfg_size wc))"
          using um2 um buf(6,7) addr(2) by simp
        ultimately show ?thesis using w r by blast
      qed
    qed
  qed
qed

section \<open>A message to a remote node\<close>

lemma remote_write:
  fixes config :: active_config
  assumes laws: "klib_laws L" and inv: "noc_inv L n P A s" and call: "active_valid_call L F fd s"
    and fd: "get_actid F fd = int i" "i < length (actives s)" "get_portid F fd = p" "0 \<le> p" "p < n"
    and new: "port_mbufferid (port_of (actives s ! i) p) < 0" "\<not> node_is_local H (act_remote (actives s ! i))"
      "(i, p) \<in> used_port_set L n s"
  defines "bytes \<equiv> load_bytes (umem s) (cfg_buffer config) (cfg_size config)"
  obtains (nobuf) "active_awrite L H F fd config stats s = Some (- EBUSY, stats, s)"
      "\<forall>k < nmbuffers P. resource_is_used L (mb_resource (mb_table (mbufs s) ! (mbuffers P + k)))"
  | (buffered) r s' k where "active_awrite L H F fd config stats s = Some (r, stats, s')"
      "noc_inv L n P A s'" "owns s' n i p (int k)" "pending L P (mbufs s') = pending L P (mbufs s)" "umem s' = umem s"
      "addressed config bytes (MBUFFER_MESSAGE_INITIALIZER (mb_message (mb_table (mbufs s) ! (mbuffers P + k))))
        (mb_message (mb_table (mbufs s') ! (mbuffers P + k)))"
      "r < 0 \<or> r = ACTIVE_COMM_SUCCESS \<and> \<not> resource_is_busy L (act_resource (actives s ! i))
        \<and> resource_is_busy L (act_resource (actives s' ! i))
        \<and> (\<exists>ps. waiting_ports (requests (actives s' ! i)) = p # ps)
        \<and> (\<exists>h. 0 \<le> fst (do_awrite F (hwfd (actives s ! i)) (mb_message (mb_table (mbufs s') ! (mbuffers P + k)))
              (act_size (actives s ! i)) h))"
proof (cases rule: awrite_prepare [OF laws inv call fd new, of config stats])
  case 1
  then show thesis by (rule nobuf)
next
  case (2 k s1)
  have i1: "i < length (actives s1)" using 2(6) fd(2) by simp
  have a1: "act_resource (actives s1 ! i) = act_resource (actives s ! i)" "hwfd (actives s1 ! i) = hwfd (actives s ! i)"
    "act_size (actives s1 ! i) = act_size (actives s ! i)"
    using 2(6) fd(2) by simp_all
  note msg = 2(7) [folded bytes_def]
  show thesis
  proof (cases rule: awrite_send_spec [OF laws 2(2,3), of H stats])
    case w: (1 a')
    have "owns (set_active (int i) (\<lambda>_. a') s1) n i p (int k)"
      using owns_channel_same [OF i1 w(3)] 2(3) by simp
    then show thesis
      by (intro buffered [of "- EBUSY" "set_active (int i) (\<lambda>_. a') s1" k]) (use w 2 msg in \<open>simp_all\<close>)
  next
    case w: (2 a' r h)
    have "owns ((set_active (int i) (\<lambda>_. a') s1)\<lparr>hw := h\<rparr>) n i p (int k)"
      using owns_channel_same [OF i1 w(4)] 2(3) by simp
    then show thesis
      by (intro buffered [of r "(set_active (int i) (\<lambda>_. a') s1)\<lparr>hw := h\<rparr>" k]) (use w 2 msg in simp_all)
  next
    case w: (3 s' a' r h ps)
    have "\<exists>h. 0 \<le> fst (do_awrite F (hwfd (actives s ! i)) (mb_message (mb_table (mbufs s1) ! (mbuffers P + k)))
        (act_size (actives s ! i)) h)"
      using w(8,9) a1 by (metis fst_conv)
    moreover have "resource_is_busy L (act_resource (actives s' ! i))" "waiting_ports (requests (actives s' ! i)) = p # ps"
      using w(5,6) laws by simp_all
    ultimately show thesis
      using 2 msg w a1 by (intro buffered [of ACTIVE_COMM_SUCCESS s' k]) simp_all
  qed
qed

section \<open>The life of a port\<close>

lemma noc_alloc_port:
  assumes laws: "klib_laws L" and inv: "noc_inv L n P A s" and i: "i < length (actives s)" and p: "0 \<le> p" "p < n"
    and free: "(i, p) \<notin> used_port_set L n s"
  defines "s' \<equiv> set_active (int i) (\<lambda>_. mark_port p (alloc_port L) 1 (actives s ! i)) s"
  shows "noc_inv L n P A s'" "used_port_set L n s' = insert (i, p) (used_port_set L n s)"
  unfolding s'_def
  by (use noc_mark_port [OF inv i p, of 1 "alloc_port L"] laws i p free in
      \<open>simp_all add: used_port_set_def port_is_requested_def\<close>)

lemma noc_free_port:
  assumes laws: "klib_laws L" and inv: "noc_inv L n P A s" and used: "(i, p) \<in> used_port_set L n s"
  defines "s' \<equiv> set_active (int i) (\<lambda>_. mark_port p (free_port L) (- 1) (actives s ! i)) s"
  shows "noc_inv L n P A s'" "used_port_set L n s' = used_port_set L n s - {(i, p)}"
proof -
  have i: "i < length (actives s)" and p: "0 \<le> p" "p < n" using used by (auto simp: used_port_set_def)
  show "noc_inv L n P A s'" "used_port_set L n s' = used_port_set L n s - {(i, p)}"
    unfolding s'_def
    by (use noc_mark_port [OF inv i p, of "- 1" "free_port L"] laws used in
        \<open>simp_all add: used_port_set_def port_is_requested_def\<close>)
qed

lemma release_used:
  assumes laws: "klib_laws L" and inv: "noc_inv L n P A s" and used: "(i, p) \<in> used_port_set L n s"
    and act: "resource_is_used L (act_resource (actives s ! i))"
    and none: "\<forall>b \<in> set (pending L P (mbufs s)).
      hdr_dest (header (mb_message b)) \<noteq> ACTIVE_LADDRESS_COMPOSE (act_local (actives s ! i)) p n"
  defines "fd \<equiv> ACTIVE_LADDRESS_COMPOSE (int i) p n"
  obtains s' where "active_release L F fd s = Some (0, s')" "used_port_set L n s' = used_port_set L n s - {(i, p)}"
    "active_release L F fd s' = Some (- EINVAL, s')"
proof -
  have i: "i < length (actives s)" and p: "0 \<le> p" "p < n" using used by (auto simp: used_port_set_def)
  define s' where "s' = set_active (int i) (\<lambda>_. mark_port p (free_port L) (- 1) (actives s ! i)) s"
  note s'_inv = noc_free_port [OF laws inv used, folded s'_def]
  have fd: "get_actid F fd = int i" "get_portid F fd = p"
    using p by (simp_all add: fd_def actid_compose portid_compose)
  have act': "actives s' ! i = mark_port p (free_port L) (- 1) (actives s ! i)" and i': "i < length (actives s')"
    using i by (simp_all add: s'_def actives_set_active_nth)
  have call: "active_valid_call L F fd s" "active_valid_call L F fd s'"
    using valid_callI [OF laws inv i p] valid_callI [OF laws s'_inv(1) i' p] by (simp_all add: fd_def)
  have "active_release L F fd s = Some (0, s')"
    by (cases rule: active_release_cases [OF laws inv call(1) fd(1) i fd(2) p])
      (use act none used in \<open>auto simp: s'_def\<close>)
  moreover have "active_release L F fd s' = Some (- EINVAL, s')"
    by (cases rule: active_release_cases [OF laws s'_inv(1) call(2) fd(1) i' fd(2) p])
      (use act none act' s'_inv(2) in \<open>auto simp: s'_def\<close>)
  ultimately show thesis using that s'_inv(2) by blast
qed

lemma port_life:
  assumes laws: "klib_laws L" and inv: "noc_inv L n P A s"
    and alloc: "active_alloc L lcl rmt portid ctype s = (fd, s1)" "0 \<le> fd"
  shows "\<exists>i p. fd = ACTIVE_LADDRESS_COMPOSE (int i) p n \<and> (i, p) \<notin> used_port_set L n s
    \<and> used_port_set L n s1 = insert (i, p) (used_port_set L n s)
    \<and> matches_channel L lcl rmt ctype (actives s ! i)
    \<and> (ctype \<noteq> ACTIVE_TYPE_OUTPUT \<longrightarrow> p = portid)
    \<and> ((\<forall>b \<in> set (pending L P (mbufs s)). hdr_dest (header (mb_message b)) \<noteq> ACTIVE_LADDRESS_COMPOSE lcl p n) \<longrightarrow>
        (\<exists>s2. active_release L F fd s1 = Some (0, s2) \<and> used_port_set L n s2 = used_port_set L n s
          \<and> active_release L F fd s2 = Some (- EINVAL, s2)))"
proof (cases rule: active_alloc_cases [OF laws inv, of lcl rmt portid ctype])
  case ok: (4 i p)
  have s1: "s1 = set_active (int i) (\<lambda>_. mark_port p (alloc_port L) 1 (actives s ! i)) s"
    and fd: "fd = ACTIVE_LADDRESS_COMPOSE (int i) p n" using ok(7) alloc by auto
  note s1_inv = noc_alloc_port [OF laws inv ok(1,2,3,5), folded s1]
  have chan: "resource_is_used L (act_resource (actives s1 ! i))" "act_local (actives s1 ! i) = lcl"
    "mbufs s1 = mbufs s"
    using ok(1,4) by (simp_all add: s1 actives_set_active_nth matches_channel_def)
  have "\<exists>s2. active_release L F fd s1 = Some (0, s2) \<and> used_port_set L n s2 = used_port_set L n s
      \<and> active_release L F fd s2 = Some (- EINVAL, s2)"
    if "\<forall>b \<in> set (pending L P (mbufs s)). hdr_dest (header (mb_message b)) \<noteq> ACTIVE_LADDRESS_COMPOSE lcl p n"
    by (rule release_used [OF laws s1_inv(1), of i p])
      (use that chan s1_inv(2) ok(5) fd in auto)
  then show ?thesis
    using fd ok(4,5,6) s1_inv(2) by (auto split: if_splits)
qed (use alloc in \<open>simp_all\<close>)

section \<open>Operations that fail half-way\<close>

text \<open>A local write that finds no buffer leaves its request behind.\<close>

lemma forward_without_buffer:
  assumes laws: "klib_laws L" and inv: "noc_inv L n P A s" and age: "curr_age (mbufs s) \<noteq> - 1"
    and call: "active_valid_call L F fd s"
    and fd: "get_actid F fd = int i" "i < length (actives s)" "get_portid F fd = p" "0 \<le> p" "p < n"
    and loc: "node_is_local H (act_remote (actives s ! i))"
    and port: "(i, p) \<in> used_port_set L n s" "port_mbufferid (port_of (actives s ! i) p) < 0"
      "\<not> port_is_requested (port_of (actives s ! i) p)"
    and room: "length (waiting_ports (requests (actives s ! i))) < nat (max_capacity (requests (actives s ! i)))"
    and full: "\<forall>j < nmbuffers A. resource_is_used L (mb_resource (mb_table (mbufs s) ! (mbuffers A + j)))"
  obtains a' where "active_awrite L H F fd config stats s = Some (- EBUSY, stats, set_active (int i) (\<lambda>_. a') s)"
    "channel_ok L n P A a'" "channel_same n (actives s ! i) a'" "port_is_requested (port_of a' p)"
proof -
  have run: "active_awrite L H F fd config stats s = awrite_forward L H F (int i) p config stats s"
    by (cases rule: active_awrite_cases [OF laws inv call fd, of H config stats])
      (use port loc in \<open>auto simp: owns_def\<close>)
  note chan = noc_invD(2) [OF inv fd(2)]
  show thesis
  proof (cases rule: ring_request [OF laws chan fd(4,5)])
    case 1
    then show thesis using room by blast
  next
    case (2 a')
    let ?s = "set_active (int i) (\<lambda>_. a') s"
    have "noc_inv L n P A ?s" by (rule noc_inv_channel_same [OF inv fd(2) 2(2,3)])
    then have "mbuffer_alloc L A (mbufs s) = (- EBUSY, mbufs s)"
      using full
      by (cases rule: mbuffer_alloc_cases [OF laws mbuffer_inv_sub [OF noc_invD(1) [OF inv] aux_pool]]) auto
    then have "awrite_forward L H F (int i) p config stats s = Some (- EBUSY, stats, ?s)"
      using port(3) 2(1) channel_okD(2) [OF chan] fd(2)
      by (simp add: awrite_forward_def Let_def set_active_def)
    then show thesis using that [of a'] run 2(2,3,4) by simp
  qed
qed

lemma requested_write_refused:
  assumes laws: "klib_laws L" and inv: "noc_inv L n P A s" and call: "active_valid_call L F fd s"
    and fd: "get_actid F fd = int i" "i < length (actives s)" "get_portid F fd = p" "0 \<le> p" "p < n"
    and loc: "node_is_local H (act_remote (actives s ! i))"
    and port: "(i, p) \<in> used_port_set L n s" "port_mbufferid (port_of (actives s ! i) p) < 0"
      "port_is_requested (port_of (actives s ! i) p)"
  shows "active_awrite L H F fd config stats s = Some (- EBUSY, stats, s)"
proof -
  have "active_awrite L H F fd config stats s = awrite_forward L H F (int i) p config stats s"
    by (cases rule: active_awrite_cases [OF laws inv call fd, of H config stats])
      (use port loc in \<open>auto simp: owns_def\<close>)
  then show ?thesis using port(3) by (simp add: awrite_forward_def Let_def)
qed

text \<open>A port that holds a buffer sends what is in it, whatever it is given.\<close>

lemma owned_write_ignores_config:
  assumes laws: "klib_laws L" and inv: "noc_inv L n P A s" and call: "active_valid_call L F fd s"
    and fd: "get_actid F fd = int i" "i < length (actives s)" "get_portid F fd = p" "0 \<le> p" "p < n"
    and port: "(i, p) \<in> used_port_set L n s" "owns s n i p (int k)"
  shows "active_awrite L H F fd config stats s = awrite_send L H F (int i) p (mbuffers P + k) stats s"
  by (cases rule: active_awrite_cases [OF laws inv call fd, of H config stats])
    (use port in \<open>auto simp: owns_def\<close>)

lemma owns_mark_port:
  assumes inv: "noc_inv L n P A s" and i: "i < length (actives s)" and p: "0 \<le> p" "p < n"
    and f: "port_mbufferid (f (port_of (actives s ! i) p)) = port_mbufferid (port_of (actives s ! i) p)"
  shows "owns (set_active (int i) (\<lambda>_. mark_port p f d (actives s ! i)) s) n j q b = owns s n j q b"
proof -
  have "port_mbufferid (port_of (set_port p f (actives s ! i)) q) = port_mbufferid (port_of (actives s ! i) q)"
    if "0 \<le> q" "q < n"
    using channel_port_of_set_port [OF noc_invD(2) [OF inv i] p that(1), of f] f by auto
  then show ?thesis
    using i by (auto simp: owns_def actives_set_active_nth)
qed

lemma release_alloc_keeps_buffer:
  assumes laws: "klib_laws L" and inv: "noc_inv L n P A s" and own: "owns s n i p b"
    and rel: "active_release L F (ACTIVE_LADDRESS_COMPOSE (int i) p n) s = Some (0, s1)"
    and alloc: "active_alloc L lcl rmt q ctype s1 = (ACTIVE_LADDRESS_COMPOSE (int i) p n, s2)"
  shows "noc_inv L n P A s2" "owns s2 n i p b" "(i, p) \<in> used_port_set L n s2" "mbufs s2 = mbufs s"
    "length (actives s2) = length (actives s)"
proof -
  have i: "i < length (actives s)" and p: "0 \<le> p" "p < n" using own by (auto simp: owns_def)
  let ?fd = "ACTIVE_LADDRESS_COMPOSE (int i) p n"
  have fd: "get_actid F ?fd = int i" "get_portid F ?fd = p" using p by (simp_all add: actid_compose portid_compose)
  have s1: "s1 = set_active (int i) (\<lambda>_. mark_port p (free_port L) (- 1) (actives s ! i)) s"
    and used: "(i, p) \<in> used_port_set L n s"
    using rel by (cases rule: active_release_cases [OF laws inv valid_callI [OF laws inv i p] fd(1) i fd(2) p]; auto)+
  note inv1 = noc_free_port(1) [OF laws inv used, folded s1]
  have own1: "owns s1 n i p b" unfolding s1 using owns_mark_port [OF inv i p] own by simp
  have fd0: "0 \<le> ?fd" using p by (simp add: ACTIVE_LADDRESS_COMPOSE_def)
  have s2: "s2 = set_active (int i) (\<lambda>_. mark_port p (alloc_port L) 1 (actives s1 ! i)) s1
      \<and> (i, p) \<notin> used_port_set L n s1"
  proof (cases rule: active_alloc_cases [OF laws inv1, of lcl rmt q ctype])
    case ok: (4 j q')
    have "ACTIVE_LADDRESS_COMPOSE (int j) q' n = ?fd" using ok(7) alloc by simp
    then have "get_actid F (ACTIVE_LADDRESS_COMPOSE (int j) q' n) = int i" "get_portid F (ACTIVE_LADDRESS_COMPOSE (int j) q' n) = p"
      using fd by simp_all
    then have "j = i" "q' = p" using ok(2,3) by (simp_all add: actid_compose portid_compose)
    then show ?thesis using ok(5,7) alloc by simp
  qed (use alloc fd0 in auto)
  then have i1: "i < length (actives s1)" using i by (simp add: s1)
  show "noc_inv L n P A s2" "(i, p) \<in> used_port_set L n s2"
    using noc_alloc_port [OF laws inv1 i1 p] s2 by simp_all
  show "owns s2 n i p b" using owns_mark_port [OF inv1 i1 p] own1 s2 by simp
  show "mbufs s2 = mbufs s" "length (actives s2) = length (actives s)" using s2 by (simp_all add: s1)
qed

end

end
