(* ===== verification/Port_Uses.thy ===== *)
theory Port_Uses
  imports Channel_Flow
begin

text \<open>
  Reading, writing and waiting leave the set of used ports alone, whatever they return:
  a port is taken and given back by allocation and release only.
\<close>

definition port_uses :: "('r, 'h) noc \<Rightarrow> 'r list list" where
  "port_uses s = map (\<lambda>a. map port_resource (ports (portpool a))) (actives s)"

lemma map_update_same: "g (f (xs ! k)) = g (xs ! k) \<Longrightarrow> map g (xs[k := f (xs ! k)]) = map g xs"
  by (cases "k < length xs") (simp_all add: map_update list_update_same_conv list_update_beyond)

lemma port_uses_updates [simp]:
  "port_uses (s\<lparr>mbufs := m\<rparr>) = port_uses s" "port_uses (s\<lparr>hw := h\<rparr>) = port_uses s"
  "port_uses (s\<lparr>umem := u\<rparr>) = port_uses s" "port_uses (s\<lparr>clock_error := c\<rparr>) = port_uses s"
  "port_uses (set_mbuf k g s) = port_uses s" "port_uses (copy_to_user L a bs n s) = port_uses s"
  "port_uses (snd (read_clock H s)) = port_uses s" "port_uses (deliver d s) = port_uses s"
  by (simp_all add: port_uses_def set_mbuf_def copy_to_user_def read_clock_eq deliver_def split: option.split prod.split)

abbreviation kept_ports :: "('r active \<Rightarrow> 'r active) \<Rightarrow> 'r active \<Rightarrow> bool" where
  "kept_ports f a \<equiv> map port_resource (ports (portpool (f a))) = map port_resource (ports (portpool a))"

lemma port_uses_set_active:
  "kept_ports f (actives s ! nat i) \<Longrightarrow> port_uses (set_active i f s) = port_uses s"
  by (simp add: port_uses_def set_active_def map_update_same)

lemma ports_set_port:
  assumes "\<And>port. port_resource (f port) = port_resource port"
  shows "map port_resource (ports (portpool (set_port p f a))) = map port_resource (ports (portpool a))"
  using assms map_update_same [of port_resource f "ports (portpool a)" "nat p"] by (simp add: set_port_def port_of_def)

lemma ports_requested:
  "map port_resource (ports (portpool (set_port p port_set_requested a))) = map port_resource (ports (portpool a))"
  "map port_resource (ports (portpool (set_port p port_set_notrequested a))) = map port_resource (ports (portpool a))"
  "map port_resource (ports (portpool (set_port p (\<lambda>port. port\<lparr>port_mbufferid := b, port_mbufferpool := q\<rparr>) a)))
    = map port_resource (ports (portpool a))"
  by (rule ports_set_port; simp add: port_set_requested_def port_set_notrequested_def)+

lemma ports_do_request:
  "do_request_operation L p a = Some (r, a') \<Longrightarrow> map port_resource (ports (portpool a')) = map port_resource (ports (portpool a))"
  "do_request_complete L p a = Some (r, a') \<Longrightarrow> map port_resource (ports (portpool a')) = map port_resource (ports (portpool a))"
  "do_request_clear L p a = Some (r, a') \<Longrightarrow> map port_resource (ports (portpool a')) = map port_resource (ports (portpool a))"
  by (auto simp: ports_requested do_request_operation_def do_request_complete_def do_request_clear_def Let_def bind_eq_Some_conv
      KASSERT_def split: if_splits)

lemma read_clock_uses: "read_clock H s = (t, s') \<Longrightarrow> port_uses s' = port_uses s"
  using port_uses_updates(7) [of H s] by simp

lemma release_sender_uses: "release_sender L buf s = Some s' \<Longrightarrow> port_uses s' = port_uses s"
  by (auto simp: release_sender_def bind_eq_Some_conv fetch_Some_iff split: if_splits
      intro!: port_uses_set_active ports_do_request(3))

lemma aread_stored_uses: "aread_stored L H B b c st s = Some (r, st', s') \<Longrightarrow> port_uses s' = port_uses s"
  by (auto simp: aread_stored_def Let_def bind_eq_Some_conv read_clock_eq dest!: release_sender_uses)

lemma aread_setup_uses: "aread_setup L H F i p rmt st s = Some (r, st', s') \<Longrightarrow> port_uses s' = port_uses s"
  by (auto simp: aread_setup_def Let_def bind_eq_Some_conv read_clock_eq KASSERT_def active_set_allowed_def
      active_set_notallowed_def ports_requested port_uses_set_active case_prod_beta split: if_splits)

lemma active_aread_uses: "active_aread L H F fd c st s = Some (r, st', s') \<Longrightarrow> port_uses s' = port_uses s"
  by (auto simp: active_aread_def Let_def bind_eq_Some_conv split: if_splits prod.splits
      dest!: aread_stored_uses aread_setup_uses)

lemma awrite_fill_uses [simp]: "port_uses (awrite_fill L H F k c s) = port_uses s"
  by (simp add: awrite_fill_def Let_def read_clock_eq)

lemma forward_store_uses: "forward_store L H F i p B b c st s = Some (r, st', s') \<Longrightarrow> port_uses s' = port_uses s"
  by (auto simp: forward_store_def Let_def bind_eq_Some_conv)

lemma awrite_forward_uses: "awrite_forward L H F i p c st s = Some (r, st', s') \<Longrightarrow> port_uses s' = port_uses s"
  by (auto simp: awrite_forward_def Let_def bind_eq_Some_conv port_uses_set_active split: if_splits prod.splits
      dest!: forward_store_uses ports_do_request(1))

lemma awrite_send_uses: "awrite_send L H F i p k st s = Some (r, st', s') \<Longrightarrow> port_uses s' = port_uses s"
  by (auto simp: awrite_send_def Let_def bind_eq_Some_conv read_clock_eq port_uses_set_active split: if_splits prod.splits
      dest!: ports_do_request(1))

lemma active_awrite_uses: "active_awrite L H F fd c st s = Some (r, st', s') \<Longrightarrow> port_uses s' = port_uses s"
  by (auto simp: active_awrite_def Let_def bind_eq_Some_conv port_uses_set_active ports_requested split: if_splits prod.splits
      dest!: awrite_forward_uses awrite_send_uses)

lemma wait_finish_uses: "wait_finish L H F fd k c s = Some (r, keep, s') \<Longrightarrow> port_uses s' = port_uses s"
  by (auto simp: wait_finish_def Let_def bind_eq_Some_conv read_clock_eq port_uses_set_active split: if_splits prod.splits
      dest!: ports_do_request(2))

lemma wait_end_uses: "wait_end L H F fd b ret t1 t2 c st s = Some (r, st', s') \<Longrightarrow> port_uses s' = port_uses s"
  by (auto simp: wait_end_def Let_def bind_eq_Some_conv port_uses_set_active ports_requested split: if_splits prod.splits
      dest!: wait_finish_uses)

lemma active_wait_uses: "active_wait L H F fd c st s = Some (r, st', s') \<Longrightarrow> port_uses s' = port_uses s"
  by (cases "wait_begin L F fd s"; cases "the (wait_begin L F fd s)")
    (auto simp: active_wait_def Let_def bind_eq_Some_conv read_clock_eq case_prod_beta dest!: wait_end_uses)

text \<open>Creating and opening channels leave the ports alone too.\<close>

lemma active_alloc_slot_uses [simp]: "port_uses (snd (active_alloc_slot L s)) = port_uses s"
  by (auto simp: active_alloc_slot_def port_uses_set_active split: option.splits)

lemma active_create_uses: "active_create L F lcl s = (r, s') \<Longrightarrow> port_uses s' = port_uses s"
  by (auto simp: active_create_def active_free_slot_def Let_def port_uses_set_active case_prod_beta
      split: if_splits option.splits)

lemma active_open_uses: "active_open L H F lcl rmt s = (r, s') \<Longrightarrow> port_uses s' = port_uses s"
proof -
  define s0 where "s0 = (if clock_error s = 0
    then let (t1, s) = read_clock H s; (t2, s) = read_clock H s in s\<lparr>clock_error := t2 - t1\<rparr> else s)"
  have "port_uses s0 = port_uses s" by (simp add: s0_def read_clock_eq)
  moreover assume "active_open L H F lcl rmt s = (r, s')"
  ultimately show ?thesis
    unfolding active_open_def s0_def [symmetric]
    by (auto simp: active_free_slot_def Let_def port_uses_set_active case_prod_beta
        split: if_splits option.splits)
qed

lemma open_all_uses: "open_all (active_open L H F lcl) is s = Some s' \<Longrightarrow> port_uses s' = port_uses s"
proof (induction "is" arbitrary: s)
  case (Cons i "is")
  obtain r s1 where "active_open L H F lcl i s = (r, s1)" by fastforce
  then show ?case using Cons.IH [of s1] Cons.prems active_open_uses
    by (auto simp: KASSERT_def split: if_splits)
qed simp

lemma unused_ports:
  assumes laws: "klib_laws L" and inv: "noc_inv L n P A s"
    and init: "\<forall>rs \<in> set (port_uses s). \<forall>r \<in> set rs. r = RESOURCE_INITIALIZER L"
  shows "used_port_set L n s = {}"
proof -
  have "\<not> resource_is_used L (port_resource (port_of (actives s ! i) p))"
    if "i < length (actives s)" "0 \<le> p" "p < n" for i p
  proof -
    have "nat p < length (ports (portpool (actives s ! i)))"
      using noc_invD(2) [OF inv that(1)] that by (simp add: channel_ok_def portpool_inv_def nat_less_iff)
    then have "port_resource (port_of (actives s ! i) p) = RESOURCE_INITIALIZER L"
      using init that(1) unfolding port_uses_def port_of_def by (metis length_map nth_map nth_mem)
    then show ?thesis using laws by simp
  qed
  then show ?thesis by (auto simp: used_port_set_def)
qed

section \<open>The identifiers in use\<close>

definition chan_fds :: "'r klib \<Rightarrow> int \<Rightarrow> ('r, 'h) noc \<Rightarrow> int set" where
  "chan_fds L n s = (\<lambda>(i, p). ACTIVE_LADDRESS_COMPOSE (int i) p n) ` used_port_set L n s"

lemma used_port_set_uses:
  assumes "noc_inv L n P A s" "noc_inv L n P A s'" "port_uses s' = port_uses s"
  shows "used_port_set L n s' = used_port_set L n s"
proof -
  have len: "length (actives s') = length (actives s)"
    using arg_cong [OF assms(3), of length] by (simp add: port_uses_def)
  have "port_resource (port_of (actives s' ! i) p) = port_resource (port_of (actives s ! i) p)"
    if "i < length (actives s)" "0 \<le> p" "p < n" for i p
  proof -
    have "map port_resource (ports (portpool (actives s' ! i))) = map port_resource (ports (portpool (actives s ! i)))"
      using that len nth_map [of i "actives s"] nth_map [of i "actives s'"] assms(3) unfolding port_uses_def by metis
    moreover have "nat p < length (ports (portpool (actives s ! i)))" "nat p < length (ports (portpool (actives s' ! i)))"
      using noc_invD(2) [OF assms(1) that(1)] noc_invD(2) [OF assms(2), of i] that len
      by (simp_all add: channel_ok_def portpool_inv_def nat_less_iff)
    ultimately show ?thesis by (metis nth_map port_of_def)
  qed
  then show ?thesis using len by (auto simp: used_port_set_def)
qed

context facility
begin

lemma compose_inj:
  assumes "ACTIVE_LADDRESS_COMPOSE (int i) p n = ACTIVE_LADDRESS_COMPOSE (int j) q n" "0 \<le> p" "p < n" "0 \<le> q" "q < n"
  shows "i = j \<and> p = q"
  using assms actid_compose [of "int i" p] portid_compose [of "int i" p] actid_compose [of "int j" q] portid_compose [of "int j" q]
  by auto

lemma chan_fds_member:
  assumes "0 \<le> p" "p < n"
  shows "ACTIVE_LADDRESS_COMPOSE (int i) p n \<in> chan_fds L n s \<longleftrightarrow> (i, p) \<in> used_port_set L n s"
  using assms compose_inj [of i p] by (auto simp: chan_fds_def used_port_set_def image_iff)

lemma chan_fdsE:
  assumes "klib_laws L" "noc_inv L n P A s" "fd \<in> chan_fds L n s"
  obtains i p where "fd = ACTIVE_LADDRESS_COMPOSE (int i) p n" "(i, p) \<in> used_port_set L n s" "0 \<le> p" "p < n"
    "i < length (actives s)" "get_actid F fd = int i" "get_portid F fd = p" "active_valid_call L F fd s"
proof -
  obtain i p where ip: "fd = ACTIVE_LADDRESS_COMPOSE (int i) p n" "(i, p) \<in> used_port_set L n s"
    using assms(3) by (auto simp: chan_fds_def)
  then have "0 \<le> p" "p < n" "i < length (actives s)" by (auto simp: used_port_set_def)
  then show thesis
    using that [of i p] ip valid_callI [OF assms(1,2)] actid_compose [of "int i" p] portid_compose [of "int i" p] by simp
qed

lemma chan_alloc:
  assumes "klib_laws L" "noc_inv L n P A s" "active_alloc L lcl rmt port ctype s = (fd, s')"
  shows "noc_inv L n P A s'" "if fd < 0 then s' = s else fd \<notin> chan_fds L n s \<and> chan_fds L n s' = insert fd (chan_fds L n s)"
proof -
  show "noc_inv L n P A s'" using alloc_inv [OF assms(1,2), of lcl rmt port ctype] assms(3) by simp
  show "if fd < 0 then s' = s else fd \<notin> chan_fds L n s \<and> chan_fds L n s' = insert fd (chan_fds L n s)"
  proof (cases rule: active_alloc_cases [OF assms(1,2), of lcl rmt port ctype])
    case ok: (4 i p)
    note port = noc_alloc_port(2) [OF assms(1,2) ok(1,2,3,5)]
    have fd: "fd = ACTIVE_LADDRESS_COMPOSE (int i) p n" "0 \<le> fd"
      and s': "s' = set_active (int i) (\<lambda>_. mark_port p (alloc_port L) 1 (actives s ! i)) s"
      using ok(2,3,7) assms(3) by (auto simp: ACTIVE_LADDRESS_COMPOSE_def)
    have "fd \<notin> chan_fds L n s" unfolding fd(1) chan_fds_member [OF ok(2,3)] by (rule ok(5))
    moreover have "chan_fds L n s' = insert fd (chan_fds L n s)" unfolding chan_fds_def s' port by (simp add: fd(1))
    ultimately show ?thesis using fd(2) by simp
  qed (use assms(3) in auto)
qed

lemma chan_release:
  assumes "klib_laws L" "noc_inv L n P A s" "fd \<in> chan_fds L n s"
  shows "\<exists>r s'. active_release L F fd s = Some (r, s') \<and> noc_inv L n P A s' \<and> r \<le> 0
    \<and> (if r = 0 then chan_fds L n s' = chan_fds L n s - {fd} else s' = s)"
proof (rule chan_fdsE [OF assms])
  fix i p
  assume ip: "fd = ACTIVE_LADDRESS_COMPOSE (int i) p n" "(i, p) \<in> used_port_set L n s" "0 \<le> p" "p < n"
    "i < length (actives s)" "get_actid F fd = int i" "get_portid F fd = p" "active_valid_call L F fd s"
  show ?thesis
  proof (cases rule: active_release_cases [OF assms(1,2) ip(8,6,5,7,3,4)])
    case 4
    note free = noc_free_port [OF assms(1,2) ip(2)]
    have "chan_fds L n (set_active (int i) (\<lambda>_. mark_port p (free_port L) (- 1) (actives s ! i)) s) = chan_fds L n s - {fd}"
      unfolding chan_fds_def free(2) ip(1) using compose_inj ip(3,4)
      by (auto simp: used_port_set_def image_iff)
    then show ?thesis using 4(1) free(1) by simp
  qed (use assms(2) in auto)
qed

lemma chan_fds_uses:
  assumes "noc_inv L n P A s" "noc_inv L n P A s'" "port_uses s' = port_uses s"
  shows "chan_fds L n s' = chan_fds L n s"
  using used_port_set_uses [OF assms] by (simp add: chan_fds_def)

lemma chan_aread:
  assumes "klib_laws L" "noc_inv L n P A s" "fd \<in> chan_fds L n s"
  shows "\<exists>r st' s'. active_aread L H F fd c st s = Some (r, st', s') \<and> noc_inv L n P A s' \<and> chan_fds L n s' = chan_fds L n s"
  using chan_fdsE [OF assms] aread_total [OF assms(1,2), of fd H c st] chan_fds_uses [OF assms(2)] active_aread_uses
  by metis

lemma chan_awrite:
  assumes "klib_laws L" "noc_inv L n P A s" "fd \<in> chan_fds L n s" "curr_age (mbufs s) \<noteq> - 1"
  shows "\<exists>r st' s'. active_awrite L H F fd c st s = Some (r, st', s') \<and> noc_inv L n P A s' \<and> chan_fds L n s' = chan_fds L n s"
  using chan_fdsE [OF assms(1-3)] awrite_total [OF assms(1,2) _ assms(4), of fd H c st] chan_fds_uses [OF assms(2)] active_awrite_uses
  by metis

lemma chan_wait:
  assumes "klib_laws L" "noc_inv L n P A s" "fd \<in> chan_fds L n s" "curr_age (mbufs s) \<noteq> - 1"
    "device_delivers L F n P (snd (clock_read H (hw s))) (actives s ! nat (get_actid F fd)) (get_portid F fd)"
  shows "\<exists>r st' s'. active_wait L H F fd c st s = Some (r, st', s') \<and> noc_inv L n P A s' \<and> chan_fds L n s' = chan_fds L n s"
  using chan_fdsE [OF assms(1-3)] wait_total [OF assms(1,2) _ assms(4,5), of c st] chan_fds_uses [OF assms(2)] active_wait_uses
  by metis

end

end
