(* ===== verification/Mailbox.thy ===== *)
theory Mailbox
  imports Port_Uses
begin

text \<open>
  The mailbox facility: \<^verbatim>\<open>src/kernel/noc/mailbox.c\<close> and the constants of
  \<^verbatim>\<open>include/nanvix/kernel/mailbox.h\<close> (for a target that has portals as well).
  The hardware mailboxes and the sizes they fix are the fields of \<open>mailbox_hal\<close>.
  The tables of the facility start in any state (\<open>noc\<close>); the initialisation writes
  every field but the payload of the message buffers and the flags of the ports,
  which keep what was there.
\<close>

section \<open>Structures\<close>

record 'h mailbox_hal =
  mailbox_create :: "int \<Rightarrow> 'h \<Rightarrow> int \<times> 'h"
  mailbox_open   :: "int \<Rightarrow> 'h \<Rightarrow> int \<times> 'h"
  mailbox_aread  :: "int \<Rightarrow> nat \<Rightarrow> nat \<Rightarrow> 'h \<Rightarrow> int \<times> 'h"
  mailbox_awrite :: "int \<Rightarrow> mbuffer_message \<Rightarrow> nat \<Rightarrow> 'h \<Rightarrow> int \<times> 'h"
  mailbox_wait   :: "int \<Rightarrow> 'h \<Rightarrow> int \<times> (nat \<times> mbuffer_message) option \<times> 'h"
  HW_MAILBOX_MAX :: nat
  KMAILBOX_MESSAGE_HEADER_SIZE :: nat
  KMAILBOX_MESSAGE_DATA_SIZE   :: nat

definition MAILBOX_PORT_NR :: int where "MAILBOX_PORT_NR = 16"
definition MAILBOX_ANY_PORT :: int where "MAILBOX_ANY_PORT = MAILBOX_PORT_NR"
definition MAILBOX_ANY_SOURCE :: "'h noc_hal \<Rightarrow> int" where "MAILBOX_ANY_SOURCE H = PROCESSOR_NOC_NODES_NUM H"
definition KMAILBOX_MESSAGE_BUFFERS_MAX :: nat where "KMAILBOX_MESSAGE_BUFFERS_MAX = 32"
definition KMAILBOX_AUX_BUFFERS_MAX :: nat where "KMAILBOX_AUX_BUFFERS_MAX = 16"

section \<open>Identifiers and headers\<close>

definition mailbox_laddress_calc :: "int \<Rightarrow> int \<Rightarrow> int" where
  "mailbox_laddress_calc fd port = ACTIVE_LADDRESS_COMPOSE fd port MAILBOX_PORT_NR"

definition mailbox_get_actid :: "int \<Rightarrow> int" where
  "mailbox_get_actid fd = (if fd < 0 then fd else fd div (MAILBOX_PORT_NR + 1))"

definition mailbox_get_portid :: "int \<Rightarrow> int" where
  "mailbox_get_portid fd = (if fd < 0 then fd else fd mod (MAILBOX_PORT_NR + 1))"

definition mailbox_source_check :: "'h noc_hal \<Rightarrow> 'r mbuffer \<Rightarrow> int \<Rightarrow> bool" where
  "mailbox_source_check H buf src_mask =
    (if src_mask = - 1 then True
     else
       let mask_node = mailbox_get_actid src_mask;
           mask_port = mailbox_get_portid src_mask;
           msg_source = hdr_src (header (mb_message buf))
       in if mask_node \<noteq> MAILBOX_ANY_SOURCE H \<and> mask_node \<noteq> mailbox_get_actid msg_source then False
          else if mask_port \<noteq> MAILBOX_ANY_PORT \<and> mask_port \<noteq> mailbox_get_portid msg_source then False
          else True)"

definition wrapper_mailbox_open :: "'h mailbox_hal \<Rightarrow> int \<Rightarrow> int \<Rightarrow> 'h \<Rightarrow> int \<times> 'h" where
  "wrapper_mailbox_open M lcl rmt = mailbox_open M rmt"

definition wrapper_mailbox_allow :: "'r active \<Rightarrow> int \<Rightarrow> 'h \<Rightarrow> int \<times> 'h" where
  "wrapper_mailbox_allow act rmt h = (0, h)"

definition mailbox_header_config :: "'r mbuffer \<Rightarrow> active_config \<Rightarrow> 'r mbuffer" where
  "mailbox_header_config buf config =
    buf\<lparr>mb_message := (mb_message buf)\<lparr>header := (header (mb_message buf))
      \<lparr>hdr_src := cfg_local_addr config, hdr_dest := cfg_remote_addr config\<rparr>\<rparr>\<rparr>"

definition mailbox_header_check :: "'h noc_hal \<Rightarrow> 'r mbuffer \<Rightarrow> active_config \<Rightarrow> bool" where
  "mailbox_header_check H buf config \<longleftrightarrow>
    hdr_dest (header (mb_message buf)) = cfg_local_addr config
    \<and> mailbox_source_check H buf (cfg_remote_addr config)"

section \<open>The tables\<close>

definition mailbox_functions :: "'h noc_hal \<Rightarrow> 'h mailbox_hal \<Rightarrow> ('r, 'h) active_functions" where
  "mailbox_functions H M =
    \<lparr>do_create = mailbox_create M, do_open = wrapper_mailbox_open M, do_allow = wrapper_mailbox_allow,
     do_aread = mailbox_aread M, do_awrite = mailbox_awrite M, do_wait = mailbox_wait M,
     do_header_config = mailbox_header_config, do_header_check = mailbox_header_check H,
     get_actid = mailbox_get_actid, get_portid = mailbox_get_portid\<rparr>"

definition mailbox_mbufferpool :: "'h noc_hal \<Rightarrow> 'r mbuffer_pool" where
  "mailbox_mbufferpool H =
    \<lparr>mbuffers = 0, nmbuffers = KMAILBOX_MESSAGE_BUFFERS_MAX, source_check = mailbox_source_check H\<rparr>"

definition mailbox_mbufferpool_aux :: "'h noc_hal \<Rightarrow> 'r mbuffer_pool" where
  "mailbox_mbufferpool_aux H =
    \<lparr>mbuffers = KMAILBOX_MESSAGE_BUFFERS_MAX - KMAILBOX_AUX_BUFFERS_MAX,
     nmbuffers = KMAILBOX_AUX_BUFFERS_MAX, source_check = mailbox_source_check H\<rparr>"

text \<open>One mailbox after \<open>do_mailbox_table_init\<close> (lines 132--166): \<open>mailbox_port_init\<close> is the
  inner loop's body.\<close>

definition mailbox_port_init :: "'r klib \<Rightarrow> 'r port \<Rightarrow> 'r port" where
  "mailbox_port_init L port = port\<lparr>port_resource := RESOURCE_INITIALIZER L, port_mbufferid := - 1,
     port_mbufferpool := None\<rparr>"

definition mailbox_active_init ::
  "'r klib \<Rightarrow> 'h noc_hal \<Rightarrow> 'h mailbox_hal \<Rightarrow> 'r active \<Rightarrow> 'r active" where
  "mailbox_active_init L H M a =
    a\<lparr>hwfd := - 1, act_local := - 1, act_remote := - 1, refcount := 0,
      act_size := KMAILBOX_MESSAGE_HEADER_SIZE M + KMAILBOX_MESSAGE_DATA_SIZE M,
      portpool := \<lparr>ports = map (mailbox_port_init L) (ports (portpool a)),
                   nports = MAILBOX_PORT_NR, used_ports = 0\<rparr>,
      requests := \<lparr>head = 0, tail = 0, max_capacity = MAILBOX_PORT_NR, nelements = 0,
                   fifo = replicate (nat MAILBOX_PORT_NR) (- 1)\<rparr>,
      mbufferpool := mailbox_mbufferpool H, mbufferpool_aux := mailbox_mbufferpool_aux H\<rparr>"

definition do_mailbox_table_init ::
  "'r klib \<Rightarrow> 'h noc_hal \<Rightarrow> 'h mailbox_hal \<Rightarrow> ('r, 'h) noc \<Rightarrow> ('r, 'h) noc" where
  "do_mailbox_table_init L H M s =
    s\<lparr>mbufs := \<lparr>mb_table = map (mbuffer_reset L) (mb_table (mbufs s)), curr_age = 0\<rparr>,
      actives := map (mailbox_active_init L H M) (actives s)\<rparr>"

definition do_mailbox_init ::
  "'r klib \<Rightarrow> 'h noc_hal \<Rightarrow> 'h mailbox_hal \<Rightarrow> ('r, 'h) noc \<Rightarrow> ('r, 'h) noc option" where
  "do_mailbox_init L H M s =
    do {
      let lcl = processor_node_get_num H;
      let s = do_mailbox_table_init L H M s;
      let (r, s) = active_create L (mailbox_functions H M) lcl s;
      KASSERT (r \<ge> 0);
      open_all (active_open L H (mailbox_functions H M) lcl) [0..PROCESSOR_NOC_NODES_NUM H - 1] s
    }"

section \<open>Operations\<close>

definition do_mailbox_alloc ::
  "'r klib \<Rightarrow> int \<Rightarrow> int \<Rightarrow> int \<Rightarrow> int \<Rightarrow> ('r, 'h) noc \<Rightarrow> int \<times> ('r, 'h) noc" where
  "do_mailbox_alloc L lcl rmt port ctype s = active_alloc L lcl rmt port ctype s"

definition do_mailbox_release ::
  "'r klib \<Rightarrow> 'h noc_hal \<Rightarrow> 'h mailbox_hal \<Rightarrow> int \<Rightarrow> ('r, 'h) noc \<Rightarrow> (int \<times> ('r, 'h) noc) option" where
  "do_mailbox_release L H M mbxid s = active_release L (mailbox_functions H M) mbxid s"

definition do_mailbox_aread ::
  "'r klib \<Rightarrow> 'h noc_hal \<Rightarrow> 'h mailbox_hal \<Rightarrow> int \<Rightarrow> active_config \<Rightarrow> pstats \<Rightarrow> ('r, 'h) noc
    \<Rightarrow> ('r, 'h) noc_result" where
  "do_mailbox_aread L H M mbxid config stats s = active_aread L H (mailbox_functions H M) mbxid config stats s"

definition do_mailbox_awrite ::
  "'r klib \<Rightarrow> 'h noc_hal \<Rightarrow> 'h mailbox_hal \<Rightarrow> int \<Rightarrow> active_config \<Rightarrow> pstats \<Rightarrow> ('r, 'h) noc
    \<Rightarrow> ('r, 'h) noc_result" where
  "do_mailbox_awrite L H M mbxid config stats s = active_awrite L H (mailbox_functions H M) mbxid config stats s"

definition do_mailbox_wait ::
  "'r klib \<Rightarrow> 'h noc_hal \<Rightarrow> 'h mailbox_hal \<Rightarrow> int \<Rightarrow> active_config \<Rightarrow> pstats \<Rightarrow> ('r, 'h) noc
    \<Rightarrow> ('r, 'h) noc_result" where
  "do_mailbox_wait L H M mbxid config stats s = active_wait L H (mailbox_functions H M) mbxid config stats s"

section \<open>The mailbox facility fulfils the contract\<close>

lemma compose_div_mod:
  assumes "0 \<le> a" "0 \<le> p" "p \<le> n"
  shows "ACTIVE_LADDRESS_COMPOSE a p n div (n + 1) = a" "ACTIVE_LADDRESS_COMPOSE a p n mod (n + 1) = p"
    "0 \<le> ACTIVE_LADDRESS_COMPOSE a p n"
  using assms by (simp_all add: ACTIVE_LADDRESS_COMPOSE_def)

interpretation mbx: facility "mailbox_functions H M" MAILBOX_PORT_NR "mailbox_mbufferpool H" "mailbox_mbufferpool_aux H"
  for H M
proof unfold_locales
  show "0 < MAILBOX_PORT_NR" by (simp add: MAILBOX_PORT_NR_def)
  show "sub_pool (mailbox_mbufferpool_aux H) (mailbox_mbufferpool H)"
    by (simp add: sub_pool_def mailbox_mbufferpool_def mailbox_mbufferpool_aux_def
        KMAILBOX_MESSAGE_BUFFERS_MAX_def KMAILBOX_AUX_BUFFERS_MAX_def)
qed (simp_all add: mailbox_functions_def mailbox_get_actid_def mailbox_get_portid_def compose_div_mod not_less
    mailbox_header_config_def mailbox_header_check_def mailbox_mbufferpool_def mailbox_source_check_def fun_eq_iff)

section \<open>Initialisation\<close>

text \<open>The tables as they are declared: their lengths, and zeroed flags as in every object
  with static storage.\<close>

definition mailbox_tables :: "'h mailbox_hal \<Rightarrow> ('r, 'h) noc \<Rightarrow> bool" where
  "mailbox_tables M s \<longleftrightarrow> length (mb_table (mbufs s)) = KMAILBOX_MESSAGE_BUFFERS_MAX
    \<and> length (actives s) = HW_MAILBOX_MAX M
    \<and> (\<forall>a \<in> set (actives s). length (ports (portpool a)) = nat MAILBOX_PORT_NR
        \<and> (\<forall>port \<in> set (ports (portpool a)). port_flags port = 0))"

abbreviation mailbox_inv :: "'r klib \<Rightarrow> 'h noc_hal \<Rightarrow> ('r, 'h) noc \<Rightarrow> bool" where
  "mailbox_inv L H \<equiv> noc_inv L MAILBOX_PORT_NR (mailbox_mbufferpool H) (mailbox_mbufferpool_aux H)"

abbreviation mailbox_step :: "'r klib \<Rightarrow> 'h noc_hal \<Rightarrow> 'h mailbox_hal \<Rightarrow> ('r, 'h) noc \<Rightarrow> ('r, 'h) noc \<Rightarrow> bool" where
  "mailbox_step L H M \<equiv> channel_step L H (mailbox_functions H M) MAILBOX_PORT_NR (mailbox_mbufferpool H)"

lemma mailbox_table_init_inv:
  assumes "klib_laws L" "mailbox_tables M s"
  shows "mailbox_inv L H (do_mailbox_table_init L H M s)"
proof (rule fresh_noc_inv [OF assms(1), where k = 4])
  show "MAILBOX_PORT_NR = 2 ^ 4" by (simp add: MAILBOX_PORT_NR_def)
  show "fresh_channel L MAILBOX_PORT_NR (mailbox_mbufferpool H) (mailbox_mbufferpool_aux H) a"
    if "a \<in> set (actives (do_mailbox_table_init L H M s))" for a
    using that assms(2)
    by (auto simp: do_mailbox_table_init_def mailbox_active_init_def mailbox_port_init_def fresh_channel_def
        fresh_port_def mailbox_tables_def)
qed (use assms in \<open>auto simp: do_mailbox_table_init_def mailbox_tables_def mailbox_mbufferpool_def mbuffer_reset_def\<close>)

lemma mailbox_init_inv:
  assumes "klib_laws L" "mailbox_tables M s" "do_mailbox_init L H M s = Some s'"
  shows "mailbox_inv L H s'"
proof -
  let ?s = "do_mailbox_table_init L H M s" and ?lcl = "processor_node_get_num H"
  obtain r s1 where c: "active_create L (mailbox_functions H M) ?lcl ?s = (r, s1)" by fastforce
  have "mailbox_inv L H s1"
    using mbx.create_inv [where M = M and lcl = ?lcl, OF mailbox_table_init_inv [OF assms(1,2), of H]] c by simp
  moreover have "open_all (active_open L H (mailbox_functions H M) ?lcl) [0..PROCESSOR_NOC_NODES_NUM H - 1] s1 = Some s'"
    using assms(3) c by (auto simp: do_mailbox_init_def KASSERT_def split: if_splits)
  ultimately show ?thesis using mbx.open_all_inv by blast
qed

text \<open>An identifier of a port in use is a valid argument and is taken apart into its channel
  and its port.\<close>

abbreviation mailbox_ports :: "'r klib \<Rightarrow> ('r, 'h) noc \<Rightarrow> (nat \<times> int) set" where
  "mailbox_ports L \<equiv> used_port_set L MAILBOX_PORT_NR"

lemma mailbox_compose:
  assumes "klib_laws L" "mailbox_inv L H s" "i < length (actives s)" "0 \<le> p" "p < MAILBOX_PORT_NR"
  defines "fd \<equiv> mailbox_laddress_calc (int i) p"
  shows "get_actid (mailbox_functions H M) fd = int i" "get_portid (mailbox_functions H M) fd = p"
    "active_valid_call L (mailbox_functions H M) fd s"
  using assms mbx.actid_compose [of "int i" p H M] mbx.portid_compose [of "int i" p H M]
    mbx.valid_callI [OF assms(1-5), of M]
  by (simp_all add: mailbox_laddress_calc_def)

lemma mailbox_fd:
  assumes "klib_laws L" "mailbox_inv L H s" "(i, p) \<in> mailbox_ports L s"
  defines "fd \<equiv> mailbox_laddress_calc (int i) p"
  shows "get_actid (mailbox_functions H M) fd = int i" "i < length (actives s)"
    "get_portid (mailbox_functions H M) fd = p" "0 \<le> p" "p < MAILBOX_PORT_NR"
    "active_valid_call L (mailbox_functions H M) fd s"
  using assms mailbox_compose [OF assms(1,2), of i p] by (auto simp: used_port_set_def)

lemma mailbox_fn_simps [simp]:
  "get_actid (mailbox_functions H M) = mailbox_get_actid" "get_portid (mailbox_functions H M) = mailbox_get_portid"
  "do_awrite (mailbox_functions H M) = mailbox_awrite M" "do_wait (mailbox_functions H M) = mailbox_wait M"
  "do_header_check (mailbox_functions H M) = mailbox_header_check H"
  "source_check (mailbox_mbufferpool H) = mailbox_source_check H"
  by (simp_all add: mailbox_functions_def mailbox_mbufferpool_def)

section \<open>Properties\<close>

text \<open>Two nodes, of which node 0 is the local one; three channels; messages of two bytes.
  The device remembers the buffer it receives into and the message in transit.\<close>

definition sample_hal :: "(nat \<times> mbuffer_message) noc_hal" where
  "sample_hal = \<lparr>clock_read = \<lambda>h. (0, h), node_is_local = \<lambda>i. i = 0, processor_node_get_num = 0,
     PROCESSOR_NOC_NODES_NUM = 2\<rparr>"

definition sample_mailbox :: "(nat \<times> mbuffer_message) mailbox_hal" where
  "sample_mailbox =
    \<lparr>mailbox_create = \<lambda>lcl h. (0, h), mailbox_open = \<lambda>rmt h. (1, h),
     mailbox_aread = \<lambda>fd k sz (_, msg). (0, (k, msg)), mailbox_awrite = \<lambda>fd msg sz (k, _). (0, (k, msg)),
     mailbox_wait = \<lambda>fd (k, msg). (0, if fd = 0 then Some (k, msg) else None, (k, msg)),
     HW_MAILBOX_MAX = 3, KMAILBOX_MESSAGE_HEADER_SIZE = 8, KMAILBOX_MESSAGE_DATA_SIZE = 2\<rparr>"

definition sample_message :: "int \<Rightarrow> int \<Rightarrow> byte \<Rightarrow> mbuffer_message" where
  "sample_message dest src x = \<lparr>header = \<lparr>hdr_dest = dest, hdr_src = src, hdr_size = 0, hdr_unused = 0\<rparr>, data = [x, x]\<rparr>"

definition zeroed_channel :: "sample_resource active" where
  "zeroed_channel = \<lparr>act_resource = (False, False, False, False), act_flags = 0, hwfd = 0, act_local = 0, act_remote = 0,
     refcount = 0, act_size = 0, portpool = \<lparr>ports = replicate 16 \<lparr>port_resource = (False, False, False, False),
       port_flags = 0, port_mbufferid = 0, port_mbufferpool = None\<rparr>, nports = 0, used_ports = 0\<rparr>,
     mbufferpool = sample_pool 0 0, mbufferpool_aux = sample_pool 0 0,
     requests = \<lparr>head = 0, tail = 0, max_capacity = 0, nelements = 0, fifo = []\<rparr>\<rparr>"

definition zeroed_noc :: "nat \<Rightarrow> 'h \<Rightarrow> (sample_resource, 'h) noc" where
  "zeroed_noc k h = \<lparr>actives = replicate k zeroed_channel,
     mbufs = \<lparr>mb_table = replicate 32 (sample_mbuffer False False 0 0 0 0), curr_age = 0\<rparr>,
     clock_error = 0, umem = \<lambda>a. of_nat a, hw = h\<rparr>"

definition booted :: "(sample_resource, nat \<times> mbuffer_message) noc" where
  "booted = the (do_mailbox_init sample_klib sample_hal sample_mailbox (zeroed_noc 3 (0, sample_message 3 17 7)))"

lemma zeroed_mailbox_tables: "mailbox_tables sample_mailbox (zeroed_noc 3 h)"
  by (simp add: mailbox_tables_def zeroed_noc_def zeroed_channel_def sample_mailbox_def
      KMAILBOX_MESSAGE_BUFFERS_MAX_def MAILBOX_PORT_NR_def)

lemma booted_init: "do_mailbox_init sample_klib sample_hal sample_mailbox (zeroed_noc 3 (0, sample_message 3 17 7)) = Some booted"
proof -
  have "do_mailbox_init sample_klib sample_hal sample_mailbox (zeroed_noc 3 (0, sample_message 3 17 7)) \<noteq> None"
    unfolding not_None_eq [symmetric] by code_simp
  then show ?thesis by (auto simp: booted_def)
qed

lemmas booted_inv = mailbox_init_inv [OF sample_klib_laws zeroed_mailbox_tables booted_init]

text \<open>The state after port 3 of the input mailbox and a port of the mailboxes to node 0 and to
  node 1 have been taken; and configurations for a message of two bytes.\<close>

definition sample_mailboxes :: "(sample_resource, nat \<times> mbuffer_message) noc" where
  "sample_mailboxes = snd (do_mailbox_alloc sample_klib 0 1 (- 1) 1 (snd (do_mailbox_alloc sample_klib 0 0 (- 1) 1
     (snd (do_mailbox_alloc sample_klib 0 (- 1) 3 0 booted)))))"

definition sample_config :: "int \<Rightarrow> int \<Rightarrow> nat \<Rightarrow> active_config" where
  "sample_config lcl rmt a = \<lparr>cfg_fd = 0, cfg_local_addr = lcl, cfg_remote_addr = rmt, cfg_buffer = a, cfg_size = 2\<rparr>"

lemma sample_mailboxes_inv: "mailbox_inv sample_klib sample_hal sample_mailboxes"
  unfolding sample_mailboxes_def do_mailbox_alloc_def
  by (intro mbx.alloc_inv [OF sample_klib_laws] booted_inv)

lemma sample_mailbox_ports:
  "(0, 3) \<in> mailbox_ports sample_klib sample_mailboxes" "(1, 0) \<in> mailbox_ports sample_klib sample_mailboxes"
  "(2, 0) \<in> mailbox_ports sample_klib sample_mailboxes"
  unfolding used_port_set_def mem_Collect_eq case_prod_conv by code_simp+

text \<open>The same after a message to port 3 has been written to the local mailbox.\<close>

definition sample_stored :: "(sample_resource, nat \<times> mbuffer_message) noc" where
  "sample_stored = snd (snd (the (do_mailbox_awrite sample_klib sample_hal sample_mailbox 17 (sample_config 0 3 100)
     \<lparr>ps_volume = 0, ps_latency = 0\<rparr> sample_mailboxes)))"

lemma sample_stored_inv: "mailbox_inv sample_klib sample_hal sample_stored"
proof -
  have "active_valid_call sample_klib (mailbox_functions sample_hal sample_mailbox) 17 sample_mailboxes"
    "curr_age (mbufs sample_mailboxes) \<noteq> - 1" by code_simp+
  then show ?thesis
    using mbx.awrite_total [OF sample_klib_laws sample_mailboxes_inv, of sample_mailbox 17 sample_hal "sample_config 0 3 100"
        "\<lparr>ps_volume = 0, ps_latency = 0\<rparr>"]
    by (auto simp: sample_stored_def do_mailbox_awrite_def)
qed



text \<open>(C5) A message written to a mailbox of the local node and then read there: the write
  stores it, the read returns exactly the bytes that were written, the queue of stored
  messages is as before, and, unless the ring of requests was full, the writer's port
  has left the ring and may write again.  The write needs a free auxiliary buffer and
  room in the ring; the read must accept the writer as a source and have no older
  message to read.\<close>

theorem mailbox_local_roundtrip:
  fixes wc rc :: active_config and L :: "'r klib"
  assumes laws: "klib_laws L" and inv: "mailbox_inv L H s" and age: "curr_age (mbufs s) \<noteq> - 1"
    and wport: "(i, p) \<in> mailbox_ports L s" and rport: "(j, q) \<in> mailbox_ports L s"
    and loc: "node_is_local H (act_remote (actives s ! i))"
    and idle: "port_mbufferid (port_of (actives s ! i) p) < 0" "p \<notin> set (waiting_ports (requests (actives s ! i)))"
    and room: "length (waiting_ports (requests (actives s ! i))) < nat (max_capacity (requests (actives s ! i)))"
    and free: "\<exists>b \<in> set (pool_buffers (mailbox_mbufferpool_aux H) (mbufs s)). \<not> resource_is_used L (mb_resource b)"
    and size: "\<forall>b \<in> set (pool_buffers (mailbox_mbufferpool_aux H) (mbufs s)). cfg_size wc \<le> length (data (mb_message b))"
    and addr: "cfg_local_addr rc = cfg_remote_addr wc" "node_is_local H (mailbox_get_actid (cfg_remote_addr rc))"
      "cfg_size rc = cfg_size wc"
    and src: "\<forall>b :: 'r mbuffer. hdr_src (header (mb_message b)) = cfg_local_addr wc \<longrightarrow> mailbox_source_check H b (cfg_remote_addr rc)"
    and first: "\<forall>b \<in> set (pending L (mailbox_mbufferpool_aux H) (mbufs s)).
      \<not> mbuffer_matches L (mailbox_mbufferpool_aux H) (cfg_local_addr rc) (cfg_remote_addr rc) b"
  shows "\<exists>stats1 s1 stats2 s2.
    do_mailbox_awrite L H M (mailbox_laddress_calc (int i) p) wc wstats s = Some (ACTIVE_COMM_RECEIVED, stats1, s1)
    \<and> do_mailbox_aread L H M (mailbox_laddress_calc (int j) q) rc rstats s1 = Some (ACTIVE_COMM_RECEIVED, stats2, s2)
    \<and> umem s2 = store_bytes (umem s) (cfg_buffer rc) (load_bytes (umem s) (cfg_buffer wc) (cfg_size wc))
    \<and> pending L (mailbox_mbufferpool H) (mbufs s2) = pending L (mailbox_mbufferpool H) (mbufs s)
    \<and> (length (waiting_ports (requests (actives s1 ! i))) < nat (max_capacity (requests (actives s1 ! i))) \<longrightarrow>
        waiting_ports (requests (actives s2 ! i)) = waiting_ports (requests (actives s ! i))
        \<and> \<not> port_is_requested (port_of (actives s2 ! i) p))"
proof -
  note w = mailbox_fd [OF laws inv wport] and r = mailbox_fd [OF laws inv rport]
  have aux: "mbuffer_inv L (mailbox_mbufferpool_aux H) (mbufs s)"
    by (rule mbuffer_inv_sub [OF noc_invD(1) [OF inv] mbx.aux_pool])
  let ?A = "mailbox_mbufferpool_aux H :: 'r mbuffer_pool"
  have free': "\<exists>k < nmbuffers ?A. \<not> resource_is_used L (mb_resource (mb_table (mbufs s) ! (mbuffers ?A + k)))"
  proof -
    obtain k where "k < length (pool_buffers ?A (mbufs s))" "\<not> resource_is_used L (mb_resource (pool_buffers ?A (mbufs s) ! k))"
      using free by (auto simp: in_set_conv_nth)
    then show ?thesis
      unfolding pool_buffers_length [OF aux] by (intro exI [of _ k]) (simp add: pool_buffers_nth [OF aux])
  qed
  have first': "filter (mbuffer_matches L (mailbox_mbufferpool_aux H) (cfg_local_addr rc) (cfg_remote_addr rc))
      (pending L (mailbox_mbufferpool_aux H) (mbufs s)) = []"
    using first by (simp add: filter_empty_conv)
  have rport': "(nat (get_actid (mailbox_functions H M) (mailbox_laddress_calc (int j) q)),
      get_portid (mailbox_functions H M) (mailbox_laddress_calc (int j) q)) \<in> mailbox_ports L s"
    using rport by (simp only: r(1,3) nat_int)
  show ?thesis
    unfolding do_mailbox_awrite_def do_mailbox_aread_def
    by (rule mbx.local_roundtrip [OF laws inv age w(6,1-5) loc wport idle room free' _ r(6) rport' addr(1,3)])
      (use size addr(2) src first' in simp_all)
qed

theorem mailbox_local_roundtrip_witness:
  "\<exists>stats1 s1 stats2 s2.
    do_mailbox_awrite sample_klib sample_hal sample_mailbox 17 (sample_config 0 3 100) \<lparr>ps_volume = 0, ps_latency = 0\<rparr>
      sample_mailboxes = Some (ACTIVE_COMM_RECEIVED, stats1, s1)
    \<and> do_mailbox_aread sample_klib sample_hal sample_mailbox 3 (sample_config 3 16 200) \<lparr>ps_volume = 0, ps_latency = 0\<rparr>
      s1 = Some (ACTIVE_COMM_RECEIVED, stats2, s2)
    \<and> umem s2 = store_bytes (umem sample_mailboxes) 200 [100, 101]"
proof -
  note rt = mailbox_local_roundtrip [OF sample_klib_laws sample_mailboxes_inv _ sample_mailbox_ports(2,1),
    of "sample_config 0 3 100" "sample_config 3 16 200" sample_mailbox
      "\<lparr>ps_volume = 0, ps_latency = 0\<rparr>" "\<lparr>ps_volume = 0, ps_latency = 0\<rparr>"]
  have src: "\<forall>b :: sample_resource mbuffer. hdr_src (header (mb_message b)) = cfg_local_addr (sample_config 0 3 100) \<longrightarrow>
      mailbox_source_check sample_hal b (cfg_remote_addr (sample_config 3 16 200))"
    by (simp add: mailbox_source_check_def mailbox_get_actid_def mailbox_get_portid_def MAILBOX_PORT_NR_def
        MAILBOX_ANY_PORT_def sample_config_def)
  have "curr_age (mbufs sample_mailboxes) \<noteq> - 1" "node_is_local sample_hal (act_remote (actives sample_mailboxes ! 1))"
    "port_mbufferid (port_of (actives sample_mailboxes ! 1) 0) < 0"
    "0 \<notin> set (waiting_ports (requests (actives sample_mailboxes ! 1)))"
    "length (waiting_ports (requests (actives sample_mailboxes ! 1))) < nat (max_capacity (requests (actives sample_mailboxes ! 1)))"
    "\<exists>b \<in> set (pool_buffers (mailbox_mbufferpool_aux sample_hal) (mbufs sample_mailboxes)). \<not> resource_is_used sample_klib (mb_resource b)"
    "\<forall>b \<in> set (pool_buffers (mailbox_mbufferpool_aux sample_hal) (mbufs sample_mailboxes)).
      cfg_size (sample_config 0 3 100) \<le> length (data (mb_message b))"
    "cfg_local_addr (sample_config 3 16 200) = cfg_remote_addr (sample_config 0 3 100)"
    "node_is_local sample_hal (mailbox_get_actid (cfg_remote_addr (sample_config 3 16 200)))"
    "cfg_size (sample_config 3 16 200) = cfg_size (sample_config 0 3 100)"
    "\<forall>b \<in> set (pending sample_klib (mailbox_mbufferpool_aux sample_hal) (mbufs sample_mailboxes)).
      \<not> mbuffer_matches sample_klib (mailbox_mbufferpool_aux sample_hal) (cfg_local_addr (sample_config 3 16 200))
        (cfg_remote_addr (sample_config 3 16 200)) b"
    by code_simp+
  note rt [OF this(1-10) src this(11)]
  moreover have "mailbox_laddress_calc (int 1) 0 = 17" "mailbox_laddress_calc (int 0) 3 = 3"
    "load_bytes (umem sample_mailboxes) (cfg_buffer (sample_config 0 3 100)) (cfg_size (sample_config 0 3 100)) = [100, 101]"
    "cfg_buffer (sample_config 3 16 200) = 200"
    by code_simp+
  ultimately show ?thesis by (simp del: of_nat_1) blast
qed

end
