(* ===== verification/Mailbox_Facts.thy ===== *)
theory Mailbox_Facts
  imports Mailbox
begin

text \<open>
  What the operations of the mailbox facility promise their callers, from the lemmas on
  physical channels: reading, writing to a remote node, waiting, the life of a port and
  the initialisation; and what the code does where an operation fails half-way.
\<close>

section \<open>Reading and writing\<close>



text \<open>(C22) A write on an idle port to a remote node: with no free buffer it fails with \<open>-EBUSY\<close> and
  changes nothing.  Otherwise the port now owns a buffer with the message, addressed as
  configured and carrying the caller's bytes; it succeeds only when the channel was not
  busy and the port is the first of the ring, and then exactly this message has been
  accepted by the device and the channel is busy.  The stored messages and the user's
  memory are left alone.\<close>

theorem mailbox_awrite_remote:
  fixes config :: active_config and L :: "'r klib" and H :: "'h noc_hal"
  assumes laws: "klib_laws L" and inv: "mailbox_inv L H s" and port: "(i, p) \<in> mailbox_ports L s"
    and idle: "port_mbufferid (port_of (actives s ! i) p) < 0"
    and remote: "\<not> node_is_local H (act_remote (actives s ! i))"
  defines "P \<equiv> mailbox_mbufferpool H :: 'r mbuffer_pool"
  shows "\<exists>r s'. do_mailbox_awrite L H M (mailbox_laddress_calc (int i) p) config stats s = Some (r, stats, s')
    \<and> pending L P (mbufs s') = pending L P (mbufs s) \<and> umem s' = umem s
    \<and> (r = - EBUSY \<and> s' = s \<and> (\<forall>k < nmbuffers P. resource_is_used L (mb_resource (mb_table (mbufs s) ! (mbuffers P + k))))
      \<or> (\<exists>k. owns s' MAILBOX_PORT_NR i p (int k)
          \<and> addressed config (load_bytes (umem s) (cfg_buffer config) (cfg_size config))
              (MBUFFER_MESSAGE_INITIALIZER (mb_message (mb_table (mbufs s) ! (mbuffers P + k))))
              (mb_message (mb_table (mbufs s') ! (mbuffers P + k)))
          \<and> (r < 0 \<or> r = ACTIVE_COMM_SUCCESS \<and> \<not> resource_is_busy L (act_resource (actives s ! i))
              \<and> resource_is_busy L (act_resource (actives s' ! i))
              \<and> (\<exists>ps. waiting_ports (requests (actives s' ! i)) = p # ps)
              \<and> (\<exists>h. 0 \<le> fst (mailbox_awrite M (hwfd (actives s ! i))
                    (mb_message (mb_table (mbufs s') ! (mbuffers P + k))) (act_size (actives s ! i)) h)))))"
proof -
  note fd = mailbox_fd [OF laws inv port]
  show ?thesis
  proof (cases rule: mbx.remote_write [OF laws inv fd(6,1-5) idle remote port, of M config stats,
        unfolded mailbox_fn_simps, folded P_def do_mailbox_awrite_def])
    case (2 r s' k)
    then show ?thesis by (intro exI [of _ r] exI [of _ s']) blast
  qed blast
qed

abbreviation (input) no_stats :: pstats where "no_stats \<equiv> \<lparr>ps_volume = 0, ps_latency = 0\<rparr>"

theorem mailbox_awrite_remote_witness:
  "\<exists>s' k. do_mailbox_awrite sample_klib sample_hal sample_mailbox 34 (sample_config 0 20 100) no_stats sample_mailboxes
      = Some (ACTIVE_COMM_SUCCESS, no_stats, s') \<and> owns s' MAILBOX_PORT_NR 2 0 (int k)"
proof -
  have facts: "port_mbufferid (port_of (actives sample_mailboxes ! 2) 0) < 0"
    "\<not> node_is_local sample_hal (act_remote (actives sample_mailboxes ! 2))" "mailbox_laddress_calc (int 2) 0 = 34"
    "map_option fst (do_mailbox_awrite sample_klib sample_hal sample_mailbox 34 (sample_config 0 20 100) no_stats sample_mailboxes) = Some 0"
    by code_simp+
  then show ?thesis
    using mailbox_awrite_remote [OF sample_klib_laws sample_mailboxes_inv sample_mailbox_ports(3),
        of sample_mailbox "sample_config 0 20 100" no_stats]
    by fastforce
qed



text \<open>Port 3 of the input mailbox after the device has been given a buffer to receive into.\<close>

definition sample_receiving :: "(sample_resource, nat \<times> mbuffer_message) noc" where
  "sample_receiving = snd (snd (the (do_mailbox_aread sample_klib sample_hal sample_mailbox 3 (sample_config 3 33 200)
     no_stats sample_mailboxes)))"

lemma sample_receiving_inv: "mailbox_inv sample_klib sample_hal sample_receiving"
proof -
  have "active_valid_call sample_klib (mailbox_functions sample_hal sample_mailbox) 3 sample_mailboxes" by code_simp
  then show ?thesis
    using mbx.aread_total [OF sample_klib_laws sample_mailboxes_inv, of sample_mailbox 3 sample_hal "sample_config 3 33 200" no_stats]
    by (auto simp: sample_receiving_def do_mailbox_aread_def)
qed


section \<open>The life of a port\<close>

text \<open>(C24) Allocation gives the identifier of a port that no one holds, on the channel that was
  asked for, and for an input mailbox the port that was asked for; exactly this port
  becomes used.  While no stored message is addressed to it the port can be released,
  after which the used ports are those from before; a second release is refused with
  \<open>-EINVAL\<close>.\<close>

theorem mailbox_port_life:
  assumes laws: "klib_laws L" and inv: "mailbox_inv L H s"
    and alloc: "do_mailbox_alloc L lcl rmt portid ctype s = (fd, s1)" "0 \<le> fd"
  shows "\<exists>i p. fd = mailbox_laddress_calc (int i) p \<and> (i, p) \<notin> mailbox_ports L s
    \<and> mailbox_ports L s1 = insert (i, p) (mailbox_ports L s)
    \<and> matches_channel L lcl rmt ctype (actives s ! i)
    \<and> (ctype \<noteq> ACTIVE_TYPE_OUTPUT \<longrightarrow> p = portid)
    \<and> ((\<forall>b \<in> set (pending L (mailbox_mbufferpool H) (mbufs s)).
          hdr_dest (header (mb_message b)) \<noteq> mailbox_laddress_calc lcl p) \<longrightarrow>
        (\<exists>s2. do_mailbox_release L H M fd s1 = Some (0, s2) \<and> mailbox_ports L s2 = mailbox_ports L s
          \<and> do_mailbox_release L H M fd s2 = Some (- EINVAL, s2)))"
  using mbx.port_life [OF laws inv alloc [unfolded do_mailbox_alloc_def], of M]
  by (simp add: mailbox_laddress_calc_def do_mailbox_release_def)

theorem mailbox_port_life_witness:
  "\<exists>s1 s2. do_mailbox_alloc sample_klib 0 (- 1) 5 0 booted = (5, s1)
    \<and> do_mailbox_release sample_klib sample_hal sample_mailbox 5 s1 = Some (0, s2)
    \<and> mailbox_ports sample_klib s2 = mailbox_ports sample_klib booted"
proof -
  have fd: "fst (do_mailbox_alloc sample_klib 0 (- 1) 5 0 booted) = 5"
    and none: "pending sample_klib (mailbox_mbufferpool sample_hal) (mbufs booted) = []"
    by code_simp+
  then obtain s1 where s1: "do_mailbox_alloc sample_klib 0 (- 1) 5 0 booted = (5, s1)" by (metis prod.collapse)
  show ?thesis
    using mailbox_port_life [OF sample_klib_laws booted_inv s1, of sample_mailbox] none s1 by auto
qed

section \<open>Initialisation\<close>

text \<open>The initialisation succeeds: with zeroed tables, more channels than nodes, and a device
  that creates and opens, no assertion fails, channel 0 becomes the input mailbox of the
  local node, channel \<open>j + 1\<close> the output mailbox to node \<open>j\<close>, and the tables are well
  formed.\<close>

theorem mailbox_init_connects:
  assumes laws: "klib_laws L" and tab: "mailbox_tables M s"
    and zero: "\<forall>a \<in> set (actives s). \<not> resource_is_used L (act_resource a)"
    and nodes: "nat (PROCESSOR_NOC_NODES_NUM H) < HW_MAILBOX_MAX M" "node_is_local H (processor_node_get_num H)"
    and dev: "\<forall>n h. 0 \<le> fst (mailbox_create M n h) \<and> 0 \<le> fst (mailbox_open M n h)"
  shows "\<exists>s0. do_mailbox_init L H M s = Some s0 \<and> mailbox_inv L H s0
    \<and> matches_channel L (processor_node_get_num H) (- 1) ACTIVE_TYPE_INPUT (actives s0 ! 0)
    \<and> (\<forall>j < nat (PROCESSOR_NOC_NODES_NUM H).
        matches_channel L (processor_node_get_num H) (int j) ACTIVE_TYPE_OUTPUT (actives s0 ! Suc j))"
proof (rule mbx.boot_connected [where M = M and s = "do_mailbox_table_init L H M s", OF laws nodes(2)])
  fix r s1 s0
  assume boot: "active_create L (mailbox_functions H M) (processor_node_get_num H) (do_mailbox_table_init L H M s) = (r, s1)"
      "0 \<le> r" "open_all (active_open L H (mailbox_functions H M) (processor_node_get_num H))
        [0..PROCESSOR_NOC_NODES_NUM H - 1] s1 = Some s0"
    and con: "connected L (processor_node_get_num H) (nat (PROCESSOR_NOC_NODES_NUM H)) s0"
  have "do_mailbox_init L H M s = Some s0" using boot by (simp add: do_mailbox_init_def KASSERT_def)
  then show ?thesis using mailbox_init_inv [OF laws tab] con by (auto simp: connected_def)
qed (use dev zero nodes tab in \<open>auto simp: mailbox_functions_def wrapper_mailbox_open_def do_mailbox_table_init_def
      mailbox_active_init_def mailbox_tables_def\<close>)

theorem mailbox_init_connects_witness:
  "\<exists>s0. do_mailbox_init sample_klib sample_hal sample_mailbox (zeroed_noc 3 (0, sample_message 3 17 7)) = Some s0
    \<and> matches_channel sample_klib 0 1 ACTIVE_TYPE_OUTPUT (actives s0 ! 2)"
proof -
  have "\<exists>s0. do_mailbox_init sample_klib sample_hal sample_mailbox (zeroed_noc 3 (0, sample_message 3 17 7)) = Some s0
    \<and> mailbox_inv sample_klib sample_hal s0
    \<and> matches_channel sample_klib (processor_node_get_num sample_hal) (- 1) ACTIVE_TYPE_INPUT (actives s0 ! 0)
    \<and> (\<forall>j < nat (PROCESSOR_NOC_NODES_NUM sample_hal).
        matches_channel sample_klib (processor_node_get_num sample_hal) (int j) ACTIVE_TYPE_OUTPUT (actives s0 ! Suc j))"
    by (rule mailbox_init_connects [OF sample_klib_laws zeroed_mailbox_tables])
      (simp_all add: zeroed_noc_def zeroed_channel_def sample_klib_def sample_hal_def sample_mailbox_def)
  then show ?thesis by (auto simp: sample_hal_def numeral_2_eq_2)
qed

section \<open>Operations that fail half-way\<close>


text \<open>Any state with every message buffer taken.\<close>

definition buffers_taken :: "(sample_resource, 'h) noc \<Rightarrow> (sample_resource, 'h) noc" where
  "buffers_taken s = s\<lparr>mbufs := \<lparr>mb_table = replicate 32 (sample_mbuffer True False 0 0 0 0), curr_age = 0\<rparr>\<rparr>"

lemma buffers_taken_inv:
  assumes "mailbox_inv sample_klib H s"
  shows "mailbox_inv sample_klib H (buffers_taken s)"
proof (rule noc_invI)
  have owns: "owns (buffers_taken s) = owns s" by (simp add: buffers_taken_def)
  show "owned_ok sample_klib (mailbox_mbufferpool H) (mbufs (buffers_taken s)) b"
    if "owns (buffers_taken s) MAILBOX_PORT_NR i p b" for i p b
    using noc_invD(4) [OF assms that [unfolded owns]] that
    by (auto simp: owned_ok_def buffers_taken_def sample_mbuffer_def sample_klib_def mailbox_mbufferpool_def
        KMAILBOX_MESSAGE_BUFFERS_MAX_def owns_def)
  show "mbuffer_inv sample_klib (mailbox_mbufferpool H) (mbufs (buffers_taken s))"
    by (simp add: mbuffer_inv_def buffers_taken_def mailbox_mbufferpool_def KMAILBOX_MESSAGE_BUFFERS_MAX_def
        pool_buffers_def stored_def sample_mbuffer_def sample_klib_def)
  show "i = j \<and> p = q" if "owns (buffers_taken s) MAILBOX_PORT_NR i p b" "owns (buffers_taken s) MAILBOX_PORT_NR j q b" for i p j q b
    using noc_invD(6) [OF assms] that unfolding owns by blast
  show "port_mbufferpool (port_of (actives (buffers_taken s) ! i) p) = Some (mailbox_mbufferpool H)"
    if "owns (buffers_taken s) MAILBOX_PORT_NR i p b" for i p b
    using noc_invD(5) [OF assms that [unfolded owns]] by (simp add: buffers_taken_def)
qed (use noc_invD(2) [OF assms] in \<open>simp_all add: buffers_taken_def sender_ok_def sample_mbuffer_def mailbox_mbufferpool_def
      KMAILBOX_MESSAGE_BUFFERS_MAX_def\<close>)


text \<open>(C36) Releasing a port does not release the buffer it holds: whoever is given the port next
  sends the message left there by the previous owner, and the message it passes to the
  write is ignored.\<close>

theorem mailbox_stale_message:
  assumes laws: "klib_laws L" and inv: "mailbox_inv L H s" and own: "owns s MAILBOX_PORT_NR i p (int k)"
    and rel: "do_mailbox_release L H M (mailbox_laddress_calc (int i) p) s = Some (0, s1)"
    and alloc: "do_mailbox_alloc L lcl rmt q ctype s1 = (mailbox_laddress_calc (int i) p, s2)"
  shows "mb_table (mbufs s2) = mb_table (mbufs s) \<and> owns s2 MAILBOX_PORT_NR i p (int k)
    \<and> do_mailbox_awrite L H M (mailbox_laddress_calc (int i) p) config stats s2 =
        awrite_send L H (mailbox_functions H M) (int i) p k stats s2"
proof -
  note keep = mbx.release_alloc_keeps_buffer [OF laws inv own
      rel [unfolded do_mailbox_release_def mailbox_laddress_calc_def]
      alloc [unfolded do_mailbox_alloc_def mailbox_laddress_calc_def]]
  note fd = mailbox_fd [OF laws keep(1,3)]
  show ?thesis
    using mbx.owned_write_ignores_config [OF laws keep(1) fd(6,1-5) keep(3,2)] keep(2,4)
    by (simp add: do_mailbox_awrite_def mailbox_mbufferpool_def)
qed

text \<open>The mailbox to node 1 after a write to port 3 of that node.\<close>

definition sample_sent :: "(sample_resource, nat \<times> mbuffer_message) noc" where
  "sample_sent = snd (snd (the (do_mailbox_awrite sample_klib sample_hal sample_mailbox 34 (sample_config 0 20 100)
     no_stats sample_mailboxes)))"

lemma sample_sent_inv: "mailbox_inv sample_klib sample_hal sample_sent"
proof -
  have "active_valid_call sample_klib (mailbox_functions sample_hal sample_mailbox) 34 sample_mailboxes"
    "curr_age (mbufs sample_mailboxes) \<noteq> - 1" by code_simp+
  then show ?thesis
    using mbx.awrite_total [OF sample_klib_laws sample_mailboxes_inv, of sample_mailbox 34 sample_hal "sample_config 0 20 100" no_stats]
    by (auto simp: sample_sent_def do_mailbox_awrite_def)
qed

theorem mailbox_stale_message_witness:
  "\<exists>s1 s2. do_mailbox_release sample_klib sample_hal sample_mailbox 34 sample_sent = Some (0, s1)
    \<and> do_mailbox_alloc sample_klib 0 1 (- 1) 1 s1 = (34, s2)
    \<and> do_mailbox_awrite sample_klib sample_hal sample_mailbox 34 (sample_config 0 21 500) no_stats s2 =
        awrite_send sample_klib sample_hal (mailbox_functions sample_hal sample_mailbox) 2 0 0 no_stats s2"
proof -
  define s1 where "s1 = snd (the (do_mailbox_release sample_klib sample_hal sample_mailbox 34 sample_sent))"
  define s2 where "s2 = snd (do_mailbox_alloc sample_klib 0 1 (- 1) 1 s1)"
  have "map_option fst (do_mailbox_release sample_klib sample_hal sample_mailbox 34 sample_sent) = Some 0" by code_simp
  then have rel: "do_mailbox_release sample_klib sample_hal sample_mailbox 34 sample_sent = Some (0, s1)"
    by (auto simp: s1_def)
  have "fst (do_mailbox_alloc sample_klib 0 1 (- 1) 1 s1) = 34" unfolding s1_def by code_simp
  then have alloc: "do_mailbox_alloc sample_klib 0 1 (- 1) 1 s1 = (34, s2)" by (metis s2_def prod.collapse)
  have own: "owns sample_sent MAILBOX_PORT_NR 2 0 (int 0)" unfolding owns_def by code_simp
  have id: "mailbox_laddress_calc (int 2) 0 = 34" by code_simp
  show ?thesis
    using mailbox_stale_message [OF sample_klib_laws sample_sent_inv own, unfolded id, OF rel alloc,
        of "sample_config 0 21 500" no_stats] rel alloc
    by auto
qed

end
