(* ===== verification/Communicator.thy ===== *)
theory Communicator
  imports Active Memory_Layout
begin

text \<open>
  Communicators: \<^verbatim>\<open>src/kernel/noc/communicator.h\<close> and
  \<^verbatim>\<open>src/kernel/noc/communicator.c\<close>.  A communicator is the object a user
  operates on; it is bound to a port of a physical channel.  The functions of the facility
  it calls are the fields of \<open>communicator_functions\<close>; the source keeps one pointer
  \<open>do_comm\<close> for all communicators of a facility, set to the read or to the write
  function before each operation, so it is a part of the state (\<open>do_comm_fn\<close>).
  \<open>'s\<close> is the state of the channels below.
\<close>

section \<open>Structures\<close>

record 'r communicator =
  com_resource :: 'r
  com_flags    :: "32 word"
  com_config   :: active_config
  com_stats    :: pstats

record communicator_counters =
  ncreates :: "64 word"
  nunlinks :: "64 word"
  nopens   :: "64 word"
  ncloses  :: "64 word"
  nreads   :: "64 word"
  nwrites  :: "64 word"

datatype comm_fn = COMM_AREAD | COMM_AWRITE

type_synonym 's comm_call = "int \<Rightarrow> active_config \<Rightarrow> pstats \<Rightarrow> 's \<Rightarrow> (int \<times> pstats \<times> 's) option"

record 's communicator_functions =
  fn_release       :: "int \<Rightarrow> 's \<Rightarrow> (int \<times> 's) option"
  fn_aread         :: "'s comm_call"
  fn_awrite        :: "'s comm_call"
  fn_wait          :: "'s comm_call"
  fn_laddress_calc :: "int \<Rightarrow> int \<Rightarrow> int"

record ('r, 's) comms =
  communicators :: "'r communicator list"
  counters      :: communicator_counters
  do_comm_fn    :: comm_fn
  chan          :: 's

definition COMMUNICATOR_FLAGS_FINISHED :: "32 word" where "COMMUNICATOR_FLAGS_FINISHED = push_bit 0 1"
definition COMMUNICATOR_FLAGS_ALLOWED :: "32 word" where "COMMUNICATOR_FLAGS_ALLOWED = push_bit 1 1"

definition communicator_set_finished :: "'r communicator \<Rightarrow> 'r communicator" where
  "communicator_set_finished comm = comm\<lparr>com_flags := com_flags comm OR COMMUNICATOR_FLAGS_FINISHED\<rparr>"

definition communicator_set_notfinished :: "'r communicator \<Rightarrow> 'r communicator" where
  "communicator_set_notfinished comm = comm\<lparr>com_flags := com_flags comm AND NOT COMMUNICATOR_FLAGS_FINISHED\<rparr>"

definition communicator_set_allowed :: "'r communicator \<Rightarrow> 'r communicator" where
  "communicator_set_allowed comm = comm\<lparr>com_flags := com_flags comm OR COMMUNICATOR_FLAGS_ALLOWED\<rparr>"

definition communicator_set_notallowed :: "'r communicator \<Rightarrow> 'r communicator" where
  "communicator_set_notallowed comm = comm\<lparr>com_flags := com_flags comm AND NOT COMMUNICATOR_FLAGS_ALLOWED\<rparr>"

definition communicator_is_finished :: "'r communicator \<Rightarrow> bool" where
  "communicator_is_finished comm \<longleftrightarrow> com_flags comm AND COMMUNICATOR_FLAGS_FINISHED \<noteq> 0"

definition communicator_is_allowed :: "'r communicator \<Rightarrow> bool" where
  "communicator_is_allowed comm \<longleftrightarrow> com_flags comm AND COMMUNICATOR_FLAGS_ALLOWED \<noteq> 0"

definition set_comm :: "nat \<Rightarrow> ('r communicator \<Rightarrow> 'r communicator) \<Rightarrow> ('r, 's) comms \<Rightarrow> ('r, 's) comms" where
  "set_comm i f V = V\<lparr>communicators := (communicators V)[i := f (communicators V ! i)]\<rparr>"

section \<open>Allocation and release\<close>

definition communicator_alloc ::
  "'r klib \<Rightarrow> active_config \<Rightarrow> int \<Rightarrow> ('r, 's) comms \<Rightarrow> int \<times> ('r, 's) comms" where
  "communicator_alloc L config ctype V =
    (case first_index (\<lambda>comm. \<not> resource_is_used L (com_resource comm)) (communicators V) of
       None \<Rightarrow> (- EAGAIN, V)
     | Some i \<Rightarrow>
         let res = resource_set_used L (RESOURCE_INITIALIZER L);
             res = (if ctype = ACTIVE_TYPE_INPUT then resource_set_rdonly L res else resource_set_wronly L res)
         in (int i, set_comm i (\<lambda>comm. comm\<lparr>com_resource := res, com_flags := 0, com_config := config,
               com_stats := PSTATS_INITIALIZER\<rparr>) V))"

definition communicator_free ::
  "'r klib \<Rightarrow> 's communicator_functions \<Rightarrow> int \<Rightarrow> int \<Rightarrow> ('r, 's) comms \<Rightarrow> (int \<times> ('r, 's) comms) option" where
  "communicator_free L fn i ctype V =
    do {
      KASSERT (WITHIN L i 0 (int (length (communicators V))));
      let comm = communicators V ! nat i;
      if \<not> resource_is_used L (com_resource comm) then Some (- EBADF, V)
      else if ctype = ACTIVE_TYPE_INPUT \<and> \<not> resource_is_readable L (com_resource comm) then Some (- EBADF, V)
      else if ctype \<noteq> ACTIVE_TYPE_INPUT \<and> \<not> resource_is_writable L (com_resource comm) then Some (- EBADF, V)
      else if resource_is_busy L (com_resource comm) then Some (- EBUSY, V)
      else do {
        (ret, s) \<leftarrow> fn_release fn (cfg_fd (com_config comm)) (chan V);
        let V = V\<lparr>chan := s\<rparr>;
        if ret = 0
        then
          let V = set_comm (nat i) (\<lambda>comm. comm\<lparr>com_resource := resource_set_unused L (com_resource comm)\<rparr>) V;
              c = counters V;
              c = (if ctype = ACTIVE_TYPE_INPUT then c\<lparr>nunlinks := nunlinks c + 1\<rparr> else c\<lparr>ncloses := ncloses c + 1\<rparr>)
          in Some (ret, V\<lparr>counters := c\<rparr>)
        else Some (ret, V)
      }
    }"

section \<open>Communication\<close>

text \<open>What the facilities store before they operate on a communicator.\<close>

definition set_buffer :: "nat \<Rightarrow> nat \<Rightarrow> nat \<Rightarrow> ('r, 's) comms \<Rightarrow> ('r, 's) comms" where
  "set_buffer i buffer sz V =
    set_comm i (\<lambda>comm. comm\<lparr>com_config := (com_config comm)\<lparr>cfg_buffer := buffer, cfg_size := sz\<rparr>\<rparr>) V"

definition communicator_operate ::
  "'r klib \<Rightarrow> 's communicator_functions \<Rightarrow> nat \<Rightarrow> int \<Rightarrow> ('r, 's) comms \<Rightarrow> (int \<times> ('r, 's) comms) option" where
  "communicator_operate L fn i ctype V =
    do {
      let comm = communicators V ! i;
      if \<not> resource_is_used L (com_resource comm) then Some (- EBADF, V)
      else if ctype = ACTIVE_TYPE_INPUT \<and> \<not> resource_is_readable L (com_resource comm) then Some (- EBADF, V)
      else if ctype = ACTIVE_TYPE_INPUT \<and> \<not> communicator_is_allowed comm then Some (- EACCES, V)
      else if ctype \<noteq> ACTIVE_TYPE_INPUT \<and> \<not> resource_is_writable L (com_resource comm) then Some (- EBADF, V)
      else if resource_is_busy L (com_resource comm) then Some (- EBUSY, V)
      else do {
        (ret, stats, s) \<leftarrow>
          (case do_comm_fn V of COMM_AREAD \<Rightarrow> fn_aread fn | COMM_AWRITE \<Rightarrow> fn_awrite fn)
            (cfg_fd (com_config comm)) (com_config comm) (com_stats comm) (chan V);
        let V = set_comm i (\<lambda>comm. comm\<lparr>com_stats := stats\<rparr>) (V\<lparr>chan := s\<rparr>);
        if ret \<ge> 0
        then
          let V = (if ret = ACTIVE_COMM_RECEIVED
                   then set_comm i (\<lambda>comm. communicator_set_notallowed (communicator_set_finished comm)) V else V);
              V = set_comm i (\<lambda>comm. comm\<lparr>com_resource := resource_set_busy L (com_resource comm)\<rparr>) V
          in Some (int (cfg_size (com_config comm)), V)
        else Some (ret, V)
      }
    }"

text \<open>The end of \<open>communicator_wait\<close> (label \<open>release\<close>).\<close>

definition comm_release :: "'r klib \<Rightarrow> nat \<Rightarrow> ('r, 's) comms \<Rightarrow> ('r, 's) comms" where
  "comm_release L i V = set_comm i (\<lambda>comm. comm\<lparr>com_config := (com_config comm)\<lparr>cfg_buffer := 0, cfg_size := 0\<rparr>,
     com_resource := resource_set_notbusy L (com_resource comm)\<rparr>) V"

definition communicator_wait ::
  "'r klib \<Rightarrow> 's communicator_functions \<Rightarrow> nat \<Rightarrow> ('r, 's) comms \<Rightarrow> (int \<times> ('r, 's) comms) option" where
  "communicator_wait L fn i V =
    do {
      let comm = communicators V ! i;
      if \<not> resource_is_used L (com_resource comm) then Some (- EBADF, V)
      else if \<not> resource_is_busy L (com_resource comm) then Some (- EBADF, V)
      else if communicator_is_finished comm
      then Some (0, comm_release L i (set_comm i communicator_set_notfinished V))
      else do {
        (ret, stats, s) \<leftarrow> fn_wait fn (cfg_fd (com_config comm)) (com_config comm) (com_stats comm) (chan V);
        let V = set_comm i (\<lambda>comm. comm\<lparr>com_stats := stats\<rparr>) (V\<lparr>chan := s\<rparr>);
        let V = (if ret = ACTIVE_COMM_SUCCESS
                 then
                   let V = set_comm i communicator_set_notallowed V;
                       rd = resource_is_readable L (com_resource (communicators V ! i));
                       V = (if rd then set_comm i (\<lambda>comm. comm\<lparr>com_config := (com_config comm)\<lparr>cfg_remote_addr := - 1\<rparr>\<rparr>) V
                            else V);
                       c = counters V
                   in V\<lparr>counters := if rd then c\<lparr>nreads := nreads c + 1\<rparr> else c\<lparr>nwrites := nwrites c + 1\<rparr>\<rparr>
                 else V);
        Some (ret, comm_release L i V)
      }
    }"

section \<open>Control\<close>

text \<open>The arguments of a request: a user pointer, or a node and a port.  The result carries the
  user variable that is written, with its value.\<close>

record (overloaded) 'w comm_args =
  arg_ptr  :: "'w::len word"
  arg_node :: int
  arg_port :: int

definition communicator_ioctl_valid :: "target \<Rightarrow> ('w::len) layout \<Rightarrow> 'w word \<Rightarrow> 'w word \<Rightarrow> bool" where
  "communicator_ioctl_valid tgt lay ptr sz \<longleftrightarrow> ptr \<noteq> 0 \<and> mm_check_area tgt lay ptr sz UMEM_AREA"

text \<open>The inner \<open>switch\<close>: the 64-bit variables.\<close>

definition ioctl_var :: "int \<Rightarrow> 'r communicator \<Rightarrow> communicator_counters \<Rightarrow> 64 word option" where
  "ioctl_var request comm c =
    (if request = 2 then Some (ps_latency (com_stats comm))
     else if request = 3 then Some (ncreates c)
     else if request = 4 then Some (nunlinks c)
     else if request = 5 then Some (nopens c)
     else if request = 6 then Some (ncloses c)
     else if request = 7 then Some (nreads c)
     else if request = 8 then Some (nwrites c)
     else None)"

definition communicator_ioctl ::
  "'r klib \<Rightarrow> 's communicator_functions \<Rightarrow> target \<Rightarrow> ('w::len) layout \<Rightarrow> 'w word \<Rightarrow> nat \<Rightarrow> int \<Rightarrow> 'w comm_args
    \<Rightarrow> ('r, 's) comms \<Rightarrow> int \<times> ('w word \<times> nat) option \<times> ('r, 's) comms" where
  "communicator_ioctl L fn tgt lay size_t i request args V =
    (let comm = communicators V ! i
     in if \<not> resource_is_used L (com_resource comm) then (- EBADF, None, V)
        else if resource_is_busy L (com_resource comm) then (- EBUSY, None, V)
        else if request = 1
        then if \<not> communicator_ioctl_valid tgt lay (arg_ptr args) size_t then (- EFAULT, None, V)
             else (0, Some (arg_ptr args, ps_volume (com_stats comm)), V)
        else if request = 9
        then (0, None, set_comm i (\<lambda>comm. comm\<lparr>com_config := (com_config comm)
               \<lparr>cfg_remote_addr := fn_laddress_calc fn (arg_node args) (arg_port args)\<rparr>\<rparr>) V)
        else case ioctl_var request comm (counters V) of
          Some x \<Rightarrow> if \<not> communicator_ioctl_valid tgt lay (arg_ptr args) 8 then (- EFAULT, None, V)
                     else (0, Some (arg_ptr args, unat x), V)
        | None \<Rightarrow> (- ENOTSUP, None, V))"

end
