(* ===== verification/Virtual.thy ===== *)
theory Virtual
  imports Communicator Interfaces
begin

text \<open>
  The contract between communicators and the physical channels below them, and what the
  operations on communicators keep of it.  \<open>port_provider\<close> is the interface that a
  facility (mailboxes, portals) provides: allocating a port gives an identifier that is
  not in use, releasing one gives it back, and communication leaves the identifiers in
  use alone.  The invariant is that the identifiers in use are exactly those that the used
  communicators hold, each held by one.
\<close>

section \<open>Flags\<close>

lemma finished_bit: "communicator_is_finished c \<longleftrightarrow> bit (com_flags c) 0"
proof -
  have "x AND 1 \<noteq> 0 \<longleftrightarrow> bit x 0" for x :: "32 word" by (simp add: and_one_eq bit_0 odd_iff_mod_2_eq_one)
  then show ?thesis by (simp add: communicator_is_finished_def COMMUNICATOR_FLAGS_FINISHED_def)
qed

lemma allowed_bit: "communicator_is_allowed c \<longleftrightarrow> bit (com_flags c) 1"
proof -
  have "x AND 2 \<noteq> 0 \<longleftrightarrow> bit x 1" for x :: "32 word"
    using and_exp_eq_0_iff_not_bit [of x 1] by simp
  then show ?thesis by (simp add: communicator_is_allowed_def COMMUNICATOR_FLAGS_ALLOWED_def)
qed

lemma flag_simps [simp]:
  "communicator_is_finished (communicator_set_finished c)" "\<not> communicator_is_finished (communicator_set_notfinished c)"
  "communicator_is_allowed (communicator_set_allowed c)" "\<not> communicator_is_allowed (communicator_set_notallowed c)"
  "communicator_is_finished (communicator_set_allowed c) = communicator_is_finished c"
  "communicator_is_finished (communicator_set_notallowed c) = communicator_is_finished c"
  "communicator_is_allowed (communicator_set_finished c) = communicator_is_allowed c"
  "communicator_is_allowed (communicator_set_notfinished c) = communicator_is_allowed c"
  unfolding finished_bit allowed_bit
  by (simp_all add: communicator_set_finished_def communicator_set_notfinished_def communicator_set_allowed_def
      communicator_set_notallowed_def COMMUNICATOR_FLAGS_FINISHED_def COMMUNICATOR_FLAGS_ALLOWED_def
      bit_simps bit_2_iff bit_1_iff)

lemma flag_fields [simp]:
  "com_resource (communicator_set_finished c) = com_resource c" "com_resource (communicator_set_notfinished c) = com_resource c"
  "com_resource (communicator_set_allowed c) = com_resource c" "com_resource (communicator_set_notallowed c) = com_resource c"
  "com_config (communicator_set_finished c) = com_config c" "com_config (communicator_set_notfinished c) = com_config c"
  "com_config (communicator_set_allowed c) = com_config c" "com_config (communicator_set_notallowed c) = com_config c"
  "com_stats (communicator_set_finished c) = com_stats c" "com_stats (communicator_set_notfinished c) = com_stats c"
  "com_stats (communicator_set_allowed c) = com_stats c" "com_stats (communicator_set_notallowed c) = com_stats c"
  "communicator_is_finished (c\<lparr>com_resource := r\<rparr>) = communicator_is_finished c"
  "communicator_is_finished (c\<lparr>com_config := g\<rparr>) = communicator_is_finished c"
  "communicator_is_allowed (c\<lparr>com_resource := r\<rparr>) = communicator_is_allowed c"
  "communicator_is_allowed (c\<lparr>com_config := g\<rparr>) = communicator_is_allowed c"
  by (simp_all add: communicator_set_finished_def communicator_set_notfinished_def communicator_set_allowed_def
      communicator_set_notallowed_def communicator_is_finished_def communicator_is_allowed_def)

section \<open>Who holds which port\<close>

definition holds :: "'r klib \<Rightarrow> ('r, 's) comms \<Rightarrow> nat \<Rightarrow> int \<Rightarrow> bool" where
  "holds L V i fd \<longleftrightarrow> i < length (communicators V)
    \<and> resource_is_used L (com_resource (communicators V ! i)) \<and> cfg_fd (com_config (communicators V ! i)) = fd"

definition comms_inv :: "'r klib \<Rightarrow> ('s \<Rightarrow> bool) \<Rightarrow> ('s \<Rightarrow> int set) \<Rightarrow> ('r, 's) comms \<Rightarrow> bool" where
  "comms_inv L ok fds V \<longleftrightarrow> ok (chan V) \<and> (\<forall>fd. fd \<in> fds (chan V) \<longleftrightarrow> (\<exists>i. holds L V i fd))
    \<and> (\<forall>i j fd. holds L V i fd \<and> holds L V j fd \<longrightarrow> i = j)"

lemma comms_invD:
  assumes "comms_inv L ok fds V"
  shows "ok (chan V)" "holds L V i fd \<Longrightarrow> fd \<in> fds (chan V)" "fd \<in> fds (chan V) \<Longrightarrow> \<exists>i. holds L V i fd"
    "holds L V i fd \<Longrightarrow> holds L V j fd \<Longrightarrow> i = j"
  using assms by (auto simp: comms_inv_def)

lemma set_comm_simps [simp]:
  "chan (set_comm i f V) = chan V" "counters (set_comm i f V) = counters V" "do_comm_fn (set_comm i f V) = do_comm_fn V"
  "length (communicators (set_comm i f V)) = length (communicators V)"
  "i < length (communicators V) \<Longrightarrow> communicators (set_comm i f V) ! i = f (communicators V ! i)"
  "j \<noteq> i \<Longrightarrow> communicators (set_comm i f V) ! j = communicators V ! j"
  by (simp_all add: set_comm_def)

lemma holds_updates [simp]:
  "holds L (V\<lparr>chan := s\<rparr>) = holds L V" "holds L (V\<lparr>counters := c\<rparr>) = holds L V" "holds L (V\<lparr>do_comm_fn := d\<rparr>) = holds L V"
  by (simp_all add: holds_def fun_eq_iff)

lemma holds_set_comm:
  assumes "resource_is_used L (com_resource (f (communicators V ! i))) = resource_is_used L (com_resource (communicators V ! i))"
    and "cfg_fd (com_config (f (communicators V ! i))) = cfg_fd (com_config (communicators V ! i))"
  shows "holds L (set_comm i f V) = holds L V"
proof (cases "i < length (communicators V)")
  case True
  then show ?thesis using assms by (auto simp: holds_def fun_eq_iff set_comm_def nth_list_update)
qed (simp add: set_comm_def list_update_beyond)

lemma comms_inv_cong:
  assumes "comms_inv L ok fds V" "holds L V' = holds L V" "ok (chan V')" "fds (chan V') = fds (chan V)"
  shows "comms_inv L ok fds V'"
  using assms by (simp add: comms_inv_def)

section \<open>Allocation of a communicator together with its port\<close>

text \<open>The common shape of \<open>do_vmailbox_alloc\<close> and \<open>do_vportal_alloc\<close>.\<close>

definition virtual_alloc ::
  "'r klib \<Rightarrow> (int \<Rightarrow> 's \<Rightarrow> (int \<times> 's) option) \<Rightarrow> (int \<Rightarrow> active_config) \<Rightarrow> int \<Rightarrow> int \<times> 's
    \<Rightarrow> ('r, 's) comms \<Rightarrow> (int \<times> ('r, 's) comms) option" where
  "virtual_alloc L release config ctype alloced V =
    (let (fd, s) = alloced; V = V\<lparr>chan := s\<rparr>
     in if fd < 0 then Some (fd, V)
        else
          let (i, V) = communicator_alloc L (config fd) ctype V
          in if i < 0
             then do {
               (r, s) \<leftarrow> release fd (chan V);
               KASSERT (\<not> r < 0);
               Some (i, V\<lparr>chan := s\<rparr>)
             }
             else
               let c = counters V
               in Some (i, V\<lparr>counters := if ctype = ACTIVE_TYPE_INPUT then c\<lparr>ncreates := ncreates c + 1\<rparr>
                                        else c\<lparr>nopens := nopens c + 1\<rparr>\<rparr>))"

lemma communicator_alloc_cases:
  obtains (none) "communicator_alloc L config ctype V = (- EAGAIN, V)"
      "\<forall>i < length (communicators V). resource_is_used L (com_resource (communicators V ! i))"
  | (found) i f where "communicator_alloc L config ctype V = (int i, set_comm i f V)" "i < length (communicators V)"
      "\<not> resource_is_used L (com_resource (communicators V ! i))"
      "f = (\<lambda>comm. comm\<lparr>com_resource := (if ctype = ACTIVE_TYPE_INPUT then resource_set_rdonly L else resource_set_wronly L)
         (resource_set_used L (RESOURCE_INITIALIZER L)), com_flags := 0, com_config := config, com_stats := PSTATS_INITIALIZER\<rparr>)"
proof (cases "first_index (\<lambda>comm. \<not> resource_is_used L (com_resource comm)) (communicators V)")
  case None
  then have "\<forall>i < length (communicators V). resource_is_used L (com_resource (communicators V ! i))"
    by (simp add: first_index_None_nth)
  then show thesis using none None by (simp add: communicator_alloc_def)
next
  case (Some i)
  then show thesis
    using first_index_SomeD [OF Some] by (intro found [OF _ _ _ refl]) (auto simp: communicator_alloc_def Let_def)
qed

section \<open>A communication that ends at once\<close>

lemma operate_received:
  assumes "klib_laws L" and i: "i < length (communicators V)"
    and comm: "resource_is_used L (com_resource (communicators V ! i))" "\<not> resource_is_busy L (com_resource (communicators V ! i))"
      "if ctype = ACTIVE_TYPE_INPUT then resource_is_readable L (com_resource (communicators V ! i))
          \<and> communicator_is_allowed (communicators V ! i)
       else resource_is_writable L (com_resource (communicators V ! i))"
    and run: "(case do_comm_fn V of COMM_AREAD \<Rightarrow> fn_aread fn | COMM_AWRITE \<Rightarrow> fn_awrite fn) (cfg_fd (com_config (communicators V ! i)))
      (com_config (communicators V ! i)) (com_stats (communicators V ! i)) (chan V) = Some (ACTIVE_COMM_RECEIVED, st, s)"
  shows "\<exists>V' c. communicator_operate L fn i ctype V = Some (int (cfg_size (com_config (communicators V ! i))), V')
    \<and> communicators V' = (communicators V)[i := c] \<and> chan V' = s \<and> counters V' = counters V \<and> do_comm_fn V' = do_comm_fn V
    \<and> com_resource c = resource_set_busy L (com_resource (communicators V ! i)) \<and> communicator_is_finished c
    \<and> com_config c = com_config (communicators V ! i)"
proof (intro exI conjI)
  let ?c = "(communicator_set_notallowed (communicator_set_finished ((communicators V ! i)\<lparr>com_stats := st\<rparr>)))
    \<lparr>com_resource := resource_set_busy L (com_resource (communicators V ! i))\<rparr>"
  let ?V = "V\<lparr>chan := s, communicators := (communicators V)[i := ?c]\<rparr>"
  show "communicator_operate L fn i ctype V = Some (int (cfg_size (com_config (communicators V ! i))), ?V)"
    using assms by (auto simp: communicator_operate_def Let_def set_comm_def split: if_splits)
  show "communicators ?V = (communicators V)[i := ?c]" by simp
qed simp_all

section \<open>The contract\<close>

lemma free_index:
  assumes "communicator_free L fn i ctype V = Some x" "klib_laws L"
  shows "0 \<le> i" "i < int (length (communicators V))"
  using assms by (auto simp: communicator_free_def KASSERT_def split: if_splits)

locale port_provider =
  fixes L :: "'r klib" and fn :: "'s communicator_functions" and alloc :: "int \<Rightarrow> int \<Rightarrow> int \<Rightarrow> int \<Rightarrow> 's \<Rightarrow> int \<times> 's"
    and ok :: "'s \<Rightarrow> bool" and fds :: "'s \<Rightarrow> int set" and can_write :: "'s \<Rightarrow> bool" and can_wait :: "int \<Rightarrow> 's \<Rightarrow> bool"
  assumes ok_laws: "ok s \<Longrightarrow> klib_laws L"
    and alloc_fresh: "ok s \<Longrightarrow> alloc lcl rmt port ctype s = (fd, s') \<Longrightarrow>
      ok s' \<and> (if fd < 0 then s' = s else fd \<notin> fds s \<and> fds s' = insert fd (fds s))"
    and release_gives_back: "ok s \<Longrightarrow> fd \<in> fds s \<Longrightarrow>
      \<exists>r s'. fn_release fn fd s = Some (r, s') \<and> ok s' \<and> r \<le> 0 \<and> (if r = 0 then fds s' = fds s - {fd} else s' = s)"
    and aread_keeps: "ok s \<Longrightarrow> fd \<in> fds s \<Longrightarrow>
      \<exists>r st' s'. fn_aread fn fd c st s = Some (r, st', s') \<and> ok s' \<and> fds s' = fds s"
    and awrite_keeps: "ok s \<Longrightarrow> fd \<in> fds s \<Longrightarrow> can_write s \<Longrightarrow>
      \<exists>r st' s'. fn_awrite fn fd c st s = Some (r, st', s') \<and> ok s' \<and> fds s' = fds s"
    and wait_keeps: "ok s \<Longrightarrow> fd \<in> fds s \<Longrightarrow> can_wait fd s \<Longrightarrow>
      \<exists>r st' s'. fn_wait fn fd c st s = Some (r, st', s') \<and> ok s' \<and> fds s' = fds s"
begin

lemma virtual_alloc_inv:
  assumes "comms_inv L ok fds V" "\<And>fd. cfg_fd (config fd) = fd"
    and "virtual_alloc L (fn_release fn) config ctype (alloc lcl rmt port ctype (chan V)) V = Some (r, V')"
  shows "comms_inv L ok fds V'"
proof -
  obtain fd s where al: "alloc lcl rmt port ctype (chan V) = (fd, s)" by fastforce
  note inv = comms_invD [OF assms(1)]
  have s: "ok s" "if fd < 0 then s = chan V else fd \<notin> fds (chan V) \<and> fds s = insert fd (fds (chan V))"
    using alloc_fresh [OF inv(1) al] by auto
  note laws = ok_laws [OF inv(1)]
  show ?thesis
  proof (cases "fd < 0")
    case True
    then show ?thesis
      using assms(1,3) al s by (auto simp: virtual_alloc_def intro: comms_inv_cong [OF assms(1)])
  next
    case fd: False
    show ?thesis
    proof (cases rule: communicator_alloc_cases [of L "config fd" ctype "V\<lparr>chan := s\<rparr>"])
      case none
      obtain r' s' where rel: "fn_release fn fd s = Some (r', s')" "ok s'" "r' \<le> 0"
          "if r' = 0 then fds s' = fds s - {fd} else s' = s"
        using release_gives_back [OF s(1), of fd] s(2) fd by auto
      have "V' = V\<lparr>chan := s'\<rparr>" "r' = 0"
        using assms(3) al fd none(1) rel by (auto simp: virtual_alloc_def KASSERT_def split: if_splits)
      then show ?thesis
        using rel s(2) fd by (intro comms_inv_cong [OF assms(1)]) auto
    next
      case (found i f)
      let ?V = "set_comm i f (V\<lparr>chan := s\<rparr>)"
      have i: "i < length (communicators V)" and free: "\<not> holds L V i g" for g using found(2,3) by (auto simp: holds_def)
      have h: "holds L ?V j g \<longleftrightarrow> (if j = i then g = fd else holds L V j g)" for j g
        using i found(4) assms(2) laws by (auto simp: holds_def set_comm_def nth_list_update)
      have "comms_inv L ok fds ?V"
        unfolding comms_inv_def h
      proof (intro conjI allI impI)
        show "g \<in> fds (chan ?V) \<longleftrightarrow> (\<exists>j. if j = i then g = fd else holds L V j g)" for g
          using s(2) fd inv(2,3) free by (cases "g = fd") (auto, metis)
        show "j = k" if "(if j = i then g = fd else holds L V j g) \<and> (if k = i then g = fd else holds L V k g)" for j k g
          using that s(2) fd inv(2,4) by (auto split: if_splits)
      qed (use s(1) in simp)
      moreover obtain c where "V' = ?V\<lparr>counters := c\<rparr>"
        using assms(3) al fd found(1) by (auto simp: virtual_alloc_def Let_def)
      ultimately show ?thesis by (simp add: comms_inv_def)
    qed
  qed
qed

lemma virtual_alloc_result:
  assumes "comms_inv L ok fds V" "\<And>fd. cfg_fd (config fd) = fd"
    and "virtual_alloc L (fn_release fn) config ctype (alloc lcl rmt port ctype (chan V)) V = Some (r, V')" "0 \<le> r"
  shows "\<exists>i fd s. r = int i \<and> alloc lcl rmt port ctype (chan V) = (fd, s) \<and> 0 \<le> fd
    \<and> i < length (communicators V) \<and> \<not> resource_is_used L (com_resource (communicators V ! i))
    \<and> communicators V' = (communicators V)[i := communicators V' ! i]
    \<and> com_config (communicators V' ! i) = config fd \<and> com_flags (communicators V' ! i) = 0
    \<and> com_resource (communicators V' ! i) = (if ctype = ACTIVE_TYPE_INPUT then resource_set_rdonly L else resource_set_wronly L)
        (resource_set_used L (RESOURCE_INITIALIZER L))
    \<and> chan V' = s \<and> counters V' = (if ctype = ACTIVE_TYPE_INPUT then (counters V)\<lparr>ncreates := ncreates (counters V) + 1\<rparr>
        else (counters V)\<lparr>nopens := nopens (counters V) + 1\<rparr>)"
proof -
  obtain fd s where al: "alloc lcl rmt port ctype (chan V) = (fd, s)" by fastforce
  have fd: "0 \<le> fd" using assms(3,4) al by (rule_tac ccontr) (auto simp: virtual_alloc_def Let_def)
  show ?thesis
  proof (cases rule: communicator_alloc_cases [of L "config fd" ctype "V\<lparr>chan := s\<rparr>"])
    case none
    then show ?thesis using assms(3,4) al fd by (auto simp: virtual_alloc_def bind_eq_Some_conv)
  next
    case (found i f)
    then show ?thesis
      using assms(3) al fd by (intro exI [of _ i] exI [of _ fd] exI [of _ s]) (auto simp: virtual_alloc_def Let_def set_comm_def)
  qed
qed

lemma free_inv:
  assumes inv: "comms_inv L ok fds V" and i: "0 \<le> i" "i < int (length (communicators V))"
  shows "\<exists>r V'. communicator_free L fn i ctype V = Some (r, V') \<and> comms_inv L ok fds V'
    \<and> length (communicators V') = length (communicators V)"
proof -
  note laws = ok_laws [OF comms_invD(1) [OF inv]]
  let ?c = "communicators V ! nat i" and ?fd = "cfg_fd (com_config (communicators V ! nat i))"
  consider "\<not> resource_is_used L (com_resource ?c)" | "ctype = ACTIVE_TYPE_INPUT \<and> \<not> resource_is_readable L (com_resource ?c)"
    | "ctype \<noteq> ACTIVE_TYPE_INPUT \<and> \<not> resource_is_writable L (com_resource ?c)" | "resource_is_busy L (com_resource ?c)"
    | "resource_is_used L (com_resource ?c)" "\<not> (ctype = ACTIVE_TYPE_INPUT \<and> \<not> resource_is_readable L (com_resource ?c))"
      "\<not> (ctype \<noteq> ACTIVE_TYPE_INPUT \<and> \<not> resource_is_writable L (com_resource ?c))" "\<not> resource_is_busy L (com_resource ?c)"
    by blast
  then show ?thesis
  proof cases
    case 5
    have h: "holds L V (nat i) ?fd" using i 5(1) by (simp add: holds_def nat_less_iff)
    obtain r s where rel: "fn_release fn ?fd (chan V) = Some (r, s)" "ok s"
        "if r = 0 then fds s = fds (chan V) - {?fd} else s = chan V"
      using release_gives_back [OF comms_invD(1) [OF inv] comms_invD(2) [OF inv h]] by blast
    show ?thesis
    proof (cases "r = 0")
      case True
      let ?V = "set_comm (nat i) (\<lambda>comm. comm\<lparr>com_resource := resource_set_unused L (com_resource comm)\<rparr>) (V\<lparr>chan := s\<rparr>)"
      have hold: "holds L ?V j g \<longleftrightarrow> j \<noteq> nat i \<and> holds L V j g" for j g
        using i laws by (auto simp: holds_def set_comm_def nth_list_update nat_less_iff)
      have "g \<in> fds s \<longleftrightarrow> (\<exists>j. j \<noteq> nat i \<and> holds L V j g)" for g
        using rel(3) True comms_invD(2-4) [OF inv] h by auto (metis holds_def)
      then have "comms_inv L ok fds ?V"
        using rel(2) comms_invD(4) [OF inv] unfolding comms_inv_def hold by auto
      moreover obtain c where "communicator_free L fn i ctype V = Some (0, ?V\<lparr>counters := c\<rparr>)"
        using 5 i laws rel(1) True by (auto simp: communicator_free_def Let_def KASSERT_def)
      ultimately show ?thesis by (simp add: comms_inv_def)
    next
      case False
      then have "communicator_free L fn i ctype V = Some (r, V\<lparr>chan := chan V\<rparr>)"
        using 5 i laws rel by (auto simp: communicator_free_def Let_def KASSERT_def)
      then show ?thesis using inv by (simp add: comms_inv_def)
    qed
  qed (use inv i laws in \<open>auto simp: communicator_free_def Let_def KASSERT_def\<close>)
qed

lemma holds_comm_updates:
  assumes "klib_laws L"
  shows "holds L (set_comm i (\<lambda>comm. comm\<lparr>com_stats := st\<rparr>) V) = holds L V"
    "holds L (set_comm i (\<lambda>comm. communicator_set_notallowed (communicator_set_finished comm)) V) = holds L V"
    "holds L (set_comm i (\<lambda>comm. comm\<lparr>com_resource := resource_set_busy L (com_resource comm)\<rparr>) V) = holds L V"
    "holds L (set_comm i communicator_set_notallowed V) = holds L V"
    "holds L (set_comm i communicator_set_allowed V) = holds L V"
    "holds L (set_comm i communicator_set_notfinished V) = holds L V"
    "holds L (set_comm i (\<lambda>comm. comm\<lparr>com_config := (com_config comm)\<lparr>cfg_remote_addr := a\<rparr>\<rparr>) V) = holds L V"
    "holds L (set_comm i (\<lambda>comm. comm\<lparr>com_config := (com_config comm)\<lparr>cfg_buffer := b, cfg_size := z\<rparr>\<rparr>) V) = holds L V"
    "holds L (comm_release L i V) = holds L V"
  unfolding comm_release_def
  by (rule holds_set_comm; use assms in \<open>simp add: communicator_set_notallowed_def communicator_set_finished_def
    communicator_set_notfinished_def communicator_set_allowed_def\<close>)+

lemma setup_inv:
  assumes "comms_inv L ok fds V"
  shows "comms_inv L ok fds ((set_buffer i b z V)\<lparr>do_comm_fn := d\<rparr>)"
    "comms_inv L ok fds (set_comm i communicator_set_allowed ((set_buffer i b z V)\<lparr>do_comm_fn := d\<rparr>))"
  by (rule comms_inv_cong [OF assms];
      use comms_invD(1) [OF assms] in \<open>simp add: set_buffer_def holds_comm_updates [OF ok_laws]\<close>)+

lemma operate_inv:
  assumes inv: "comms_inv L ok fds V" and i: "i < length (communicators V)"
    and wr: "do_comm_fn V = COMM_AWRITE \<Longrightarrow> can_write (chan V)"
  shows "\<exists>r V'. communicator_operate L fn i ctype V = Some (r, V') \<and> comms_inv L ok fds V'
    \<and> length (communicators V') = length (communicators V)"
proof (cases "resource_is_used L (com_resource (communicators V ! i))")
  case True
  let ?c = "communicators V ! i" and ?fd = "cfg_fd (com_config (communicators V ! i))"
  note laws = ok_laws [OF comms_invD(1) [OF inv]]
  have fd: "?fd \<in> fds (chan V)" using comms_invD(2) [OF inv, of i] i True by (simp add: holds_def)
  obtain r st s where op: "(case do_comm_fn V of COMM_AREAD \<Rightarrow> fn_aread fn | COMM_AWRITE \<Rightarrow> fn_awrite fn)
      ?fd (com_config ?c) (com_stats ?c) (chan V) = Some (r, st, s)" "ok s" "fds s = fds (chan V)"
    using aread_keeps [OF comms_invD(1) [OF inv] fd, of "com_config ?c" "com_stats ?c"]
      awrite_keeps [OF comms_invD(1) [OF inv] fd, of "com_config ?c" "com_stats ?c"] wr by (cases "do_comm_fn V") auto
  have keep: "comms_inv L ok fds V'" if "holds L V' = holds L V" "chan V' = s" for V'
    using comms_inv_cong [OF inv that(1)] op that by simp
  show ?thesis
    using op(1) inv True
    by (auto simp: communicator_operate_def Let_def holds_comm_updates [OF laws] intro!: keep)
qed (use inv in \<open>simp add: communicator_operate_def Let_def\<close>)

lemma wait_inv:
  assumes inv: "comms_inv L ok fds V" and i: "i < length (communicators V)"
    and wt: "can_wait (cfg_fd (com_config (communicators V ! i))) (chan V)"
  shows "\<exists>r V'. communicator_wait L fn i V = Some (r, V') \<and> comms_inv L ok fds V'
    \<and> length (communicators V') = length (communicators V)"
proof (cases "resource_is_used L (com_resource (communicators V ! i))")
  case True
  let ?c = "communicators V ! i" and ?fd = "cfg_fd (com_config (communicators V ! i))"
  note laws = ok_laws [OF comms_invD(1) [OF inv]]
  have fd: "?fd \<in> fds (chan V)" using comms_invD(2) [OF inv, of i] i True by (simp add: holds_def)
  obtain r st s where op: "fn_wait fn ?fd (com_config ?c) (com_stats ?c) (chan V) = Some (r, st, s)" "ok s" "fds s = fds (chan V)"
    using wait_keeps [OF comms_invD(1) [OF inv] fd wt] by blast
  have keep: "comms_inv L ok fds V'" if "holds L V' = holds L V" "chan V' = s" for V'
    using comms_inv_cong [OF inv that(1)] op that by simp
  have len: "length (communicators (comm_release L i V')) = length (communicators V')" "chan (comm_release L i V') = chan V'" for V'
    by (simp_all add: comm_release_def)
  have same: "comms_inv L ok fds (comm_release L i (set_comm i communicator_set_notfinished V))"
    using comms_inv_cong [OF inv] comms_invD(1) [OF inv] by (simp add: holds_comm_updates [OF laws] len)
  show ?thesis
    using op(1) inv True same
    by (auto simp: communicator_wait_def Let_def len holds_comm_updates [OF laws] intro!: keep)
qed (use inv in \<open>simp add: communicator_wait_def Let_def\<close>)

lemma ioctl_inv:
  assumes inv: "comms_inv L ok fds V"
  shows "comms_inv L ok fds (snd (snd (communicator_ioctl L fn tgt lay size_t i request args V)))"
  using inv comms_invD(1) [OF inv] comms_inv_cong [OF inv]
  by (auto simp: communicator_ioctl_def Let_def holds_comm_updates [OF ok_laws [OF comms_invD(1) [OF inv]]] split: option.split)

end

end
