(* ===== verification/Vmailbox.thy ===== *)
theory Vmailbox
  imports Mailbox Virtual
begin

text \<open>
  Virtual mailboxes: \<^verbatim>\<open>src/kernel/noc/vmailbox.c\<close>.  The state is a table of
  communicators over the state of the physical mailboxes.  The configuration that
  \<open>do_vmailbox_alloc\<close> builds on its stack leaves two fields uninitialised; \<open>uninit\<close>
  is what the stack held.  An identifier outside the table is an access outside the array
  (\<^const>\<open>None\<close>).
\<close>

type_synonym ('r, 'h) vmailboxes = "('r, ('r, 'h) noc) comms"

definition KMAILBOX_MAX :: nat where "KMAILBOX_MAX = 64"

definition VMAILBOX_GET_LADDRESS_PORT :: "int \<Rightarrow> int" where
  "VMAILBOX_GET_LADDRESS_PORT mbxid = mbxid mod (MAILBOX_PORT_NR + 1)"

definition vmailbox_functions :: "'r klib \<Rightarrow> 'h noc_hal \<Rightarrow> 'h mailbox_hal \<Rightarrow> ('r, 'h) noc communicator_functions" where
  "vmailbox_functions L H M =
    \<lparr>fn_release = do_mailbox_release L H M, fn_aread = do_mailbox_aread L H M, fn_awrite = do_mailbox_awrite L H M,
     fn_wait = do_mailbox_wait L H M, fn_laddress_calc = mailbox_laddress_calc\<rparr>"

definition do_vmailbox_init :: "'r klib \<Rightarrow> ('r, 'h) vmailboxes \<Rightarrow> ('r, 'h) vmailboxes" where
  "do_vmailbox_init L V =
    V\<lparr>counters := \<lparr>ncreates = 0, nunlinks = 0, nopens = 0, ncloses = 0, nreads = 0, nwrites = 0\<rparr>,
      do_comm_fn := COMM_AREAD,
      communicators := map (\<lambda>comm. comm\<lparr>com_resource := RESOURCE_INITIALIZER L,
        com_config := ACTIVE_CONFIG_INITIALIZER, com_stats := PSTATS_INITIALIZER\<rparr>) (communicators V)\<rparr>"

definition do_vmailbox_alloc ::
  "'r klib \<Rightarrow> 'h noc_hal \<Rightarrow> 'h mailbox_hal \<Rightarrow> active_config \<Rightarrow> int \<Rightarrow> int \<Rightarrow> int \<Rightarrow> int \<Rightarrow> ('r, 'h) vmailboxes
    \<Rightarrow> (int \<times> ('r, 'h) vmailboxes) option" where
  "do_vmailbox_alloc L H M uninit lcl rmt port ctype V =
    (let (fd, s) = do_mailbox_alloc L lcl rmt port ctype (chan V); V = V\<lparr>chan := s\<rparr>
     in if fd < 0 then Some (fd, V)
        else
          let config = uninit\<lparr>cfg_fd := fd,
                cfg_local_addr := ACTIVE_LADDRESS_COMPOSE lcl (VMAILBOX_GET_LADDRESS_PORT fd) MAILBOX_PORT_NR,
                cfg_remote_addr := (if ctype = ACTIVE_TYPE_OUTPUT
                  then ACTIVE_LADDRESS_COMPOSE rmt port MAILBOX_PORT_NR else - 1)\<rparr>;
              (mbxid, V) = communicator_alloc L config ctype V
          in if mbxid < 0
             then do {
               (r, s) \<leftarrow> do_mailbox_release L H M fd (chan V);
               KASSERT (\<not> r < 0);
               Some (mbxid, V\<lparr>chan := s\<rparr>)
             }
             else
               let c = counters V
               in Some (mbxid, V\<lparr>counters := if ctype = ACTIVE_TYPE_INPUT then c\<lparr>ncreates := ncreates c + 1\<rparr>
                                            else c\<lparr>nopens := nopens c + 1\<rparr>\<rparr>))"

definition do_vmailbox_create ::
  "'r klib \<Rightarrow> 'h noc_hal \<Rightarrow> 'h mailbox_hal \<Rightarrow> active_config \<Rightarrow> int \<Rightarrow> int \<Rightarrow> ('r, 'h) vmailboxes
    \<Rightarrow> (int \<times> ('r, 'h) vmailboxes) option" where
  "do_vmailbox_create L H M uninit lcl port V =
    (if \<not> node_is_local H lcl then Some (- EINVAL, V)
     else do_vmailbox_alloc L H M uninit lcl (- 1) port ACTIVE_TYPE_INPUT V)"

definition do_vmailbox_open ::
  "'r klib \<Rightarrow> 'h noc_hal \<Rightarrow> 'h mailbox_hal \<Rightarrow> active_config \<Rightarrow> int \<Rightarrow> int \<Rightarrow> ('r, 'h) vmailboxes
    \<Rightarrow> (int \<times> ('r, 'h) vmailboxes) option" where
  "do_vmailbox_open L H M uninit rmt remote_port V =
    do_vmailbox_alloc L H M uninit (processor_node_get_num H) rmt remote_port ACTIVE_TYPE_OUTPUT V"

definition do_vmailbox_unlink ::
  "'r klib \<Rightarrow> 'h noc_hal \<Rightarrow> 'h mailbox_hal \<Rightarrow> int \<Rightarrow> ('r, 'h) vmailboxes \<Rightarrow> (int \<times> ('r, 'h) vmailboxes) option" where
  "do_vmailbox_unlink L H M mbxid V = communicator_free L (vmailbox_functions L H M) mbxid ACTIVE_TYPE_INPUT V"

definition do_vmailbox_close ::
  "'r klib \<Rightarrow> 'h noc_hal \<Rightarrow> 'h mailbox_hal \<Rightarrow> int \<Rightarrow> ('r, 'h) vmailboxes \<Rightarrow> (int \<times> ('r, 'h) vmailboxes) option" where
  "do_vmailbox_close L H M mbxid V = communicator_free L (vmailbox_functions L H M) mbxid ACTIVE_TYPE_OUTPUT V"

definition do_vmailbox_aread ::
  "'r klib \<Rightarrow> 'h noc_hal \<Rightarrow> 'h mailbox_hal \<Rightarrow> int \<Rightarrow> nat \<Rightarrow> nat \<Rightarrow> ('r, 'h) vmailboxes
    \<Rightarrow> (int \<times> ('r, 'h) vmailboxes) option" where
  "do_vmailbox_aread L H M mbxid buffer sz V =
    do {
      _ \<leftarrow> fetch (communicators V) mbxid;
      let V = (set_buffer (nat mbxid) buffer sz V)\<lparr>do_comm_fn := COMM_AREAD\<rparr>;
      let V = set_comm (nat mbxid) communicator_set_allowed V;
      communicator_operate L (vmailbox_functions L H M) (nat mbxid) ACTIVE_TYPE_INPUT V
    }"

definition do_vmailbox_awrite ::
  "'r klib \<Rightarrow> 'h noc_hal \<Rightarrow> 'h mailbox_hal \<Rightarrow> int \<Rightarrow> nat \<Rightarrow> nat \<Rightarrow> ('r, 'h) vmailboxes
    \<Rightarrow> (int \<times> ('r, 'h) vmailboxes) option" where
  "do_vmailbox_awrite L H M mbxid buffer sz V =
    do {
      _ \<leftarrow> fetch (communicators V) mbxid;
      let V = (set_buffer (nat mbxid) buffer sz V)\<lparr>do_comm_fn := COMM_AWRITE\<rparr>;
      communicator_operate L (vmailbox_functions L H M) (nat mbxid) ACTIVE_TYPE_OUTPUT V
    }"

definition do_vmailbox_wait ::
  "'r klib \<Rightarrow> 'h noc_hal \<Rightarrow> 'h mailbox_hal \<Rightarrow> int \<Rightarrow> ('r, 'h) vmailboxes \<Rightarrow> (int \<times> ('r, 'h) vmailboxes) option" where
  "do_vmailbox_wait L H M mbxid V =
    do {
      _ \<leftarrow> fetch (communicators V) mbxid;
      (ret, V) \<leftarrow> communicator_wait L (vmailbox_functions L H M) (nat mbxid) V;
      Some (ret,
        if ret = ACTIVE_COMM_SUCCESS \<and> resource_is_readable L (com_resource (communicators V ! nat mbxid))
        then set_comm (nat mbxid) (\<lambda>comm. comm\<lparr>com_config := (com_config comm)\<lparr>cfg_remote_addr := - 1\<rparr>\<rparr>) V
        else V)
    }"

definition do_vmailbox_ioctl ::
  "'r klib \<Rightarrow> 'h noc_hal \<Rightarrow> 'h mailbox_hal \<Rightarrow> target \<Rightarrow> ('w::len) layout \<Rightarrow> 'w word \<Rightarrow> int \<Rightarrow> int \<Rightarrow> 'w comm_args
    \<Rightarrow> ('r, 'h) vmailboxes \<Rightarrow> (int \<times> ('w word \<times> nat) option \<times> ('r, 'h) vmailboxes) option" where
  "do_vmailbox_ioctl L H M tgt lay size_t mbxid request args V =
    do {
      _ \<leftarrow> fetch (communicators V) mbxid;
      Some (communicator_ioctl L (vmailbox_functions L H M) tgt lay size_t (nat mbxid) request args V)
    }"

definition do_vmailbox_get_port :: "'r klib \<Rightarrow> int \<Rightarrow> ('r, 'h) vmailboxes \<Rightarrow> int" where
  "do_vmailbox_get_port L mbxid V =
    (if \<not> WITHIN L mbxid 0 (int KMAILBOX_MAX) then - EINVAL
     else if \<not> resource_is_used L (com_resource (communicators V ! nat mbxid)) then - EBADF
     else VMAILBOX_GET_LADDRESS_PORT (cfg_fd (com_config (communicators V ! nat mbxid))))"

definition vmailbox_init ::
  "'r klib \<Rightarrow> 'h noc_hal \<Rightarrow> 'h mailbox_hal \<Rightarrow> ('r, 'h) vmailboxes \<Rightarrow> ('r, 'h) vmailboxes option" where
  "vmailbox_init L H M V = do { s \<leftarrow> do_mailbox_init L H M (chan V); Some (do_vmailbox_init L (V\<lparr>chan := s\<rparr>)) }"

section \<open>Physical mailboxes provide ports\<close>

abbreviation vmailbox_fds :: "'r klib \<Rightarrow> ('r, 'h) noc \<Rightarrow> int set" where
  "vmailbox_fds L \<equiv> chan_fds L MAILBOX_PORT_NR"

definition mailbox_can_wait :: "'r klib \<Rightarrow> 'h noc_hal \<Rightarrow> 'h mailbox_hal \<Rightarrow> int \<Rightarrow> ('r, 'h) noc \<Rightarrow> bool" where
  "mailbox_can_wait L H M fd s \<longleftrightarrow> curr_age (mbufs s) \<noteq> - 1
    \<and> device_delivers L (mailbox_functions H M) MAILBOX_PORT_NR (mailbox_mbufferpool H) (snd (clock_read H (hw s)))
        (actives s ! nat (mailbox_get_actid fd)) (mailbox_get_portid fd)"

interpretation vmbx: port_provider L "vmailbox_functions L H M" "do_mailbox_alloc L"
  "\<lambda>s. klib_laws L \<and> mailbox_inv L H s" "vmailbox_fds L" "\<lambda>s. curr_age (mbufs s) \<noteq> - 1" "mailbox_can_wait L H M"
  for L H M
proof (unfold_locales, goal_cases)
  case (2 s lcl rmt port ctype fd s')
  then show ?case using mbx.chan_alloc [of L H s lcl rmt port ctype fd s'] by (simp add: do_mailbox_alloc_def)
next
  case (3 s fd)
  then show ?case using mbx.chan_release [of L H s fd M] by (simp add: vmailbox_functions_def do_mailbox_release_def)
next
  case (4 s fd c st)
  then show ?case using mbx.chan_aread [of L H s fd H M c st] by (simp add: vmailbox_functions_def do_mailbox_aread_def)
next
  case (5 s fd c st)
  then show ?case using mbx.chan_awrite [of L H s fd H M c st] by (simp add: vmailbox_functions_def do_mailbox_awrite_def)
next
  case (6 s fd c st)
  then show ?case using mbx.chan_wait [of L H s fd M H c st]
    by (simp add: vmailbox_functions_def do_mailbox_wait_def mailbox_can_wait_def)
qed simp

section \<open>Ports and virtual mailboxes\<close>

abbreviation vmailbox_inv :: "'r klib \<Rightarrow> 'h noc_hal \<Rightarrow> ('r, 'h) vmailboxes \<Rightarrow> bool" where
  "vmailbox_inv L H \<equiv> comms_inv L (\<lambda>s. klib_laws L \<and> mailbox_inv L H s) (vmailbox_fds L)"

definition vmailbox_config :: "active_config \<Rightarrow> int \<Rightarrow> int \<Rightarrow> int \<Rightarrow> int \<Rightarrow> int \<Rightarrow> active_config" where
  "vmailbox_config uninit lcl rmt port ctype fd = uninit\<lparr>cfg_fd := fd,
     cfg_local_addr := ACTIVE_LADDRESS_COMPOSE lcl (VMAILBOX_GET_LADDRESS_PORT fd) MAILBOX_PORT_NR,
     cfg_remote_addr := (if ctype = ACTIVE_TYPE_OUTPUT then ACTIVE_LADDRESS_COMPOSE rmt port MAILBOX_PORT_NR else - 1)\<rparr>"

lemma do_vmailbox_alloc_eq:
  "do_vmailbox_alloc L H M uninit lcl rmt port ctype V =
    virtual_alloc L (fn_release (vmailbox_functions L H M)) (vmailbox_config uninit lcl rmt port ctype) ctype
      (do_mailbox_alloc L lcl rmt port ctype (chan V)) V"
  unfolding do_vmailbox_alloc_def virtual_alloc_def vmailbox_functions_def vmailbox_config_def Let_def
    communicator_functions.simps by (rule refl)

lemma cfg_fd_vmailbox_config [simp]: "cfg_fd (vmailbox_config uninit lcl rmt port ctype fd) = fd"
  by (simp add: vmailbox_config_def)

lemma vmailbox_init_inv:
  assumes laws: "klib_laws L" and tab: "mailbox_tables M (chan V)" and init: "vmailbox_init L H M V = Some V0"
  shows "vmailbox_inv L H V0" "length (communicators V0) = length (communicators V)"
proof -
  obtain s where s: "do_mailbox_init L H M (chan V) = Some s" and V0: "V0 = do_vmailbox_init L (V\<lparr>chan := s\<rparr>)"
    using init by (auto simp: vmailbox_init_def bind_eq_Some_conv)
  let ?t = "do_mailbox_table_init L H M (chan V)"
  have inv: "mailbox_inv L H s" by (rule mailbox_init_inv [OF laws tab s])
  let ?F = "mailbox_functions H M" and ?lcl = "processor_node_get_num H"
  obtain r s1 where c: "active_create L ?F ?lcl ?t = (r, s1)" by fastforce
  have "open_all (active_open L H ?F ?lcl) [0..PROCESSOR_NOC_NODES_NUM H - 1] s1 = Some s"
    using s c by (auto simp: do_mailbox_init_def KASSERT_def split: if_splits)
  then have "port_uses s = port_uses ?t"
    using open_all_uses active_create_uses [OF c] by metis
  then have "mailbox_ports L s = {}"
    by (intro unused_ports [OF laws inv])
      (auto simp: port_uses_def do_mailbox_table_init_def mailbox_active_init_def mailbox_port_init_def)
  then have fds: "vmailbox_fds L s = {}" by (simp add: chan_fds_def)
  have "\<not> holds L V0 i fd" for i fd using laws by (auto simp: V0 holds_def do_vmailbox_init_def)
  then show "vmailbox_inv L H V0" using laws inv fds by (auto simp: comms_inv_def V0 do_vmailbox_init_def)
  show "length (communicators V0) = length (communicators V)" by (simp add: V0 do_vmailbox_init_def)
qed

lemma vmailbox_alloc_inv:
  assumes "vmailbox_inv L H V" "do_vmailbox_alloc L H M uninit lcl rmt port ctype V = Some (r, V')"
  shows "vmailbox_inv L H V'"
  by (rule vmbx.virtual_alloc_inv [OF assms(1) _ assms(2) [unfolded do_vmailbox_alloc_eq]]) simp

lemma vmailbox_aread_total:
  assumes "vmailbox_inv L H V" "0 \<le> i" "i < int (length (communicators V))"
  shows "\<exists>r V'. do_vmailbox_aread L H M i b z V = Some (r, V') \<and> vmailbox_inv L H V'
    \<and> length (communicators V') = length (communicators V)"
  using vmbx.operate_inv [OF vmbx.setup_inv(2) [OF assms(1), where i = "nat i" and b = b and z = z and d = COMM_AREAD], of "nat i" M 0] assms
  by (auto simp: do_vmailbox_aread_def fetch_def set_buffer_def Let_def nat_less_iff)

lemma vmailbox_awrite_total:
  assumes "vmailbox_inv L H V" "0 \<le> i" "i < int (length (communicators V))" "curr_age (mbufs (chan V)) \<noteq> - 1"
  shows "\<exists>r V'. do_vmailbox_awrite L H M i b z V = Some (r, V') \<and> vmailbox_inv L H V'
    \<and> length (communicators V') = length (communicators V)"
  using vmbx.operate_inv [OF vmbx.setup_inv(1) [OF assms(1), where i = "nat i" and b = b and z = z and d = COMM_AWRITE], of "nat i" M 1] assms
  by (auto simp: do_vmailbox_awrite_def fetch_def set_buffer_def Let_def nat_less_iff)

lemma vmailbox_wait_total:
  assumes "vmailbox_inv L H V" "0 \<le> i" "i < int (length (communicators V))"
    "mailbox_can_wait L H M (cfg_fd (com_config (communicators V ! nat i))) (chan V)"
  shows "\<exists>r V'. do_vmailbox_wait L H M i V = Some (r, V') \<and> vmailbox_inv L H V'
    \<and> length (communicators V') = length (communicators V)"
proof -
  have laws: "klib_laws L" using comms_invD(1) [OF assms(1)] by simp
  obtain r V1 where V1: "communicator_wait L (vmailbox_functions L H M) (nat i) V = Some (r, V1)" "vmailbox_inv L H V1"
      "length (communicators V1) = length (communicators V)"
    using vmbx.wait_inv [OF assms(1), of "nat i" M] assms by (auto simp: nat_less_iff)
  have "vmailbox_inv L H (set_comm (nat i) (\<lambda>comm. comm\<lparr>com_config := (com_config comm)\<lparr>cfg_remote_addr := - 1\<rparr>\<rparr>) V1)"
    by (rule comms_inv_cong [OF V1(2)])
      (use comms_invD(1) [OF V1(2)] in \<open>simp_all add: vmbx.holds_comm_updates [OF laws]\<close>)
  then show ?thesis
    using V1 assms by (auto simp: do_vmailbox_wait_def fetch_def nat_less_iff)
qed

text \<open>One step is one operation on the virtual mailboxes with any arguments.\<close>

inductive vmailbox_step ::
  "'r klib \<Rightarrow> 'h noc_hal \<Rightarrow> 'h mailbox_hal \<Rightarrow> ('r, 'h) vmailboxes \<Rightarrow> ('r, 'h) vmailboxes \<Rightarrow> bool"
  for L H M where
  create: "do_vmailbox_create L H M uninit lcl port V = Some (r, V') \<Longrightarrow> vmailbox_step L H M V V'"
| open_remote: "do_vmailbox_open L H M uninit rmt port V = Some (r, V') \<Longrightarrow> vmailbox_step L H M V V'"
| unlink: "do_vmailbox_unlink L H M i V = Some (r, V') \<Longrightarrow> vmailbox_step L H M V V'"
| close_remote: "do_vmailbox_close L H M i V = Some (r, V') \<Longrightarrow> vmailbox_step L H M V V'"
| aread: "do_vmailbox_aread L H M i b z V = Some (r, V') \<Longrightarrow> vmailbox_step L H M V V'"
| awrite: "curr_age (mbufs (chan V)) \<noteq> - 1 \<Longrightarrow> do_vmailbox_awrite L H M i b z V = Some (r, V') \<Longrightarrow> vmailbox_step L H M V V'"
| wait: "mailbox_can_wait L H M (cfg_fd (com_config (communicators V ! nat i))) (chan V) \<Longrightarrow>
    do_vmailbox_wait L H M i V = Some (r, V') \<Longrightarrow> vmailbox_step L H M V V'"

lemma vmailbox_step_inv:
  assumes "vmailbox_step L H M V V'" "vmailbox_inv L H V"
  shows "vmailbox_inv L H V'"
proof -
  have laws: "klib_laws L" using comms_invD(1) [OF assms(2)] by simp
  from assms(1) show ?thesis
  proof cases
    case (create uninit lcl port r)
    then show ?thesis
      using vmailbox_alloc_inv [OF assms(2), of M uninit lcl "- 1" port 0 r V'] assms(2)
      by (auto simp: do_vmailbox_create_def split: if_splits)
  next
    case (open_remote uninit rmt port r)
    then show ?thesis using vmailbox_alloc_inv [OF assms(2)] by (auto simp: do_vmailbox_open_def)
  next
    case (unlink i r)
    then show ?thesis
      using vmbx.free_inv [OF assms(2), of i M 0] free_index [OF _ laws] by (fastforce simp: do_vmailbox_unlink_def)
  next
    case (close_remote i r)
    then show ?thesis
      using vmbx.free_inv [OF assms(2), of i M 1] free_index [OF _ laws] by (fastforce simp: do_vmailbox_close_def)
  next
    case (aread i b z r)
    moreover have "0 \<le> i" "i < int (length (communicators V))"
      using aread by (auto simp: do_vmailbox_aread_def bind_eq_Some_conv fetch_Some_iff)
    ultimately show ?thesis using vmailbox_aread_total [OF assms(2), of i M b z] by auto
  next
    case (awrite i b z r)
    moreover have "0 \<le> i" "i < int (length (communicators V))"
      using awrite by (auto simp: do_vmailbox_awrite_def bind_eq_Some_conv fetch_Some_iff)
    ultimately show ?thesis using vmailbox_awrite_total [OF assms(2), of i M b z] by auto
  next
    case (wait i r)
    moreover have "0 \<le> i" "i < int (length (communicators V))"
      using wait by (auto simp: do_vmailbox_wait_def bind_eq_Some_conv fetch_Some_iff)
    ultimately show ?thesis using vmailbox_wait_total [OF assms(2), of i M] by auto
  qed
qed

lemma vmailbox_reachable_inv:
  "(vmailbox_step L H M)\<^sup>*\<^sup>* V V' \<Longrightarrow> vmailbox_inv L H V \<Longrightarrow> vmailbox_inv L H V'"
  by (induction rule: rtranclp_induct) (use vmailbox_step_inv in blast)+

end
