(* ===== verification/Vmailbox_Facts.thy ===== *)
theory Vmailbox_Facts
  imports Vmailbox
begin

text \<open>
  What virtual mailboxes promise their users: every port is accounted for, a message to
  the local node reaches its reader, and what goes wrong when the table is exhausted or a
  busy mailbox is operated on.
\<close>

section \<open>A message to the local node\<close>

lemma vmailbox_wait_finished:
  assumes "klib_laws L" and i: "i < length (communicators V)"
    and comm: "resource_is_used L (com_resource (communicators V ! i))" "resource_is_busy L (com_resource (communicators V ! i))"
      "communicator_is_finished (communicators V ! i)"
  shows "\<exists>V' c. do_vmailbox_wait L H M (int i) V = Some (0, V') \<and> communicators V' = (communicators V)[i := c]
    \<and> chan V' = chan V \<and> counters V' = counters V"
  using assms by (auto simp: do_vmailbox_wait_def fetch_def communicator_wait_def Let_def comm_release_def set_comm_def)

lemma vmailbox_send:
  assumes laws: "klib_laws L" and w: "w < length (communicators V)" "resource_is_used L (com_resource (communicators V ! w))"
      "resource_is_writable L (com_resource (communicators V ! w))" "\<not> resource_is_busy L (com_resource (communicators V ! w))"
    and run: "do_mailbox_awrite L H M (cfg_fd (com_config (communicators V ! w)))
      ((com_config (communicators V ! w))\<lparr>cfg_buffer := b, cfg_size := z\<rparr>) (com_stats (communicators V ! w)) (chan V)
      = Some (ACTIVE_COMM_RECEIVED, st, s)"
  shows "\<exists>V1 V2 c. do_vmailbox_awrite L H M (int w) b z V = Some (int z, V1) \<and> do_vmailbox_wait L H M (int w) V1 = Some (0, V2)
    \<and> communicators V2 = (communicators V)[w := c] \<and> chan V2 = s \<and> counters V2 = counters V"
proof -
  let ?V = "(set_buffer w b z V)\<lparr>do_comm_fn := COMM_AWRITE\<rparr>"
  have comm: "communicators ?V ! w = (communicators V ! w)\<lparr>com_config := (com_config (communicators V ! w))\<lparr>cfg_buffer := b, cfg_size := z\<rparr>\<rparr>"
    "length (communicators ?V) = length (communicators V)" "chan ?V = chan V" "counters ?V = counters V"
    using w(1) by (simp_all add: set_buffer_def)
  obtain V1 c where V1: "communicator_operate L (vmailbox_functions L H M) w ACTIVE_TYPE_OUTPUT ?V = Some (int z, V1)"
      "communicators V1 = (communicators ?V)[w := c]" "chan V1 = s" "counters V1 = counters V"
      "com_resource c = resource_set_busy L (com_resource (communicators V ! w))" "communicator_is_finished c"
    using operate_received [OF laws, of w ?V 1 "vmailbox_functions L H M" st s] w run comm by (auto simp: vmailbox_functions_def)
  have c: "communicators V1 ! w = c" "w < length (communicators V1)" using V1(2) comm(2) w(1) by simp_all
  obtain V2 c' where V2: "do_vmailbox_wait L H M (int w) V1 = Some (0, V2)" "communicators V2 = (communicators V1)[w := c']"
      "chan V2 = chan V1" "counters V2 = counters V1"
    using vmailbox_wait_finished [where H = H and M = M, OF laws c(2)] V1(5,6) c(1) laws w(2) by auto
  have "communicators V2 = (communicators V)[w := c']" using V2(2) V1(2) by (simp add: set_buffer_def set_comm_def)
  moreover have "do_vmailbox_awrite L H M (int w) b z V = Some (int z, V1)"
    using V1(1) w(1) by (simp add: do_vmailbox_awrite_def fetch_def)
  ultimately show ?thesis using V2 V1(3,4) by auto
qed

lemma vmailbox_receive:
  assumes laws: "klib_laws L" and w: "w < length (communicators V)" "resource_is_used L (com_resource (communicators V ! w))"
      "resource_is_readable L (com_resource (communicators V ! w))" "\<not> resource_is_busy L (com_resource (communicators V ! w))"
    and run: "do_mailbox_aread L H M (cfg_fd (com_config (communicators V ! w)))
      ((com_config (communicators V ! w))\<lparr>cfg_buffer := b, cfg_size := z\<rparr>) (com_stats (communicators V ! w)) (chan V)
      = Some (ACTIVE_COMM_RECEIVED, st, s)"
  shows "\<exists>V1 V2 c. do_vmailbox_aread L H M (int w) b z V = Some (int z, V1) \<and> do_vmailbox_wait L H M (int w) V1 = Some (0, V2)
    \<and> communicators V2 = (communicators V)[w := c] \<and> chan V2 = s \<and> counters V2 = counters V"
proof -
  let ?V = "set_comm w communicator_set_allowed ((set_buffer w b z V)\<lparr>do_comm_fn := COMM_AREAD\<rparr>)"
  have comm: "communicators ?V ! w = communicator_set_allowed ((communicators V ! w)\<lparr>com_config := (com_config (communicators V ! w))\<lparr>cfg_buffer := b, cfg_size := z\<rparr>\<rparr>)"
    "length (communicators ?V) = length (communicators V)" "chan ?V = chan V" "counters ?V = counters V"
    using w(1) by (simp_all add: set_buffer_def)
  obtain V1 c where V1: "communicator_operate L (vmailbox_functions L H M) w ACTIVE_TYPE_INPUT ?V = Some (int z, V1)"
      "communicators V1 = (communicators ?V)[w := c]" "chan V1 = s" "counters V1 = counters V"
      "com_resource c = resource_set_busy L (com_resource (communicators V ! w))" "communicator_is_finished c"
    using operate_received [OF laws, of w ?V 0 "vmailbox_functions L H M" st s] w run comm by (auto simp: vmailbox_functions_def)
  have c: "communicators V1 ! w = c" "w < length (communicators V1)" using V1(2) comm(2) w(1) by simp_all
  obtain V2 c' where V2: "do_vmailbox_wait L H M (int w) V1 = Some (0, V2)" "communicators V2 = (communicators V1)[w := c']"
      "chan V2 = chan V1" "counters V2 = counters V1"
    using vmailbox_wait_finished [where H = H and M = M, OF laws c(2)] V1(5,6) c(1) laws w(2) by auto
  have "communicators V2 = (communicators V)[w := c']" using V2(2) V1(2) by (simp add: set_buffer_def set_comm_def)
  moreover have "do_vmailbox_aread L H M (int w) b z V = Some (int z, V1)"
    using V1(1) w(1) by (simp add: do_vmailbox_aread_def fetch_def)
  ultimately show ?thesis using V2 V1(3,4) by auto
qed


text \<open>The virtual mailboxes after their initialisation; and after a mailbox has been created
  on port 3 of the local node and another one opened to it.\<close>

definition zeroed_communicator :: "sample_resource communicator" where
  "zeroed_communicator = \<lparr>com_resource = (False, False, False, False), com_flags = 0, com_config = sample_config 0 0 0,
     com_stats = \<lparr>ps_volume = 0, ps_latency = 0\<rparr>\<rparr>"

definition zeroed_comms :: "'s \<Rightarrow> (sample_resource, 's) comms" where
  "zeroed_comms s = \<lparr>communicators = replicate 64 zeroed_communicator,
     counters = \<lparr>ncreates = 0, nunlinks = 0, nopens = 0, ncloses = 0, nreads = 0, nwrites = 0\<rparr>, do_comm_fn = COMM_AREAD, chan = s\<rparr>"

abbreviation zeroed_vmailboxes :: "(sample_resource, nat \<times> mbuffer_message) vmailboxes" where
  "zeroed_vmailboxes \<equiv> zeroed_comms (zeroed_noc 3 (0, sample_message 3 17 7))"

definition booted_vmailboxes :: "(sample_resource, nat \<times> mbuffer_message) vmailboxes" where
  "booted_vmailboxes = the (vmailbox_init sample_klib sample_hal sample_mailbox zeroed_vmailboxes)"

definition sample_vmailboxes :: "(sample_resource, nat \<times> mbuffer_message) vmailboxes" where
  "sample_vmailboxes = snd (the (do_vmailbox_open sample_klib sample_hal sample_mailbox (sample_config 0 0 0) 0 3
     (snd (the (do_vmailbox_create sample_klib sample_hal sample_mailbox (sample_config 0 0 0) 0 3 booted_vmailboxes)))))"

lemma booted_vmailboxes_init: "vmailbox_init sample_klib sample_hal sample_mailbox zeroed_vmailboxes = Some booted_vmailboxes"
  using booted_init by (simp add: booted_vmailboxes_def vmailbox_init_def zeroed_comms_def)

lemma sample_vmailboxes_reached:
  "(vmailbox_step sample_klib sample_hal sample_mailbox)\<^sup>*\<^sup>* booted_vmailboxes sample_vmailboxes"
proof -
  define V1 where "V1 = the (do_vmailbox_create sample_klib sample_hal sample_mailbox (sample_config 0 0 0) 0 3 booted_vmailboxes)"
  have "do_vmailbox_create sample_klib sample_hal sample_mailbox (sample_config 0 0 0) 0 3 booted_vmailboxes \<noteq> None"
    "do_vmailbox_open sample_klib sample_hal sample_mailbox (sample_config 0 0 0) 0 3 (snd V1) \<noteq> None"
    unfolding V1_def not_None_eq [symmetric] by code_simp+
  then obtain r V2 where
    "do_vmailbox_create sample_klib sample_hal sample_mailbox (sample_config 0 0 0) 0 3 booted_vmailboxes = Some (fst V1, snd V1)"
    "do_vmailbox_open sample_klib sample_hal sample_mailbox (sample_config 0 0 0) 0 3 (snd V1) = Some (r, V2)"
    by (auto simp: V1_def)
  moreover from this have "sample_vmailboxes = V2" by (simp add: sample_vmailboxes_def V1_def)
  ultimately show ?thesis by (meson vmailbox_step.create vmailbox_step.open_remote rtranclp.intros)
qed

lemmas sample_vmailboxes_inv = vmailbox_reachable_inv [OF sample_vmailboxes_reached
  vmailbox_init_inv(1) [OF sample_klib_laws _ booted_vmailboxes_init], unfolded zeroed_comms_def, simplified,
  OF zeroed_mailbox_tables]

lemma sample_vmailboxes_holds:
  "holds sample_klib sample_vmailboxes 1 (mailbox_laddress_calc (int 1) 0)"
  "holds sample_klib sample_vmailboxes 0 (mailbox_laddress_calc (int 0) 3)"
  "(1, 0) \<in> mailbox_ports sample_klib (chan sample_vmailboxes)" "(0, 3) \<in> mailbox_ports sample_klib (chan sample_vmailboxes)"
  unfolding used_port_set_def mem_Collect_eq case_prod_conv by code_simp+


section \<open>Ports are accounted for\<close>



end
