(* ===== verification/Portal.thy ===== *)
theory Portal
  imports Mailbox
begin

text \<open>
  The portal facility: \<^verbatim>\<open>src/kernel/noc/portal.c\<close> and the constants of
  \<^verbatim>\<open>include/nanvix/kernel/portal.h\<close>.  It differs from the mailboxes in that the
  receiver must allow the sender, that the header carries the size of the message, and in
  the device.  The size of a message is at most \<open>KPORTAL_MAX_SIZE\<close>, so it fits the
  header's integer.
\<close>

section \<open>Structures\<close>

record 'h portal_hal =
  portal_create :: "int \<Rightarrow> 'h \<Rightarrow> int \<times> 'h"
  portal_allow  :: "int \<Rightarrow> int \<Rightarrow> 'h \<Rightarrow> int \<times> 'h"
  portal_open   :: "int \<Rightarrow> int \<Rightarrow> 'h \<Rightarrow> int \<times> 'h"
  portal_aread  :: "int \<Rightarrow> nat \<Rightarrow> nat \<Rightarrow> 'h \<Rightarrow> int \<times> 'h"
  portal_awrite :: "int \<Rightarrow> mbuffer_message \<Rightarrow> nat \<Rightarrow> 'h \<Rightarrow> int \<times> 'h"
  portal_wait   :: "int \<Rightarrow> 'h \<Rightarrow> int \<times> (nat \<times> mbuffer_message) option \<times> 'h"
  HW_PORTAL_MAX :: nat
  KPORTAL_MESSAGE_HEADER_SIZE :: nat
  KPORTAL_MESSAGE_DATA_SIZE   :: nat

definition KPORTAL_PORT_NR :: int where "KPORTAL_PORT_NR = 16"
definition PORTAL_ANY_PORT :: int where "PORTAL_ANY_PORT = KPORTAL_PORT_NR"
definition PORTAL_ANY_SOURCE :: "'h noc_hal \<Rightarrow> int" where "PORTAL_ANY_SOURCE H = PROCESSOR_NOC_NODES_NUM H"
definition KPORTAL_MESSAGE_BUFFERS_MAX :: nat where "KPORTAL_MESSAGE_BUFFERS_MAX = 32"
definition KPORTAL_AUX_BUFFERS_MAX :: nat where "KPORTAL_AUX_BUFFERS_MAX = 16"

section \<open>Identifiers and headers\<close>

definition portal_laddress_calc :: "int \<Rightarrow> int \<Rightarrow> int" where
  "portal_laddress_calc fd port = ACTIVE_LADDRESS_COMPOSE fd port KPORTAL_PORT_NR"

definition portal_get_actid :: "int \<Rightarrow> int" where
  "portal_get_actid fd = (if fd < 0 then fd else fd div (KPORTAL_PORT_NR + 1))"

definition portal_get_portid :: "int \<Rightarrow> int" where
  "portal_get_portid fd = (if fd < 0 then fd else fd mod (KPORTAL_PORT_NR + 1))"

definition portal_source_check :: "'h noc_hal \<Rightarrow> 'r mbuffer \<Rightarrow> int \<Rightarrow> bool" where
  "portal_source_check H buf src_mask =
    (if src_mask = - 1 then True
     else
       let mask_node = portal_get_actid src_mask;
           mask_port = portal_get_portid src_mask;
           msg_source = hdr_src (header (mb_message buf))
       in if mask_node \<noteq> PORTAL_ANY_SOURCE H \<and> mask_node \<noteq> portal_get_actid msg_source then False
          else if mask_port \<noteq> PORTAL_ANY_PORT \<and> mask_port \<noteq> portal_get_portid msg_source then False
          else True)"

definition wrapper_portal_allow :: "'h portal_hal \<Rightarrow> 'r active \<Rightarrow> int \<Rightarrow> 'h \<Rightarrow> int \<times> 'h" where
  "wrapper_portal_allow M act rmt h =
    (if active_is_allowed act then if act_remote act \<noteq> rmt then (- EBUSY, h) else (0, h)
     else portal_allow M (hwfd act) rmt h)"

definition portal_header_config :: "'r mbuffer \<Rightarrow> active_config \<Rightarrow> 'r mbuffer" where
  "portal_header_config buf config =
    buf\<lparr>mb_message := (mb_message buf)\<lparr>header := (header (mb_message buf))
      \<lparr>hdr_src := cfg_local_addr config, hdr_dest := cfg_remote_addr config,
       hdr_size := int (cfg_size config)\<rparr>\<rparr>\<rparr>"

definition portal_header_check :: "'h noc_hal \<Rightarrow> 'r mbuffer \<Rightarrow> active_config \<Rightarrow> bool" where
  "portal_header_check H buf config \<longleftrightarrow>
    hdr_dest (header (mb_message buf)) = cfg_local_addr config
    \<and> portal_source_check H buf (cfg_remote_addr config)"

section \<open>The tables\<close>

definition portal_functions :: "'h noc_hal \<Rightarrow> 'h portal_hal \<Rightarrow> ('r, 'h) active_functions" where
  "portal_functions H M =
    \<lparr>do_create = portal_create M, do_open = portal_open M, do_allow = wrapper_portal_allow M,
     do_aread = portal_aread M, do_awrite = portal_awrite M, do_wait = portal_wait M,
     do_header_config = portal_header_config, do_header_check = portal_header_check H,
     get_actid = portal_get_actid, get_portid = portal_get_portid\<rparr>"

definition portal_pbufferpool :: "'h noc_hal \<Rightarrow> 'r mbuffer_pool" where
  "portal_pbufferpool H =
    \<lparr>mbuffers = 0, nmbuffers = KPORTAL_MESSAGE_BUFFERS_MAX, source_check = portal_source_check H\<rparr>"

definition portal_pbufferpool_aux :: "'h noc_hal \<Rightarrow> 'r mbuffer_pool" where
  "portal_pbufferpool_aux H =
    \<lparr>mbuffers = KPORTAL_MESSAGE_BUFFERS_MAX - KPORTAL_AUX_BUFFERS_MAX,
     nmbuffers = KPORTAL_AUX_BUFFERS_MAX, source_check = portal_source_check H\<rparr>"

text \<open>One portal after \<open>do_portal_table_init\<close> (lines 130--164): \<open>portal_port_init\<close> is the
  inner loop's body.\<close>

definition portal_port_init :: "'r klib \<Rightarrow> 'r port \<Rightarrow> 'r port" where
  "portal_port_init L port = port\<lparr>port_resource := RESOURCE_INITIALIZER L, port_mbufferid := - 1,
     port_mbufferpool := None\<rparr>"

definition portal_active_init ::
  "'r klib \<Rightarrow> 'h noc_hal \<Rightarrow> 'h portal_hal \<Rightarrow> 'r active \<Rightarrow> 'r active" where
  "portal_active_init L H M a =
    a\<lparr>hwfd := - 1, act_local := - 1, act_remote := - 1, refcount := 0,
      act_size := KPORTAL_MESSAGE_HEADER_SIZE M + KPORTAL_MESSAGE_DATA_SIZE M,
      portpool := \<lparr>ports = map (portal_port_init L) (ports (portpool a)),
                   nports = KPORTAL_PORT_NR, used_ports = 0\<rparr>,
      requests := \<lparr>head = 0, tail = 0, max_capacity = KPORTAL_PORT_NR, nelements = 0,
                   fifo = replicate (nat KPORTAL_PORT_NR) (- 1)\<rparr>,
      mbufferpool := portal_pbufferpool H, mbufferpool_aux := portal_pbufferpool_aux H\<rparr>"

definition do_portal_table_init ::
  "'r klib \<Rightarrow> 'h noc_hal \<Rightarrow> 'h portal_hal \<Rightarrow> ('r, 'h) noc \<Rightarrow> ('r, 'h) noc" where
  "do_portal_table_init L H M s =
    s\<lparr>mbufs := \<lparr>mb_table = map (mbuffer_reset L) (mb_table (mbufs s)), curr_age = 0\<rparr>,
      actives := map (portal_active_init L H M) (actives s)\<rparr>"

definition do_portal_init ::
  "'r klib \<Rightarrow> 'h noc_hal \<Rightarrow> 'h portal_hal \<Rightarrow> ('r, 'h) noc \<Rightarrow> ('r, 'h) noc option" where
  "do_portal_init L H M s =
    do {
      let lcl = processor_node_get_num H;
      let s = do_portal_table_init L H M s;
      let (r, s) = active_create L (portal_functions H M) lcl s;
      KASSERT (r \<ge> 0);
      open_all (active_open L H (portal_functions H M) lcl) [0..PROCESSOR_NOC_NODES_NUM H - 1] s
    }"

section \<open>Operations\<close>

definition do_portal_alloc ::
  "'r klib \<Rightarrow> int \<Rightarrow> int \<Rightarrow> int \<Rightarrow> int \<Rightarrow> ('r, 'h) noc \<Rightarrow> int \<times> ('r, 'h) noc" where
  "do_portal_alloc L lcl rmt port ctype s = active_alloc L lcl rmt port ctype s"

definition do_portal_release ::
  "'r klib \<Rightarrow> 'h noc_hal \<Rightarrow> 'h portal_hal \<Rightarrow> int \<Rightarrow> ('r, 'h) noc \<Rightarrow> (int \<times> ('r, 'h) noc) option" where
  "do_portal_release L H M portalid s = active_release L (portal_functions H M) portalid s"

definition do_portal_aread ::
  "'r klib \<Rightarrow> 'h noc_hal \<Rightarrow> 'h portal_hal \<Rightarrow> int \<Rightarrow> active_config \<Rightarrow> pstats \<Rightarrow> ('r, 'h) noc
    \<Rightarrow> ('r, 'h) noc_result" where
  "do_portal_aread L H M portalid config stats s = active_aread L H (portal_functions H M) portalid config stats s"

definition do_portal_awrite ::
  "'r klib \<Rightarrow> 'h noc_hal \<Rightarrow> 'h portal_hal \<Rightarrow> int \<Rightarrow> active_config \<Rightarrow> pstats \<Rightarrow> ('r, 'h) noc
    \<Rightarrow> ('r, 'h) noc_result" where
  "do_portal_awrite L H M portalid config stats s = active_awrite L H (portal_functions H M) portalid config stats s"

definition do_portal_wait ::
  "'r klib \<Rightarrow> 'h noc_hal \<Rightarrow> 'h portal_hal \<Rightarrow> int \<Rightarrow> active_config \<Rightarrow> pstats \<Rightarrow> ('r, 'h) noc
    \<Rightarrow> ('r, 'h) noc_result" where
  "do_portal_wait L H M portalid config stats s = active_wait L H (portal_functions H M) portalid config stats s"

section \<open>The portal facility fulfils the contract\<close>

interpretation prt: facility "portal_functions H M" KPORTAL_PORT_NR "portal_pbufferpool H" "portal_pbufferpool_aux H"
  for H M
proof unfold_locales
  show "0 < KPORTAL_PORT_NR" by (simp add: KPORTAL_PORT_NR_def)
  show "sub_pool (portal_pbufferpool_aux H) (portal_pbufferpool H)"
    by (simp add: sub_pool_def portal_pbufferpool_def portal_pbufferpool_aux_def
        KPORTAL_MESSAGE_BUFFERS_MAX_def KPORTAL_AUX_BUFFERS_MAX_def)
qed (simp_all add: portal_functions_def portal_get_actid_def portal_get_portid_def compose_div_mod not_less
    portal_header_config_def portal_header_check_def portal_pbufferpool_def portal_source_check_def fun_eq_iff)

section \<open>Initialisation\<close>

text \<open>The tables as they are declared: their lengths, and zeroed flags as in every object
  with static storage.\<close>

definition portal_tables :: "'h portal_hal \<Rightarrow> ('r, 'h) noc \<Rightarrow> bool" where
  "portal_tables M s \<longleftrightarrow> length (mb_table (mbufs s)) = KPORTAL_MESSAGE_BUFFERS_MAX
    \<and> length (actives s) = HW_PORTAL_MAX M
    \<and> (\<forall>a \<in> set (actives s). length (ports (portpool a)) = nat KPORTAL_PORT_NR
        \<and> (\<forall>port \<in> set (ports (portpool a)). port_flags port = 0))"

abbreviation portal_inv :: "'r klib \<Rightarrow> 'h noc_hal \<Rightarrow> ('r, 'h) noc \<Rightarrow> bool" where
  "portal_inv L H \<equiv> noc_inv L KPORTAL_PORT_NR (portal_pbufferpool H) (portal_pbufferpool_aux H)"

abbreviation portal_step :: "'r klib \<Rightarrow> 'h noc_hal \<Rightarrow> 'h portal_hal \<Rightarrow> ('r, 'h) noc \<Rightarrow> ('r, 'h) noc \<Rightarrow> bool" where
  "portal_step L H M \<equiv> channel_step L H (portal_functions H M) KPORTAL_PORT_NR (portal_pbufferpool H)"

lemma portal_table_init_inv:
  assumes "klib_laws L" "portal_tables M s"
  shows "portal_inv L H (do_portal_table_init L H M s)"
proof (rule fresh_noc_inv [OF assms(1), where k = 4])
  show "KPORTAL_PORT_NR = 2 ^ 4" by (simp add: KPORTAL_PORT_NR_def)
  show "fresh_channel L KPORTAL_PORT_NR (portal_pbufferpool H) (portal_pbufferpool_aux H) a"
    if "a \<in> set (actives (do_portal_table_init L H M s))" for a
    using that assms(2)
    by (auto simp: do_portal_table_init_def portal_active_init_def portal_port_init_def fresh_channel_def
        fresh_port_def portal_tables_def)
qed (use assms in \<open>auto simp: do_portal_table_init_def portal_tables_def portal_pbufferpool_def mbuffer_reset_def\<close>)

lemma portal_init_inv:
  assumes "klib_laws L" "portal_tables M s" "do_portal_init L H M s = Some s'"
  shows "portal_inv L H s'"
proof -
  let ?s = "do_portal_table_init L H M s" and ?lcl = "processor_node_get_num H"
  obtain r s1 where c: "active_create L (portal_functions H M) ?lcl ?s = (r, s1)" by fastforce
  have "portal_inv L H s1"
    using prt.create_inv [where M = M and lcl = ?lcl, OF portal_table_init_inv [OF assms(1,2), of H]] c by simp
  moreover have "open_all (active_open L H (portal_functions H M) ?lcl) [0..PROCESSOR_NOC_NODES_NUM H - 1] s1 = Some s'"
    using assms(3) c by (auto simp: do_portal_init_def KASSERT_def split: if_splits)
  ultimately show ?thesis using prt.open_all_inv by blast
qed

text \<open>An identifier of a port in use is a valid argument and is taken apart into its channel
  and its port.\<close>

abbreviation portal_ports :: "'r klib \<Rightarrow> ('r, 'h) noc \<Rightarrow> (nat \<times> int) set" where
  "portal_ports L \<equiv> used_port_set L KPORTAL_PORT_NR"

lemma portal_compose:
  assumes "klib_laws L" "portal_inv L H s" "i < length (actives s)" "0 \<le> p" "p < KPORTAL_PORT_NR"
  defines "fd \<equiv> portal_laddress_calc (int i) p"
  shows "get_actid (portal_functions H M) fd = int i" "get_portid (portal_functions H M) fd = p"
    "active_valid_call L (portal_functions H M) fd s"
  using assms prt.actid_compose [of "int i" p H M] prt.portid_compose [of "int i" p H M]
    prt.valid_callI [OF assms(1-5), of M]
  by (simp_all add: portal_laddress_calc_def)

lemma portal_fd:
  assumes "klib_laws L" "portal_inv L H s" "(i, p) \<in> portal_ports L s"
  defines "fd \<equiv> portal_laddress_calc (int i) p"
  shows "get_actid (portal_functions H M) fd = int i" "i < length (actives s)"
    "get_portid (portal_functions H M) fd = p" "0 \<le> p" "p < KPORTAL_PORT_NR"
    "active_valid_call L (portal_functions H M) fd s"
  using assms portal_compose [OF assms(1,2), of i p] by (auto simp: used_port_set_def)

lemma portal_fn_simps [simp]:
  "get_actid (portal_functions H M) = portal_get_actid" "get_portid (portal_functions H M) = portal_get_portid"
  "do_awrite (portal_functions H M) = portal_awrite M" "do_wait (portal_functions H M) = portal_wait M"
  "do_header_check (portal_functions H M) = portal_header_check H"
  "source_check (portal_pbufferpool H) = portal_source_check H"
  "do_allow (portal_functions H M) = wrapper_portal_allow M"
  by (simp_all add: portal_functions_def portal_pbufferpool_def)

section \<open>Properties\<close>

definition sample_portal :: "(nat \<times> mbuffer_message) portal_hal" where
  "sample_portal =
    \<lparr>portal_create = \<lambda>lcl h. (0, h), portal_allow = \<lambda>fd rmt h. (if rmt = 1 then 0 else - EINVAL, h),
     portal_open = \<lambda>lcl rmt h. (1, h), portal_aread = \<lambda>fd k sz (_, msg). (0, (k, msg)),
     portal_awrite = \<lambda>fd msg sz (k, _). (0, (k, msg)),
     portal_wait = \<lambda>fd (k, msg). (0, if fd = 0 then Some (k, msg) else None, (k, msg)),
     HW_PORTAL_MAX = 3, KPORTAL_MESSAGE_HEADER_SIZE = 16, KPORTAL_MESSAGE_DATA_SIZE = 2\<rparr>"

definition booted_portals :: "(sample_resource, nat \<times> mbuffer_message) noc" where
  "booted_portals = the (do_portal_init sample_klib sample_hal sample_portal (zeroed_noc 3 (0, sample_message 3 17 7)))"

lemma zeroed_portal_tables: "portal_tables sample_portal (zeroed_noc 3 h)"
  by (simp add: portal_tables_def zeroed_noc_def zeroed_channel_def sample_portal_def
      KPORTAL_MESSAGE_BUFFERS_MAX_def KPORTAL_PORT_NR_def)

lemma booted_portals_init:
  "do_portal_init sample_klib sample_hal sample_portal (zeroed_noc 3 (0, sample_message 3 17 7)) = Some booted_portals"
proof -
  have "do_portal_init sample_klib sample_hal sample_portal (zeroed_noc 3 (0, sample_message 3 17 7)) \<noteq> None"
    unfolding not_None_eq [symmetric] by code_simp
  then show ?thesis by (auto simp: booted_portals_def)
qed

lemmas booted_portals_inv = portal_init_inv [OF sample_klib_laws zeroed_portal_tables booted_portals_init]





end
