(* ===== verification/Vportal.thy ===== *)
theory Vportal
  imports Portal Vmailbox_Facts
begin

text \<open>
  Virtual portals: \<^verbatim>\<open>src/kernel/noc/vportal.c\<close>.  They differ from virtual mailboxes
  in that a portal must allow a sender before each read.  As for the mailboxes,
  \<open>uninit\<close> is what the stack held in the fields of the configuration that
  \<open>do_vportal_alloc\<close> leaves uninitialised.
\<close>

section \<open>Operations\<close>

type_synonym ('r, 'h) vportals = "('r, ('r, 'h) noc) comms"

definition KPORTAL_MAX :: nat where "KPORTAL_MAX = 64"

definition VPORTAL_GET_LADDRESS_PORT :: "int \<Rightarrow> int" where
  "VPORTAL_GET_LADDRESS_PORT portalid = portalid mod (KPORTAL_PORT_NR + 1)"

definition vportal_functions :: "'r klib \<Rightarrow> 'h noc_hal \<Rightarrow> 'h portal_hal \<Rightarrow> ('r, 'h) noc communicator_functions" where
  "vportal_functions L H M =
    \<lparr>fn_release = do_portal_release L H M, fn_aread = do_portal_aread L H M, fn_awrite = do_portal_awrite L H M,
     fn_wait = do_portal_wait L H M, fn_laddress_calc = portal_laddress_calc\<rparr>"

definition do_vportal_init :: "'r klib \<Rightarrow> ('r, 'h) vportals \<Rightarrow> ('r, 'h) vportals" where
  "do_vportal_init L V =
    V\<lparr>counters := \<lparr>ncreates = 0, nunlinks = 0, nopens = 0, ncloses = 0, nreads = 0, nwrites = 0\<rparr>,
      do_comm_fn := COMM_AREAD,
      communicators := map (\<lambda>comm. comm\<lparr>com_resource := RESOURCE_INITIALIZER L,
        com_config := ACTIVE_CONFIG_INITIALIZER, com_stats := PSTATS_INITIALIZER\<rparr>) (communicators V)\<rparr>"

definition do_vportal_alloc ::
  "'r klib \<Rightarrow> 'h noc_hal \<Rightarrow> 'h portal_hal \<Rightarrow> active_config \<Rightarrow> int \<Rightarrow> int \<Rightarrow> int \<Rightarrow> int \<Rightarrow> ('r, 'h) vportals
    \<Rightarrow> (int \<times> ('r, 'h) vportals) option" where
  "do_vportal_alloc L H M uninit lcl rmt port ctype V =
    (let (fd, s) = do_portal_alloc L lcl rmt port ctype (chan V); V = V\<lparr>chan := s\<rparr>
     in if fd < 0 then Some (fd, V)
        else
          let config = uninit\<lparr>cfg_fd := fd,
                cfg_local_addr := ACTIVE_LADDRESS_COMPOSE lcl (VPORTAL_GET_LADDRESS_PORT fd) KPORTAL_PORT_NR,
                cfg_remote_addr := (if ctype = ACTIVE_TYPE_OUTPUT
                  then ACTIVE_LADDRESS_COMPOSE rmt port KPORTAL_PORT_NR else - 1)\<rparr>;
              (portalid, V) = communicator_alloc L config ctype V
          in if portalid < 0
             then do {
               (r, s) \<leftarrow> do_portal_release L H M fd (chan V);
               KASSERT (\<not> r < 0);
               Some (portalid, V\<lparr>chan := s\<rparr>)
             }
             else
               let c = counters V
               in Some (portalid, V\<lparr>counters := if ctype = ACTIVE_TYPE_INPUT then c\<lparr>ncreates := ncreates c + 1\<rparr>
                                            else c\<lparr>nopens := nopens c + 1\<rparr>\<rparr>))"

definition do_vportal_create ::
  "'r klib \<Rightarrow> 'h noc_hal \<Rightarrow> 'h portal_hal \<Rightarrow> active_config \<Rightarrow> int \<Rightarrow> int \<Rightarrow> ('r, 'h) vportals
    \<Rightarrow> (int \<times> ('r, 'h) vportals) option" where
  "do_vportal_create L H M uninit lcl port V =
    (if \<not> node_is_local H lcl then Some (- EBADF, V)
     else do_vportal_alloc L H M uninit lcl (- 1) port ACTIVE_TYPE_INPUT V)"

definition do_vportal_open ::
  "'r klib \<Rightarrow> 'h noc_hal \<Rightarrow> 'h portal_hal \<Rightarrow> active_config \<Rightarrow> int \<Rightarrow> int \<Rightarrow> int \<Rightarrow> ('r, 'h) vportals
    \<Rightarrow> (int \<times> ('r, 'h) vportals) option" where
  "do_vportal_open L H M uninit lcl rmt remote_port V =
    (if \<not> node_is_local H lcl then Some (- EBADF, V)
     else do_vportal_alloc L H M uninit lcl rmt remote_port ACTIVE_TYPE_OUTPUT V)"

definition do_vportal_unlink ::
  "'r klib \<Rightarrow> 'h noc_hal \<Rightarrow> 'h portal_hal \<Rightarrow> int \<Rightarrow> ('r, 'h) vportals \<Rightarrow> (int \<times> ('r, 'h) vportals) option" where
  "do_vportal_unlink L H M portalid V = communicator_free L (vportal_functions L H M) portalid ACTIVE_TYPE_INPUT V"

definition do_vportal_close ::
  "'r klib \<Rightarrow> 'h noc_hal \<Rightarrow> 'h portal_hal \<Rightarrow> int \<Rightarrow> ('r, 'h) vportals \<Rightarrow> (int \<times> ('r, 'h) vportals) option" where
  "do_vportal_close L H M portalid V = communicator_free L (vportal_functions L H M) portalid ACTIVE_TYPE_OUTPUT V"

definition do_vportal_allow ::
  "'r klib \<Rightarrow> int \<Rightarrow> int \<Rightarrow> int \<Rightarrow> ('r, 'h) vportals \<Rightarrow> (int \<times> ('r, 'h) vportals) option" where
  "do_vportal_allow L portalid rmt remote_port V =
    do {
      comm \<leftarrow> fetch (communicators V) portalid;
      if \<not> resource_is_used L (com_resource comm) then Some (- EBADF, V)
      else if \<not> resource_is_readable L (com_resource comm) then Some (- EBADF, V)
      else if communicator_is_allowed comm then Some (- EBUSY, V)
      else
        let V = set_comm (nat portalid) communicator_set_allowed V;
            V = set_comm (nat portalid) (\<lambda>comm. comm\<lparr>com_config := (com_config comm)
              \<lparr>cfg_remote_addr := ACTIVE_LADDRESS_COMPOSE rmt remote_port KPORTAL_PORT_NR\<rparr>\<rparr>) V
        in Some (0, V)
    }"

definition do_vportal_aread ::
  "'r klib \<Rightarrow> 'h noc_hal \<Rightarrow> 'h portal_hal \<Rightarrow> int \<Rightarrow> nat \<Rightarrow> nat \<Rightarrow> ('r, 'h) vportals
    \<Rightarrow> (int \<times> ('r, 'h) vportals) option" where
  "do_vportal_aread L H M portalid buffer sz V =
    do {
      _ \<leftarrow> fetch (communicators V) portalid;
      let V = (set_buffer (nat portalid) buffer sz V)\<lparr>do_comm_fn := COMM_AREAD\<rparr>;
      communicator_operate L (vportal_functions L H M) (nat portalid) ACTIVE_TYPE_INPUT V
    }"

definition do_vportal_awrite ::
  "'r klib \<Rightarrow> 'h noc_hal \<Rightarrow> 'h portal_hal \<Rightarrow> int \<Rightarrow> nat \<Rightarrow> nat \<Rightarrow> ('r, 'h) vportals
    \<Rightarrow> (int \<times> ('r, 'h) vportals) option" where
  "do_vportal_awrite L H M portalid buffer sz V =
    do {
      _ \<leftarrow> fetch (communicators V) portalid;
      let V = (set_buffer (nat portalid) buffer sz V)\<lparr>do_comm_fn := COMM_AWRITE\<rparr>;
      communicator_operate L (vportal_functions L H M) (nat portalid) ACTIVE_TYPE_OUTPUT V
    }"

definition do_vportal_wait ::
  "'r klib \<Rightarrow> 'h noc_hal \<Rightarrow> 'h portal_hal \<Rightarrow> int \<Rightarrow> ('r, 'h) vportals \<Rightarrow> (int \<times> ('r, 'h) vportals) option" where
  "do_vportal_wait L H M portalid V =
    do {
      _ \<leftarrow> fetch (communicators V) portalid;
      communicator_wait L (vportal_functions L H M) (nat portalid) V
    }"

definition do_vportal_ioctl ::
  "'r klib \<Rightarrow> 'h noc_hal \<Rightarrow> 'h portal_hal \<Rightarrow> target \<Rightarrow> ('w::len) layout \<Rightarrow> 'w word \<Rightarrow> int \<Rightarrow> int \<Rightarrow> 'w comm_args
    \<Rightarrow> ('r, 'h) vportals \<Rightarrow> (int \<times> ('w word \<times> nat) option \<times> ('r, 'h) vportals) option" where
  "do_vportal_ioctl L H M tgt lay size_t portalid request args V =
    do {
      _ \<leftarrow> fetch (communicators V) portalid;
      Some (communicator_ioctl L (vportal_functions L H M) tgt lay size_t (nat portalid) request args V)
    }"

definition do_vportal_get_port :: "'r klib \<Rightarrow> int \<Rightarrow> ('r, 'h) vportals \<Rightarrow> int" where
  "do_vportal_get_port L portalid V =
    (if \<not> WITHIN L portalid 0 (int KPORTAL_MAX) then - EINVAL
     else if \<not> resource_is_used L (com_resource (communicators V ! nat portalid)) then - EBADF
     else VPORTAL_GET_LADDRESS_PORT (cfg_fd (com_config (communicators V ! nat portalid))))"

definition vportal_init ::
  "'r klib \<Rightarrow> 'h noc_hal \<Rightarrow> 'h portal_hal \<Rightarrow> ('r, 'h) vportals \<Rightarrow> ('r, 'h) vportals option" where
  "vportal_init L H M V = do { s \<leftarrow> do_portal_init L H M (chan V); Some (do_vportal_init L (V\<lparr>chan := s\<rparr>)) }"

section \<open>Physical portals provide ports\<close>

abbreviation vportal_fds :: "'r klib \<Rightarrow> ('r, 'h) noc \<Rightarrow> int set" where
  "vportal_fds L \<equiv> chan_fds L KPORTAL_PORT_NR"

definition portal_can_wait :: "'r klib \<Rightarrow> 'h noc_hal \<Rightarrow> 'h portal_hal \<Rightarrow> int \<Rightarrow> ('r, 'h) noc \<Rightarrow> bool" where
  "portal_can_wait L H M fd s \<longleftrightarrow> curr_age (mbufs s) \<noteq> - 1
    \<and> device_delivers L (portal_functions H M) KPORTAL_PORT_NR (portal_pbufferpool H) (snd (clock_read H (hw s)))
        (actives s ! nat (portal_get_actid fd)) (portal_get_portid fd)"

interpretation vprt: port_provider L "vportal_functions L H M" "do_portal_alloc L"
  "\<lambda>s. klib_laws L \<and> portal_inv L H s" "vportal_fds L" "\<lambda>s. curr_age (mbufs s) \<noteq> - 1" "portal_can_wait L H M"
  for L H M
proof (unfold_locales, goal_cases)
  case (2 s lcl rmt port ctype fd s')
  then show ?case using prt.chan_alloc [of L H s lcl rmt port ctype fd s'] by (simp add: do_portal_alloc_def)
next
  case (3 s fd)
  then show ?case using prt.chan_release [of L H s fd M] by (simp add: vportal_functions_def do_portal_release_def)
next
  case (4 s fd c st)
  then show ?case using prt.chan_aread [of L H s fd H M c st] by (simp add: vportal_functions_def do_portal_aread_def)
next
  case (5 s fd c st)
  then show ?case using prt.chan_awrite [of L H s fd H M c st] by (simp add: vportal_functions_def do_portal_awrite_def)
next
  case (6 s fd c st)
  then show ?case using prt.chan_wait [of L H s fd M H c st]
    by (simp add: vportal_functions_def do_portal_wait_def portal_can_wait_def)
qed simp

abbreviation vportal_inv :: "'r klib \<Rightarrow> 'h noc_hal \<Rightarrow> ('r, 'h) vportals \<Rightarrow> bool" where
  "vportal_inv L H \<equiv> comms_inv L (\<lambda>s. klib_laws L \<and> portal_inv L H s) (vportal_fds L)"

definition vportal_config :: "active_config \<Rightarrow> int \<Rightarrow> int \<Rightarrow> int \<Rightarrow> int \<Rightarrow> int \<Rightarrow> active_config" where
  "vportal_config uninit lcl rmt port ctype fd = uninit\<lparr>cfg_fd := fd,
     cfg_local_addr := ACTIVE_LADDRESS_COMPOSE lcl (VPORTAL_GET_LADDRESS_PORT fd) KPORTAL_PORT_NR,
     cfg_remote_addr := (if ctype = ACTIVE_TYPE_OUTPUT then ACTIVE_LADDRESS_COMPOSE rmt port KPORTAL_PORT_NR else - 1)\<rparr>"

lemma do_vportal_alloc_eq:
  "do_vportal_alloc L H M uninit lcl rmt port ctype V =
    virtual_alloc L (fn_release (vportal_functions L H M)) (vportal_config uninit lcl rmt port ctype) ctype
      (do_portal_alloc L lcl rmt port ctype (chan V)) V"
  unfolding do_vportal_alloc_def virtual_alloc_def vportal_functions_def vportal_config_def Let_def
    communicator_functions.simps by (rule refl)

lemma cfg_fd_vportal_config [simp]: "cfg_fd (vportal_config uninit lcl rmt port ctype fd) = fd"
  by (simp add: vportal_config_def)

lemma vportal_init_inv:
  assumes laws: "klib_laws L" and tab: "portal_tables M (chan V)" and init: "vportal_init L H M V = Some V0"
  shows "vportal_inv L H V0"
proof -
  obtain s where s: "do_portal_init L H M (chan V) = Some s" and V0: "V0 = do_vportal_init L (V\<lparr>chan := s\<rparr>)"
    using init by (auto simp: vportal_init_def bind_eq_Some_conv)
  let ?t = "do_portal_table_init L H M (chan V)"
  have inv: "portal_inv L H s" by (rule portal_init_inv [OF laws tab s])
  let ?F = "portal_functions H M" and ?lcl = "processor_node_get_num H"
  obtain r s1 where c: "active_create L ?F ?lcl ?t = (r, s1)" by fastforce
  have "open_all (active_open L H ?F ?lcl) [0..PROCESSOR_NOC_NODES_NUM H - 1] s1 = Some s"
    using s c by (auto simp: do_portal_init_def KASSERT_def split: if_splits)
  then have "port_uses s = port_uses ?t"
    using open_all_uses active_create_uses [OF c] by metis
  then have "portal_ports L s = {}"
    by (intro unused_ports [OF laws inv])
      (auto simp: port_uses_def do_portal_table_init_def portal_active_init_def portal_port_init_def)
  then have fds: "vportal_fds L s = {}" by (simp add: chan_fds_def)
  have "\<not> holds L V0 i fd" for i fd using laws by (auto simp: V0 holds_def do_vportal_init_def)
  then show "vportal_inv L H V0" using laws inv fds by (auto simp: comms_inv_def V0 do_vportal_init_def)
qed

lemma vportal_alloc_inv:
  assumes "vportal_inv L H V" "do_vportal_alloc L H M uninit lcl rmt port ctype V = Some (r, V')"
  shows "vportal_inv L H V'"
  by (rule vprt.virtual_alloc_inv [OF assms(1) _ assms(2) [unfolded do_vportal_alloc_eq]]) simp

end
