(* ===== verification/Vportal_Facts.thy ===== *)
theory Vportal_Facts
  imports Vportal
begin

text \<open>
  What virtual portals promise: every port is accounted for, and no portal completes more
  reads than it has allowed.  A step is one call, labelled with what it did to a portal; a
  trace is a sequence of calls with any arguments.
\<close>

section \<open>Traces\<close>

datatype portal_event = Granted nat | Completed nat | Freed nat | Other

inductive vportal_step ::
  "'r klib \<Rightarrow> 'h noc_hal \<Rightarrow> 'h portal_hal \<Rightarrow> ('r, 'h) vportals \<Rightarrow> portal_event \<Rightarrow> ('r, 'h) vportals \<Rightarrow> bool"
  for L H M where
  create: "do_vportal_create L H M uninit lcl port V = Some (r, V') \<Longrightarrow> vportal_step L H M V Other V'"
| open_remote: "do_vportal_open L H M uninit lcl rmt port V = Some (r, V') \<Longrightarrow> vportal_step L H M V Other V'"
| unlink: "do_vportal_unlink L H M i V = Some (r, V') \<Longrightarrow> vportal_step L H M V (if r = 0 then Freed (nat i) else Other) V'"
| close_remote: "do_vportal_close L H M i V = Some (r, V') \<Longrightarrow> vportal_step L H M V (if r = 0 then Freed (nat i) else Other) V'"
| allow: "do_vportal_allow L i rmt port V = Some (r, V') \<Longrightarrow> vportal_step L H M V (if r = 0 then Granted (nat i) else Other) V'"
| aread: "do_vportal_aread L H M i b z V = Some (r, V') \<Longrightarrow> vportal_step L H M V Other V'"
| awrite: "curr_age (mbufs (chan V)) \<noteq> - 1 \<Longrightarrow> do_vportal_awrite L H M i b z V = Some (r, V') \<Longrightarrow> vportal_step L H M V Other V'"
| wait: "portal_can_wait L H M (cfg_fd (com_config (communicators V ! nat i))) (chan V) \<Longrightarrow>
    do_vportal_wait L H M i V = Some (r, V') \<Longrightarrow> vportal_step L H M V (if r = 0 then Completed (nat i) else Other) V'"

inductive vportal_trace ::
  "'r klib \<Rightarrow> 'h noc_hal \<Rightarrow> 'h portal_hal \<Rightarrow> ('r, 'h) vportals \<Rightarrow> portal_event list \<Rightarrow> ('r, 'h) vportals \<Rightarrow> bool"
  for L H M V where
  start: "vportal_trace L H M V [] V"
| call: "vportal_trace L H M V es V1 \<Longrightarrow> vportal_step L H M V1 e V2 \<Longrightarrow> vportal_trace L H M V (e # es) V2"

lemmas vportal_calls = do_vportal_aread_def do_vportal_awrite_def do_vportal_wait_def do_vportal_allow_def

section \<open>Ports are accounted for\<close>

lemma vportal_allow_inv:
  assumes "vportal_inv L H V" "do_vportal_allow L i rmt port V = Some (r, V')"
  shows "vportal_inv L H V'"
proof -
  have laws: "klib_laws L" using comms_invD(1) [OF assms(1)] by simp
  have "holds L V' = holds L V \<and> chan V' = chan V"
    using assms(2) by (auto simp: do_vportal_allow_def bind_eq_Some_conv Let_def vprt.holds_comm_updates [OF laws] split: if_splits)
  then show ?thesis using comms_inv_cong [OF assms(1)] comms_invD(1) [OF assms(1)] by simp
qed

lemma vportal_step_inv:
  assumes "vportal_step L H M V e V'" "vportal_inv L H V"
  shows "vportal_inv L H V'"
proof -
  have laws: "klib_laws L" using comms_invD(1) [OF assms(2)] by simp
  from assms(1) show ?thesis
  proof cases
    case (create uninit lcl port r)
    then show ?thesis
      using vportal_alloc_inv [OF assms(2), of M uninit lcl "- 1" port 0 r V'] assms(2)
      by (auto simp: do_vportal_create_def split: if_splits)
  next
    case (open_remote uninit lcl rmt port r)
    then show ?thesis
      using vportal_alloc_inv [OF assms(2), of M uninit lcl rmt port 1 r V'] assms(2)
      by (auto simp: do_vportal_open_def split: if_splits)
  next
    case (unlink i r)
    then show ?thesis
      using vprt.free_inv [OF assms(2), of i M 0] free_index [OF _ laws] by (fastforce simp: do_vportal_unlink_def)
  next
    case (close_remote i r)
    then show ?thesis
      using vprt.free_inv [OF assms(2), of i M 1] free_index [OF _ laws] by (fastforce simp: do_vportal_close_def)
  next
    case (allow i rmt port r)
    then show ?thesis using vportal_allow_inv [OF assms(2)] by blast
  next
    case (aread i b z r)
    then show ?thesis
      using vprt.operate_inv [OF vprt.setup_inv(1) [OF assms(2), where i = "nat i" and b = b and z = z and d = COMM_AREAD], of "nat i" M 0]
      by (auto simp: vportal_calls bind_eq_Some_conv fetch_Some_iff set_buffer_def Let_def)
  next
    case (awrite i b z r)
    then show ?thesis
      using vprt.operate_inv [OF vprt.setup_inv(1) [OF assms(2), where i = "nat i" and b = b and z = z and d = COMM_AWRITE], of "nat i" M 1]
      by (auto simp: vportal_calls bind_eq_Some_conv fetch_Some_iff set_buffer_def Let_def)
  next
    case (wait i r)
    then show ?thesis using vprt.wait_inv [OF assms(2), of "nat i" M] by (auto simp: vportal_calls bind_eq_Some_conv fetch_Some_iff)
  qed
qed

lemma vportal_trace_inv: "vportal_trace L H M V es V' \<Longrightarrow> vportal_inv L H V \<Longrightarrow> vportal_inv L H V'"
  by (induction rule: vportal_trace.induct) (use vportal_step_inv in blast)+

section \<open>Permissions\<close>

text \<open>How many reads a portal may still complete: one for a standing permission, one for a read
  that has taken its message but has not been waited for.\<close>

definition permits :: "'r klib \<Rightarrow> 'r communicator \<Rightarrow> nat" where
  "permits L comm = (if communicator_is_allowed comm then 1 else 0) + (if communicator_is_finished comm then 1 else 0)"

definition reader_ok :: "'r klib \<Rightarrow> 'r communicator \<Rightarrow> bool" where
  "reader_ok L comm \<longleftrightarrow> resource_is_used L (com_resource comm) \<and> resource_is_readable L (com_resource comm)
    \<and> \<not> resource_is_writable L (com_resource comm) \<and> (communicator_is_finished comm \<longrightarrow> resource_is_busy L (com_resource comm))
    \<and> (resource_is_busy L (com_resource comm) \<and> \<not> communicator_is_finished comm \<longrightarrow> communicator_is_allowed comm)"

text \<open>What a step may do to the portal \<open>k\<close>: it stays a reader, and its permits grow by the
  permission that was granted and shrink by the read that was completed.\<close>

definition permits_step :: "'r klib \<Rightarrow> nat \<Rightarrow> portal_event \<Rightarrow> ('r, 's) comms \<Rightarrow> ('r, 's) comms \<Rightarrow> bool" where
  "permits_step L k e V V' \<longleftrightarrow> reader_ok L (communicators V' ! k) \<and> length (communicators V') = length (communicators V)
    \<and> permits L (communicators V' ! k) + (if e = Completed k then 1 else 0)
      = permits L (communicators V ! k) + (if e = Granted k then 1 else 0)"

lemma flag_stats [simp]:
  "communicator_is_finished (c\<lparr>com_stats := st\<rparr>) = communicator_is_finished c"
  "communicator_is_allowed (c\<lparr>com_stats := st\<rparr>) = communicator_is_allowed c"
  by (simp_all add: communicator_is_finished_def communicator_is_allowed_def)

lemma permits_refl: "reader_ok L (communicators V ! k) \<Longrightarrow> e \<noteq> Completed k \<Longrightarrow> e \<noteq> Granted k \<Longrightarrow> permits_step L k e V V"
  by (simp add: permits_step_def)

lemma permits_other:
  assumes "reader_ok L (communicators V ! k)" "communicators V' = (communicators V)[i := c]" "i \<noteq> k" "e \<noteq> Completed k" "e \<noteq> Granted k"
  shows "permits_step L k e V V'"
  using assms by (simp add: permits_step_def)

lemma permits_alloc:
  assumes "klib_laws L" "reader_ok L (communicators V ! k)" "k < length (communicators V)"
    and "virtual_alloc L rel config ctype al V = Some (r, V')"
  shows "permits_step L k Other V V'"
proof (cases rule: communicator_alloc_cases [of L "config (fst al)" ctype "V\<lparr>chan := snd al\<rparr>"])
  case none
  then have "communicators V' = communicators V"
    using assms(4) by (auto simp: virtual_alloc_def case_prod_beta Let_def bind_eq_Some_conv KASSERT_def split: if_splits)
  then show ?thesis using assms(2) by (simp add: permits_step_def)
next
  case (found i f)
  then have "communicators V' = communicators V \<or> communicators V' = (communicators V)[i := f (communicators V ! i)]" "i \<noteq> k"
    using assms by (auto simp: virtual_alloc_def case_prod_beta Let_def set_comm_def reader_ok_def split: if_splits)
  then show ?thesis using assms(2) permits_other [OF assms(2)] by (auto simp: permits_step_def)
qed

lemma permits_free:
  assumes "klib_laws L" "reader_ok L (communicators V ! k)" "k < length (communicators V)"
    and "communicator_free L fn i ctype V = Some (r, V')" "\<not> (r = 0 \<and> nat i = k)"
  shows "permits_step L k Other V V'" "permits_step L k (Freed j) V V'"
proof -
  have "communicators V' = communicators V \<or> nat i \<noteq> k \<and> (\<exists>c. communicators V' = (communicators V)[nat i := c])"
    using assms(4,5) by (auto simp: communicator_free_def KASSERT_def Let_def bind_eq_Some_conv set_comm_def split: if_splits)
  then show "permits_step L k Other V V'" "permits_step L k (Freed j) V V'"
    using permits_other [OF assms(2)] assms(2) by (auto simp: permits_step_def)
qed

lemma operate_comms:
  assumes "communicator_operate L fn i ctype V = Some (r, V')" "i < length (communicators V)"
  shows "\<exists>c. communicators V' = (communicators V)[i := c]"
proof -
  have "\<exists>c. communicators V = (communicators V)[i := c]" by (rule exI [of _ "communicators V ! i"]) simp
  then show ?thesis
    using assms by (auto simp: communicator_operate_def Let_def bind_eq_Some_conv set_comm_def split: if_splits)
qed

lemma permits_operate:
  assumes laws: "klib_laws L" and ok: "reader_ok L (communicators V ! k)" and k: "k < length (communicators V)"
    and op: "communicator_operate L fn i ctype V = Some (r, V')" and i: "i < length (communicators V)"
  shows "permits_step L k Other V V'"
proof (cases "i = k")
  case False
  then show ?thesis using operate_comms [OF op i] permits_other [OF ok] by auto
next
  case True
  then show ?thesis
    using assms by (auto simp: communicator_operate_def Let_def bind_eq_Some_conv reader_ok_def permits_step_def permits_def
        set_comm_def split: if_splits)
qed

lemma wait_comms:
  assumes "communicator_wait L fn i V = Some (r, V')" "i < length (communicators V)"
  shows "\<exists>c. communicators V' = (communicators V)[i := c]"
proof -
  have "\<exists>c. communicators V = (communicators V)[i := c]" by (rule exI [of _ "communicators V ! i"]) simp
  then show ?thesis
    using assms by (auto simp: communicator_wait_def Let_def bind_eq_Some_conv set_comm_def comm_release_def split: if_splits)
qed

lemma permits_wait:
  assumes laws: "klib_laws L" and ok: "reader_ok L (communicators V ! k)" and k: "k < length (communicators V)"
    and op: "communicator_wait L fn i V = Some (r, V')" and i: "i < length (communicators V)"
  shows "permits_step L k (if r = 0 then Completed i else Other) V V'"
proof (cases "i = k")
  case False
  then show ?thesis using wait_comms [OF op i] permits_other [OF ok] by auto
next
  case ik: True
  let ?c = "communicators V ! k"
  have c: "resource_is_used L (com_resource ?c)" "resource_is_readable L (com_resource ?c)" "\<not> resource_is_writable L (com_resource ?c)"
    "communicator_is_finished ?c \<Longrightarrow> resource_is_busy L (com_resource ?c)"
    "resource_is_busy L (com_resource ?c) \<Longrightarrow> \<not> communicator_is_finished ?c \<Longrightarrow> communicator_is_allowed ?c"
    using ok by (auto simp: reader_ok_def)
  consider (idle) "\<not> resource_is_busy L (com_resource ?c)"
    | (finished) "resource_is_busy L (com_resource ?c)" "communicator_is_finished ?c"
    | (wait) "resource_is_busy L (com_resource ?c)" "\<not> communicator_is_finished ?c" "communicator_is_allowed ?c"
    using c(5) by blast
  then show ?thesis
  proof cases
    case idle
    then show ?thesis using op ik c(1) permits_refl [OF ok] by (auto simp: communicator_wait_def Let_def)
  next
    case finished
    then show ?thesis using op ik c k laws
      by (auto simp: communicator_wait_def comm_release_def Let_def permits_step_def reader_ok_def permits_def set_comm_def)
  next
    case wait
    obtain st s where run: "fn_wait fn (cfg_fd (com_config ?c)) (com_config ?c) (com_stats ?c) (chan V) = Some (r, st, s)"
      using op ik wait c(1) by (auto simp: communicator_wait_def Let_def bind_eq_Some_conv)
    show ?thesis
    proof (cases "r = 0")
      case True
      then show ?thesis using op ik wait c(1-3) k laws run
        by (auto simp: communicator_wait_def comm_release_def Let_def permits_step_def reader_ok_def permits_def set_comm_def)
    next
      case False
      then show ?thesis using op ik wait c(1-3) k laws run
        by (auto simp: communicator_wait_def comm_release_def Let_def permits_step_def reader_ok_def permits_def set_comm_def)
    qed
  qed
qed

lemma permits_allow:
  assumes laws: "klib_laws L" and ok: "reader_ok L (communicators V ! k)" and k: "k < length (communicators V)"
    and op: "do_vportal_allow L i rmt port V = Some (r, V')"
  shows "permits_step L k (if r = 0 then Granted (nat i) else Other) V V'"
  using assms
  by (cases "nat i = k") (auto simp: do_vportal_allow_def Let_def bind_eq_Some_conv fetch_Some_iff reader_ok_def permits_step_def
      permits_def set_comm_def split: if_splits)

lemma set_buffer_reader:
  "length (communicators (set_buffer i b z V)) = length (communicators V)"
  "reader_ok L (communicators (set_buffer i b z V) ! k) = reader_ok L (communicators V ! k)"
  "reader_ok L (communicators ((set_buffer i b z V)\<lparr>do_comm_fn := d\<rparr>) ! k) = reader_ok L (communicators V ! k)"
  "permits_step L k e ((set_buffer i b z V)\<lparr>do_comm_fn := d\<rparr>) V' = permits_step L k e V V'"
  by (cases "i = k"; cases "k < length (communicators V)";
      simp add: set_buffer_def set_comm_def reader_ok_def permits_step_def permits_def list_update_beyond)+

lemma vportal_step_permits:
  assumes laws: "klib_laws L" and ok: "reader_ok L (communicators V ! k)" and k: "k < length (communicators V)"
    and st: "vportal_step L H M V e V'" and e: "e \<noteq> Freed k"
  shows "permits_step L k e V V'"
  using st
proof cases
  case (create uninit lcl port r)
  then show ?thesis
    using permits_alloc [OF laws ok k] permits_refl [OF ok]
    by (auto simp: do_vportal_create_def do_vportal_alloc_eq split: if_splits)
next
  case (open_remote uninit lcl rmt port r)
  then show ?thesis
    using permits_alloc [OF laws ok k] permits_refl [OF ok]
    by (auto simp: do_vportal_open_def do_vportal_alloc_eq split: if_splits)
next
  case (unlink i r)
  then show ?thesis using permits_free [OF laws ok k, of _ i _ r V'] e by (auto simp: do_vportal_unlink_def)
next
  case (close_remote i r)
  then show ?thesis using permits_free [OF laws ok k, of _ i _ r V'] e by (auto simp: do_vportal_close_def)
next
  case (allow i rmt port r)
  then show ?thesis using permits_allow [OF laws ok k] by blast
next
  case (aread i b z r)
  then show ?thesis
    using permits_operate [where V = "(set_buffer (nat i) b z V)\<lparr>do_comm_fn := COMM_AREAD\<rparr>", OF laws, of k] ok k
    by (auto simp: vportal_calls bind_eq_Some_conv fetch_Some_iff Let_def set_buffer_reader)
next
  case (awrite i b z r)
  then show ?thesis
    using permits_operate [where V = "(set_buffer (nat i) b z V)\<lparr>do_comm_fn := COMM_AWRITE\<rparr>", OF laws, of k] ok k
    by (auto simp: vportal_calls bind_eq_Some_conv fetch_Some_iff Let_def set_buffer_reader)
next
  case (wait i r)
  moreover from wait have "communicator_wait L (vportal_functions L H M) (nat i) V = Some (r, V')" "nat i < length (communicators V)"
    by (auto simp: vportal_calls bind_eq_Some_conv fetch_Some_iff)
  ultimately show ?thesis using permits_wait [OF laws ok k] by blast
qed

lemma vportal_trace_permits:
  assumes "vportal_trace L H M V es V'" and laws: "klib_laws L" and ok: "reader_ok L (communicators V ! k)"
    and k: "k < length (communicators V)" and e: "Freed k \<notin> set es"
  shows "reader_ok L (communicators V' ! k) \<and> length (communicators V') = length (communicators V)
    \<and> permits L (communicators V' ! k) + count_list es (Completed k) = permits L (communicators V ! k) + count_list es (Granted k)"
  using assms(1) e
proof (induction rule: vportal_trace.induct)
  case (call es V1 e V2)
  then show ?case
    using vportal_step_permits [OF laws _ _ call.hyps(2), of k] k by (auto simp: permits_step_def)
qed (use ok in simp)

lemma reader_refused:
  assumes "reader_ok L (communicators V ! k)" "k < length (communicators V)" "permits L (communicators V ! k) = 0"
  shows "\<exists>V'. do_vportal_aread L H M (int k) b z V = Some (- EACCES, V') \<and> chan V' = chan V"
  using assms
  by (auto simp: do_vportal_aread_def fetch_def communicator_operate_def set_buffer_def reader_ok_def permits_def split: if_splits)

section \<open>Properties\<close>

text \<open>(C7) Between the creation and the unlinking of a virtual portal, whatever calls are made in
  whatever order on this and on other portals, the reads it completes never outnumber the
  permissions it granted, and at most two grants are outstanding: one that stands and one
  whose message was taken but not waited for.  When every grant has been used up, the next
  read is refused with \<open>-EACCES\<close> and touches no channel.\<close>

theorem vportal_reads_allowed:
  assumes inv: "vportal_inv L H V" and new: "do_vportal_create L H M uninit lcl port V = Some (int k, V0)"
    and run: "vportal_trace L H M V0 es V1" and alive: "Freed k \<notin> set es"
  shows "count_list es (Completed k) \<le> count_list es (Granted k)
    \<and> count_list es (Granted k) \<le> count_list es (Completed k) + 2
    \<and> (count_list es (Completed k) = count_list es (Granted k) \<longrightarrow>
        (\<exists>V2. do_vportal_aread L H M (int k) b z V1 = Some (- EACCES, V2) \<and> chan V2 = chan V1))"
proof -
  have laws: "klib_laws L" using comms_invD(1) [OF inv] by simp
  have al: "do_vportal_alloc L H M uninit lcl (- 1) port 0 V = Some (int k, V0)"
    using new by (auto simp: do_vportal_create_def split: if_splits)
  from vprt.virtual_alloc_result [OF inv _ al [unfolded do_vportal_alloc_eq]]
  have k: "k < length (communicators V)" "communicators V0 = (communicators V)[k := communicators V0 ! k]"
      "com_flags (communicators V0 ! k) = 0" "com_resource (communicators V0 ! k) = resource_set_rdonly L (resource_set_used L (RESOURCE_INITIALIZER L))"
    by auto
  have "reader_ok L (communicators V0 ! k)" "permits L (communicators V0 ! k) = 0"
    using k(3,4) laws
    by (simp_all add: reader_ok_def permits_def communicator_is_finished_def communicator_is_allowed_def)
  moreover have len: "length (communicators V0) = length (communicators V)" by (subst k(2)) simp
  ultimately have end_state: "reader_ok L (communicators V1 ! k)" "k < length (communicators V1)"
      "permits L (communicators V1 ! k) + count_list es (Completed k) = count_list es (Granted k)"
    using vportal_trace_permits [OF run laws _ _ alive] k(1) by simp_all
  then show ?thesis
    using reader_refused [OF end_state(1,2), of H M b z] by (auto simp: permits_def split: if_splits)
qed

abbreviation zeroed_vportals :: "(sample_resource, nat \<times> mbuffer_message) vportals" where
  "zeroed_vportals \<equiv> zeroed_comms (zeroed_noc 3 (0, sample_message 3 17 7))"

definition booted_vportals :: "(sample_resource, nat \<times> mbuffer_message) vportals" where
  "booted_vportals = the (vportal_init sample_klib sample_hal sample_portal zeroed_vportals)"

lemma booted_vportals_init: "vportal_init sample_klib sample_hal sample_portal zeroed_vportals = Some booted_vportals"
  using booted_portals_init by (simp add: booted_vportals_def vportal_init_def zeroed_comms_def)

lemma booted_vportals_inv: "vportal_inv sample_klib sample_hal booted_vportals"
  by (rule vportal_init_inv [OF sample_klib_laws _ booted_vportals_init])
    (simp add: zeroed_comms_def zeroed_portal_tables)

text \<open>A portal created on port 3, which has then allowed node 1, port 5.\<close>

definition sample_vportals :: "(sample_resource, nat \<times> mbuffer_message) vportals" where
  "sample_vportals = snd (the (do_vportal_create sample_klib sample_hal sample_portal (sample_config 0 0 0) 0 3 booted_vportals))"

definition allowed_vportals :: "(sample_resource, nat \<times> mbuffer_message) vportals" where
  "allowed_vportals = snd (the (do_vportal_allow sample_klib 0 1 5 sample_vportals))"

lemma sample_vportals_create:
  "do_vportal_create sample_klib sample_hal sample_portal (sample_config 0 0 0) 0 3 booted_vportals = Some (0, sample_vportals)"
proof -
  have "map_option fst (do_vportal_create sample_klib sample_hal sample_portal (sample_config 0 0 0) 0 3 booted_vportals) = Some 0"
    by code_simp
  then show ?thesis by (auto simp: sample_vportals_def)
qed

lemma sample_vportals_allow: "do_vportal_allow sample_klib 0 1 5 sample_vportals = Some (0, allowed_vportals)"
proof -
  have "map_option fst (do_vportal_allow sample_klib 0 1 5 sample_vportals) = Some 0" by code_simp
  then show ?thesis by (auto simp: allowed_vportals_def)
qed

theorem vportal_reads_allowed_witness:
  "vportal_trace sample_klib sample_hal sample_portal sample_vportals [Granted 0] allowed_vportals
    \<and> count_list [Granted 0] (Completed 0) \<le> count_list [Granted 0] (Granted 0)
    \<and> (\<exists>V2. do_vportal_aread sample_klib sample_hal sample_portal 0 200 2 sample_vportals = Some (- EACCES, V2)
        \<and> chan V2 = chan sample_vportals)"
proof -
  have create: "do_vportal_create sample_klib sample_hal sample_portal (sample_config 0 0 0) 0 3 booted_vportals = Some (int 0, sample_vportals)"
    using sample_vportals_create by simp
  have one: "vportal_trace sample_klib sample_hal sample_portal sample_vportals [Granted 0] allowed_vportals"
    using vportal_trace.call [OF vportal_trace.start vportal_step.allow [OF sample_vportals_allow]] by simp
  show ?thesis
    using vportal_reads_allowed [OF booted_vportals_inv create vportal_trace.start, of 200 2]
      vportal_reads_allowed [OF booted_vportals_inv create one] one by simp
qed

text \<open>Whatever calls are made on the virtual portals after their initialisation, the ports in
  use are exactly those that used portals hold, and no port is held by two.\<close>

theorem vportal_ports_accounted:
  assumes "klib_laws L" and "portal_tables M (chan V)" and "vportal_init L H M V = Some V0"
    and "vportal_trace L H M V0 es V1"
  shows "(fd \<in> chan_fds L KPORTAL_PORT_NR (chan V1) \<longleftrightarrow> (\<exists>i. holds L V1 i fd))
    \<and> (holds L V1 i fd \<and> holds L V1 j fd \<longrightarrow> i = j)"
  using comms_invD(2-4) [OF vportal_trace_inv [OF assms(4) vportal_init_inv [OF assms(1-3)]]] by blast

theorem vportal_ports_accounted_witness:
  "3 \<in> chan_fds sample_klib KPORTAL_PORT_NR (chan sample_vportals)"
proof -
  have tr: "vportal_trace sample_klib sample_hal sample_portal booted_vportals [Other] sample_vportals"
    by (rule vportal_trace.call [OF vportal_trace.start vportal_step.create [OF sample_vportals_create]])
  have "holds sample_klib sample_vportals 0 3" by code_simp
  then show ?thesis
    using vportal_ports_accounted [OF sample_klib_laws _ booted_vportals_init tr, of 3] zeroed_portal_tables
    by (auto simp: zeroed_comms_def)
qed

end
