(* ===== verification/Sync.thy ===== *)
theory Sync
  imports Communicator
begin

text \<open>
  Synchronisation points: \<^verbatim>\<open>src/kernel/noc/sync.c\<close>.  The device and the
  allocation of table entries (\<open>resource_alloc\<close> and \<open>resource_free\<close> of the support
  library) are parameters; \<open>pool_laws\<close> states what the support library promises of
  them.  \<open>_do_sync_operate\<close> gives up its lock while the device works, so it is split
  at that point: \<open>sync_operate_begin\<close> and \<open>sync_operate_end\<close> are its two critical
  sections.  An identifier outside the table and a shift by more than 63 have no defined
  result (\<^const>\<open>None\<close>).
\<close>

section \<open>Structures\<close>

record 'r sync_point =
  sy_resource  :: 'r
  sy_hwfd      :: int
  sy_refcount  :: int
  sy_mode      :: int
  sy_master    :: int
  sy_nodeslist :: "64 word"
  sy_latency   :: "64 word"

record sync_counters =
  sy_ncreates :: "64 word"
  sy_nunlinks :: "64 word"
  sy_nopens   :: "64 word"
  sy_ncloses  :: "64 word"
  sy_nwaits   :: "64 word"
  sy_nsignals :: "64 word"

record ('r, 'h) vsync =
  vsynctab       :: "'r sync_point list"
  vsync_counters :: sync_counters
  sync_hw        :: 'h

record 'r resource_pool =
  resource_alloc :: "'r list \<Rightarrow> int \<times> 'r list"
  resource_free  :: "'r list \<Rightarrow> int \<Rightarrow> 'r list"

record 'h sync_hal =
  sync_create :: "int list \<Rightarrow> int \<Rightarrow> int \<Rightarrow> 'h \<Rightarrow> int \<times> 'h"
  sync_open   :: "int list \<Rightarrow> int \<Rightarrow> int \<Rightarrow> 'h \<Rightarrow> int \<times> 'h"
  sync_unlink :: "int \<Rightarrow> 'h \<Rightarrow> int \<times> 'h"
  sync_close  :: "int \<Rightarrow> 'h \<Rightarrow> int \<times> 'h"
  sync_wait   :: "int \<Rightarrow> 'h \<Rightarrow> int \<times> 'h"
  sync_signal :: "int \<Rightarrow> 'h \<Rightarrow> int \<times> 'h"

abbreviation (input) VSYNC_TYPE_INPUT :: int where "VSYNC_TYPE_INPUT \<equiv> 0"
abbreviation (input) VSYNC_TYPE_OUTPUT :: int where "VSYNC_TYPE_OUTPUT \<equiv> 1"

definition set_point :: "nat \<Rightarrow> ('r sync_point \<Rightarrow> 'r sync_point) \<Rightarrow> ('r, 'h) vsync \<Rightarrow> ('r, 'h) vsync" where
  "set_point i f S = S\<lparr>vsynctab := (vsynctab S)[i := f (vsynctab S ! i)]\<rparr>"

definition set_resources :: "'r list \<Rightarrow> ('r, 'h) vsync \<Rightarrow> ('r, 'h) vsync" where
  "set_resources rs S = S\<lparr>vsynctab := map2 (\<lambda>p r. p\<lparr>sy_resource := r\<rparr>) (vsynctab S) rs\<rparr>"

section \<open>Search and creation\<close>

definition do_sync_search :: "'r klib \<Rightarrow> int \<Rightarrow> 64 word \<Rightarrow> int \<Rightarrow> int \<Rightarrow> ('r, 'h) vsync \<Rightarrow> int" where
  "do_sync_search L master nodeslist mode ctype S =
    (case first_index (\<lambda>p. resource_is_used L (sy_resource p)
        \<and> (if ctype = VSYNC_TYPE_INPUT then resource_is_readable L (sy_resource p)
           else resource_is_writable L (sy_resource p))
        \<and> sy_mode p = mode \<and> sy_master p = master \<and> sy_nodeslist p = nodeslist) (vsynctab S) of
       None \<Rightarrow> - 1
     | Some i \<Rightarrow> int i)"

primrec nodeslist_of :: "int list \<Rightarrow> 64 word \<Rightarrow> 64 word option" where
  "nodeslist_of [] w = Some w"
| "nodeslist_of (n # ns) w = (if 0 \<le> n \<and> n < 64 then nodeslist_of ns (w OR push_bit (nat n) 1) else None)"

definition sync_build_nodeslist :: "int list \<Rightarrow> int \<Rightarrow> 64 word option" where
  "sync_build_nodeslist nodes nnodes =
    (if nnodes \<le> int (length nodes) then nodeslist_of (take (nat nnodes) nodes) 0 else None)"

definition do_sync_alloc ::
  "'r klib \<Rightarrow> 'r resource_pool \<Rightarrow> int list \<Rightarrow> int \<Rightarrow> int \<Rightarrow> int \<Rightarrow> (int list \<Rightarrow> int \<Rightarrow> int \<Rightarrow> 'h \<Rightarrow> int \<times> 'h)
    \<Rightarrow> ('r, 'h) vsync \<Rightarrow> (int \<times> ('r, 'h) vsync) option" where
  "do_sync_alloc L P nodes nnodes mode ctype do_alloc S =
    do {
      nodeslist \<leftarrow> sync_build_nodeslist nodes nnodes;
      master \<leftarrow> fetch nodes 0;
      let syncid = do_sync_search L master nodeslist mode ctype S;
      if syncid \<ge> 0
      then Some (syncid, set_point (nat syncid) (\<lambda>p. p\<lparr>sy_refcount := sy_refcount p + 1\<rparr>) S)
      else
        let (syncid, rs) = resource_alloc P (map sy_resource (vsynctab S)); S1 = set_resources rs S
        in if syncid < 0 then Some (- EAGAIN, S1)
           else
             let (fd, h) = do_alloc nodes nnodes mode (sync_hw S1); S2 = S1\<lparr>sync_hw := h\<rparr>
             in if fd < 0
                then Some (fd, set_resources (resource_free P (map sy_resource (vsynctab S2)) syncid) S2)
                else
                  let S3 = set_point (nat syncid) (\<lambda>p. p\<lparr>sy_refcount := 1, sy_hwfd := fd, sy_mode := mode,
                        sy_master := master, sy_nodeslist := nodeslist, sy_latency := 0\<rparr>) S2;
                      c = vsync_counters S3
                  in if ctype = VSYNC_TYPE_INPUT
                     then Some (syncid, (set_point (nat syncid) (\<lambda>p. p\<lparr>sy_resource := resource_set_rdonly L (sy_resource p)\<rparr>) S3)
                       \<lparr>vsync_counters := c\<lparr>sy_ncreates := sy_ncreates c + 1\<rparr>\<rparr>)
                     else Some (syncid, (set_point (nat syncid) (\<lambda>p. p\<lparr>sy_resource := resource_set_wronly L (sy_resource p)\<rparr>) S3)
                       \<lparr>vsync_counters := c\<lparr>sy_nopens := sy_nopens c + 1\<rparr>\<rparr>)
    }"

definition do_vsync_create ::
  "'r klib \<Rightarrow> 'r resource_pool \<Rightarrow> 'h sync_hal \<Rightarrow> int list \<Rightarrow> int \<Rightarrow> int \<Rightarrow> ('r, 'h) vsync \<Rightarrow> (int \<times> ('r, 'h) vsync) option" where
  "do_vsync_create L P D nodes nnodes mode S = do_sync_alloc L P nodes nnodes mode VSYNC_TYPE_INPUT (sync_create D) S"

definition do_vsync_open ::
  "'r klib \<Rightarrow> 'r resource_pool \<Rightarrow> 'h sync_hal \<Rightarrow> int list \<Rightarrow> int \<Rightarrow> int \<Rightarrow> ('r, 'h) vsync \<Rightarrow> (int \<times> ('r, 'h) vsync) option" where
  "do_vsync_open L P D nodes nnodes mode S = do_sync_alloc L P nodes nnodes mode VSYNC_TYPE_OUTPUT (sync_open D) S"

section \<open>Release\<close>

text \<open>The checks at the head of \<open>_do_sync_release\<close> and of \<open>_do_sync_operate\<close>.\<close>

definition sync_refused :: "'r klib \<Rightarrow> int \<Rightarrow> 'r sync_point \<Rightarrow> int option" where
  "sync_refused L ctype p =
    (if \<not> resource_is_used L (sy_resource p) then Some (- EBADF)
     else if ctype = VSYNC_TYPE_INPUT \<and> \<not> resource_is_readable L (sy_resource p) then Some (- EBADF)
     else if ctype \<noteq> VSYNC_TYPE_INPUT \<and> \<not> resource_is_writable L (sy_resource p) then Some (- EBADF)
     else if resource_is_busy L (sy_resource p) then Some (- EBUSY)
     else None)"

definition do_sync_release ::
  "'r klib \<Rightarrow> 'r resource_pool \<Rightarrow> int \<Rightarrow> int \<Rightarrow> (int \<Rightarrow> 'h \<Rightarrow> int \<times> 'h) \<Rightarrow> ('r, 'h) vsync \<Rightarrow> (int \<times> ('r, 'h) vsync) option" where
  "do_sync_release L P syncid ctype do_release S =
    do {
      p \<leftarrow> fetch (vsynctab S) syncid;
      case sync_refused L ctype p of
        Some e \<Rightarrow> Some (e, S)
      | None \<Rightarrow>
          let S1 = set_point (nat syncid) (\<lambda>p. p\<lparr>sy_refcount := sy_refcount p - 1\<rparr>) S
          in if sy_refcount (vsynctab S1 ! nat syncid) = 0
             then
               let (ret, h) = do_release (sy_hwfd p) (sync_hw S1); S2 = S1\<lparr>sync_hw := h\<rparr>
               in if ret < 0 then Some (ret, S2)
                  else
                    let S3 = set_point (nat syncid) (\<lambda>p. p\<lparr>sy_hwfd := - 1, sy_master := - 1, sy_nodeslist := 0\<rparr>) S2;
                        c = vsync_counters S3;
                        S4 = S3\<lparr>vsync_counters := if ctype = VSYNC_TYPE_INPUT then c\<lparr>sy_nunlinks := sy_nunlinks c + 1\<rparr>
                                                   else c\<lparr>sy_ncloses := sy_ncloses c + 1\<rparr>\<rparr>
                    in Some (0, set_resources (resource_free P (map sy_resource (vsynctab S4)) syncid) S4)
             else Some (0, S1)
    }"

definition do_vsync_unlink ::
  "'r klib \<Rightarrow> 'r resource_pool \<Rightarrow> 'h sync_hal \<Rightarrow> int \<Rightarrow> ('r, 'h) vsync \<Rightarrow> (int \<times> ('r, 'h) vsync) option" where
  "do_vsync_unlink L P D syncid S = do_sync_release L P syncid VSYNC_TYPE_INPUT (sync_unlink D) S"

definition do_vsync_close ::
  "'r klib \<Rightarrow> 'r resource_pool \<Rightarrow> 'h sync_hal \<Rightarrow> int \<Rightarrow> ('r, 'h) vsync \<Rightarrow> (int \<times> ('r, 'h) vsync) option" where
  "do_vsync_close L P D syncid S = do_sync_release L P syncid VSYNC_TYPE_OUTPUT (sync_close D) S"

section \<open>Waiting and signalling\<close>

definition sync_operate_begin :: "'r klib \<Rightarrow> int \<Rightarrow> int \<Rightarrow> ('r, 'h) vsync \<Rightarrow> (int option \<times> ('r, 'h) vsync) option" where
  "sync_operate_begin L syncid ctype S =
    do {
      p \<leftarrow> fetch (vsynctab S) syncid;
      Some (case sync_refused L ctype p of
        Some e \<Rightarrow> (Some e, S)
      | None \<Rightarrow> (None, set_point (nat syncid) (\<lambda>p. p\<lparr>sy_resource := resource_set_busy L (sy_resource p)\<rparr>) S))
    }"

definition sync_operate_end :: "'r klib \<Rightarrow> int \<Rightarrow> int \<Rightarrow> int \<Rightarrow> 64 word \<Rightarrow> ('r, 'h) vsync \<Rightarrow> ('r, 'h) vsync" where
  "sync_operate_end L syncid ctype ret dt S =
    (let S1 = (if ret \<ge> 0
               then
                 let S1 = set_point (nat syncid) (\<lambda>p. p\<lparr>sy_latency := sy_latency p + dt\<rparr>) S;
                     c = vsync_counters S1
                 in S1\<lparr>vsync_counters := if ctype = VSYNC_TYPE_INPUT then c\<lparr>sy_nwaits := sy_nwaits c + 1\<rparr>
                                         else c\<lparr>sy_nsignals := sy_nsignals c + 1\<rparr>\<rparr>
               else S)
     in set_point (nat syncid) (\<lambda>p. p\<lparr>sy_resource := resource_set_notbusy L (sy_resource p)\<rparr>) S1)"

definition do_sync_operate ::
  "'r klib \<Rightarrow> 'h noc_hal \<Rightarrow> int \<Rightarrow> int \<Rightarrow> (int \<Rightarrow> 'h \<Rightarrow> int \<times> 'h) \<Rightarrow> ('r, 'h) vsync \<Rightarrow> (int \<times> ('r, 'h) vsync) option" where
  "do_sync_operate L H syncid ctype do_operation S =
    do {
      (err, S) \<leftarrow> sync_operate_begin L syncid ctype S;
      case err of
        Some e \<Rightarrow> Some (e, S)
      | None \<Rightarrow>
          let (t1, h) = clock_read H (sync_hw S);
              (ret, h) = do_operation (sy_hwfd (vsynctab S ! nat syncid)) h;
              (t2, h) = clock_read H h
          in Some (ret, sync_operate_end L syncid ctype ret (t2 - t1) (S\<lparr>sync_hw := h\<rparr>))
    }"

definition do_vsync_wait ::
  "'r klib \<Rightarrow> 'h noc_hal \<Rightarrow> 'h sync_hal \<Rightarrow> int \<Rightarrow> ('r, 'h) vsync \<Rightarrow> (int \<times> ('r, 'h) vsync) option" where
  "do_vsync_wait L H D syncid S = do_sync_operate L H syncid VSYNC_TYPE_INPUT (sync_wait D) S"

definition do_vsync_signal ::
  "'r klib \<Rightarrow> 'h noc_hal \<Rightarrow> 'h sync_hal \<Rightarrow> int \<Rightarrow> ('r, 'h) vsync \<Rightarrow> (int \<times> ('r, 'h) vsync) option" where
  "do_vsync_signal L H D syncid S = do_sync_operate L H syncid VSYNC_TYPE_OUTPUT (sync_signal D) S"

section \<open>Control and initialisation\<close>

definition vsync_ioctl_valid :: "target \<Rightarrow> ('w::len) layout \<Rightarrow> 'w word \<Rightarrow> 'w word \<Rightarrow> bool" where
  "vsync_ioctl_valid tgt lay ptr sz \<longleftrightarrow> ptr \<noteq> 0 \<and> mm_check_area tgt lay ptr sz UMEM_AREA"

text \<open>The result is the status and the value written to the user's variable.\<close>

definition do_vsync_ioctl ::
  "'r klib \<Rightarrow> target \<Rightarrow> ('w::len) layout \<Rightarrow> int \<Rightarrow> int \<Rightarrow> 'w word \<Rightarrow> ('r, 'h) vsync \<Rightarrow> (int \<times> 64 word option) option" where
  "do_vsync_ioctl L tgt lay syncid request var S =
    do {
      p \<leftarrow> fetch (vsynctab S) syncid;
      let c = vsync_counters S;
      Some (if \<not> resource_is_used L (sy_resource p) then (- EBADF, None)
        else if resource_is_busy L (sy_resource p) then (- EBUSY, None)
        else if \<not> vsync_ioctl_valid tgt lay var 8 then (- EFAULT, None)
        else if request = 2 then (0, Some (sy_latency p))
        else if request = 3 then (0, Some (sy_ncreates c))
        else if request = 4 then (0, Some (sy_nunlinks c))
        else if request = 5 then (0, Some (sy_nopens c))
        else if request = 6 then (0, Some (sy_ncloses c))
        else if request = 9 then (0, Some (sy_nwaits c))
        else if request = 10 then (0, Some (sy_nsignals c))
        else (- ENOTSUP, None))
    }"

definition vsync_init :: "'r klib \<Rightarrow> ('r, 'h) vsync \<Rightarrow> ('r, 'h) vsync" where
  "vsync_init L S =
    S\<lparr>vsync_counters := \<lparr>sy_ncreates = 0, sy_nunlinks = 0, sy_nopens = 0, sy_ncloses = 0, sy_nwaits = 0, sy_nsignals = 0\<rparr>,
      vsynctab := map (\<lambda>p. \<lparr>sy_resource = RESOURCE_INITIALIZER L, sy_hwfd = - 1, sy_refcount = 0, sy_mode = - 1,
        sy_master = - 1, sy_nodeslist = 0, sy_latency = 0\<rparr>) (vsynctab S)\<rparr>"

section \<open>The allocation of table entries\<close>

text \<open>Allocation finds an entry that is not used when there is one, marks it used and hands it
  out idle; freeing an entry marks it not used.  Neither touches other entries.\<close>

definition pool_laws :: "'r klib \<Rightarrow> 'r resource_pool \<Rightarrow> bool" where
  "pool_laws L P \<longleftrightarrow>
    (\<forall>rs. case resource_alloc P rs of (i, rs') \<Rightarrow>
      if i < 0 then rs' = rs \<and> (\<forall>r \<in> set rs. resource_is_used L r)
      else i < int (length rs) \<and> \<not> resource_is_used L (rs ! nat i)
        \<and> (\<exists>r. rs' = rs[nat i := r] \<and> resource_is_used L r \<and> \<not> resource_is_busy L r))
    \<and> (\<forall>rs i. 0 \<le> i \<and> i < int (length rs) \<longrightarrow> (\<exists>r. resource_free P rs i = rs[nat i := r] \<and> \<not> resource_is_used L r))"

end
