(* ===== verification/Sync_Facts.thy ===== *)
theory Sync_Facts
  imports Sync
begin

text \<open>
  What synchronisation points promise: no two used points are the same, a point is shared by
  counting its users, and it cannot be released while the device works on it.  The last
  two need the steps of concurrent callers interleaved, with the operations in flight
  recorded beside the table.
\<close>

section \<open>What each operation does to the table\<close>

definition sync_matches :: "'r klib \<Rightarrow> int \<Rightarrow> int \<Rightarrow> int \<Rightarrow> 64 word \<Rightarrow> 'r sync_point \<Rightarrow> bool" where
  "sync_matches L ctype mode master nodeslist p \<longleftrightarrow> resource_is_used L (sy_resource p)
    \<and> (if ctype = VSYNC_TYPE_INPUT then resource_is_readable L (sy_resource p) else resource_is_writable L (sy_resource p))
    \<and> sy_mode p = mode \<and> sy_master p = master \<and> sy_nodeslist p = nodeslist"

lemma set_point_simps [simp]:
  "vsynctab (set_point i f S) = (vsynctab S)[i := f (vsynctab S ! i)]" "vsync_counters (set_point i f S) = vsync_counters S"
  "sync_hw (set_point i f S) = sync_hw S"
  by (simp_all add: set_point_def)

lemma set_resources_update:
  "vsynctab (set_resources ((map sy_resource (vsynctab S))[i := r]) S) = (vsynctab S)[i := (vsynctab S ! i)\<lparr>sy_resource := r\<rparr>]"
proof (rule nth_equalityI, goal_cases)
  case (2 j)
  then show ?case by (cases "j = i") (auto simp: set_resources_def)
qed (simp add: set_resources_def)

lemma set_resources_same: "set_resources (map sy_resource (vsynctab S)) S = S"
proof -
  have "vsynctab (set_resources (map sy_resource (vsynctab S)) S) = vsynctab S"
    by (auto simp: set_resources_def list_eq_iff_nth_eq)
  then show ?thesis by (simp add: set_resources_def)
qed

lemma set_resources_simps [simp]:
  "vsync_counters (set_resources rs S) = vsync_counters S" "sync_hw (set_resources rs S) = sync_hw S"
  by (simp_all add: set_resources_def)

lemma pool_allocE:
  assumes "pool_laws L P" "resource_alloc P rs = (i, rs')"
  obtains (full) "i < 0" "rs' = rs" "\<forall>r \<in> set rs. resource_is_used L r"
  | (free) r where "0 \<le> i" "i < int (length rs)" "\<not> resource_is_used L (rs ! nat i)" "rs' = rs[nat i := r]"
      "resource_is_used L r" "\<not> resource_is_busy L r"
proof -
  have "if i < 0 then rs' = rs \<and> (\<forall>r \<in> set rs. resource_is_used L r)
      else i < int (length rs) \<and> \<not> resource_is_used L (rs ! nat i)
        \<and> (\<exists>r. rs' = rs[nat i := r] \<and> resource_is_used L r \<and> \<not> resource_is_busy L r)"
    using assms(1) unfolding pool_laws_def by (elim conjE allE [of _ rs]) (simp only: assms(2) prod.case)
  then show thesis using full free by (cases "i < 0") auto
qed

lemma pool_freeE:
  assumes "pool_laws L P" "0 \<le> i" "i < int (length rs)"
  obtains r where "resource_free P rs i = rs[nat i := r]" "\<not> resource_is_used L r"
  using assms unfolding pool_laws_def by blast

lemma sync_search_cases:
  obtains (found) i where "do_sync_search L master nodeslist mode ctype S = int i" "i < length (vsynctab S)"
      "sync_matches L ctype mode master nodeslist (vsynctab S ! i)"
  | (none) "do_sync_search L master nodeslist mode ctype S = - 1"
      "\<forall>i < length (vsynctab S). \<not> sync_matches L ctype mode master nodeslist (vsynctab S ! i)"
proof -
  have eq: "do_sync_search L master nodeslist mode ctype S =
      (case first_index (sync_matches L ctype mode master nodeslist) (vsynctab S) of None \<Rightarrow> - 1 | Some i \<Rightarrow> int i)"
    unfolding do_sync_search_def sync_matches_def [abs_def] by (rule refl)
  show thesis
  proof (cases "first_index (sync_matches L ctype mode master nodeslist) (vsynctab S)")
    case None
    then have "do_sync_search L master nodeslist mode ctype S = - 1" by (simp add: eq)
    then show thesis using none None by (simp add: first_index_None_nth)
  next
    case (Some i)
    then show thesis using found [of i] first_index_SomeD [OF Some] by (simp add: eq)
  qed
qed

lemma sync_alloc_cases:
  assumes laws: "klib_laws L" "pool_laws L P" and run: "do_sync_alloc L P nodes nnodes mode ctype do_alloc S = Some (r, S')"
  obtains (shared) i where "r = int i" "i < length (vsynctab S)" "resource_is_used L (sy_resource (vsynctab S ! i))"
      "S' = set_point i (\<lambda>p. p\<lparr>sy_refcount := sy_refcount p + 1\<rparr>) S"
      "if ctype = VSYNC_TYPE_INPUT then resource_is_readable L (sy_resource (vsynctab S ! i))
       else resource_is_writable L (sy_resource (vsynctab S ! i))"
  | (full) "r = - EAGAIN" "S' = S" "\<forall>p \<in> set (vsynctab S). resource_is_used L (sy_resource p)"
  | (failed) i q where "r < 0" "i < length (vsynctab S)" "\<not> resource_is_used L (sy_resource (vsynctab S ! i))"
      "vsynctab S' = (vsynctab S)[i := q]" "\<not> resource_is_used L (sy_resource q)"
  | (new) i q master nodeslist where "r = int i" "i < length (vsynctab S)" "\<not> resource_is_used L (sy_resource (vsynctab S ! i))"
      "vsynctab S' = (vsynctab S)[i := q]" "sync_matches L ctype mode master nodeslist q" "\<not> resource_is_busy L (sy_resource q)"
      "resource_is_readable L (sy_resource q) = (ctype = VSYNC_TYPE_INPUT)"
      "resource_is_writable L (sy_resource q) = (ctype \<noteq> VSYNC_TYPE_INPUT)" "sy_refcount q = 1"
      "\<forall>j < length (vsynctab S). \<not> sync_matches L ctype mode master nodeslist (vsynctab S ! j)"
proof -
  obtain nodeslist master where pre: "sync_build_nodeslist nodes nnodes = Some nodeslist" "fetch nodes 0 = Some master"
    using run by (auto simp: do_sync_alloc_def bind_eq_Some_conv)
  show thesis
  proof (cases rule: sync_search_cases [of L master nodeslist mode ctype S])
    case (found i)
    then show thesis using run pre by (intro shared [of i]) (auto simp: do_sync_alloc_def sync_matches_def)
  next
    case none
    obtain k rs where al: "resource_alloc P (map sy_resource (vsynctab S)) = (k, rs)" by fastforce
    from laws(2) al show thesis
    proof (cases rule: pool_allocE)
      case full
      then show thesis
        using run pre none(1) al by (intro that(2)) (auto simp: do_sync_alloc_def set_resources_same)
    next
      case (free res)
      obtain fd h where dev: "do_alloc nodes nnodes mode (sync_hw S) = (fd, h)" by fastforce
      define i where "i = nat k"
      define T where "T = (set_resources rs S)\<lparr>sync_hw := h\<rparr>"
      have i: "i < length (vsynctab S)" "k = int i" "\<not> resource_is_used L (sy_resource (vsynctab S ! i))"
        using free by (auto simp: i_def nat_less_iff)
      have tab: "vsynctab T = (vsynctab S)[i := (vsynctab S ! i)\<lparr>sy_resource := res\<rparr>]"
        using set_resources_update [of S i res] by (simp add: free(4) T_def i_def)
      have run': "Some (r, S') = (if fd < 0 then Some (fd, set_resources (resource_free P (map sy_resource (vsynctab T)) k) T)
          else let T = set_point i (\<lambda>p. p\<lparr>sy_refcount := 1, sy_hwfd := fd, sy_mode := mode,
                        sy_master := master, sy_nodeslist := nodeslist, sy_latency := 0\<rparr>) T; c = vsync_counters T
               in if ctype = 0
                  then Some (k, (set_point i (\<lambda>p. p\<lparr>sy_resource := resource_set_rdonly L (sy_resource p)\<rparr>) T)
                       \<lparr>vsync_counters := c\<lparr>sy_ncreates := sy_ncreates c + 1\<rparr>\<rparr>)
                  else Some (k, (set_point i (\<lambda>p. p\<lparr>sy_resource := resource_set_wronly L (sy_resource p)\<rparr>) T)
                       \<lparr>vsync_counters := c\<lparr>sy_nopens := sy_nopens c + 1\<rparr>\<rparr>))"
        unfolding run [symmetric] do_sync_alloc_def pre Option.bind.simps none(1) al Let_def prod.case set_resources_simps dev
          T_def i_def
        using free(1) by simp
      show thesis
      proof (cases "fd < 0")
        case True
        have "k < int (length (map sy_resource (vsynctab T)))" using i(1,2) by (simp add: tab)
        from pool_freeE [OF laws(2) free(1) this] obtain q where
            q: "resource_free P (map sy_resource (vsynctab T)) k = (map sy_resource (vsynctab T))[i := q]" "\<not> resource_is_used L q"
          unfolding i_def by blast
        have S': "r = fd" "S' = set_resources ((map sy_resource (vsynctab T))[i := q]) T"
          using run' True by (simp_all add: q(1))
        have "vsynctab S' = (vsynctab S)[i := (vsynctab S ! i)\<lparr>sy_resource := q\<rparr>]"
          unfolding S'(2) set_resources_update using i(1) by (simp add: tab)
        then show thesis using True q(2) i S'(1) by (intro failed [of i "(vsynctab S ! i)\<lparr>sy_resource := q\<rparr>"]) auto
      next
        case False
        let ?q = "(vsynctab S ! i)\<lparr>sy_refcount := 1, sy_hwfd := fd, sy_mode := mode, sy_master := master, sy_nodeslist := nodeslist,
          sy_latency := 0, sy_resource := (if ctype = 0 then resource_set_rdonly L else resource_set_wronly L) res\<rparr>"
        have "r = k" "vsynctab S' = (vsynctab S)[i := ?q]"
          using run' False i(1) by (cases "ctype = 0"; simp add: Let_def tab)+
        then show thesis
          using i none(2) free(5,6) laws(1) by (intro new [of i ?q master nodeslist]) (auto simp: sync_matches_def)
      qed
    qed
  qed
qed

lemma sync_release_cases:
  assumes laws: "pool_laws L P" and run: "do_sync_release L P k ctype do_release S = Some (r, S')"
  obtains (refused) i e where "k = int i" "i < length (vsynctab S)" "sync_refused L ctype (vsynctab S ! i) = Some e" "r = e" "S' = S"
  | (kept) i where "k = int i" "i < length (vsynctab S)" "sync_refused L ctype (vsynctab S ! i) = None"
      "vsynctab S' = (vsynctab S)[i := (vsynctab S ! i)\<lparr>sy_refcount := sy_refcount (vsynctab S ! i) - 1\<rparr>]"
      "if sy_refcount (vsynctab S ! i) = 1 then do_release (sy_hwfd (vsynctab S ! i)) (sync_hw S) = (r, sync_hw S') \<and> r < 0
       else r = 0 \<and> sync_hw S' = sync_hw S"
      "vsync_counters S' = vsync_counters S"
  | (freed) i q ret where "k = int i" "i < length (vsynctab S)" "sync_refused L ctype (vsynctab S ! i) = None"
      "sy_refcount (vsynctab S ! i) = 1" "do_release (sy_hwfd (vsynctab S ! i)) (sync_hw S) = (ret, sync_hw S')" "0 \<le> ret" "r = 0"
      "vsynctab S' = (vsynctab S)[i := q]" "\<not> resource_is_used L (sy_resource q)"
proof -
  obtain i where k: "k = int i" "i < length (vsynctab S)" "fetch (vsynctab S) k = Some (vsynctab S ! i)"
    using run by (cases "k < 0") (auto simp: do_sync_release_def bind_eq_Some_conv fetch_def split: if_splits intro: that [of "nat k"])
  let ?p = "vsynctab S ! i"
  let ?S = "set_point i (\<lambda>p. p\<lparr>sy_refcount := sy_refcount p - 1\<rparr>) S"
  show thesis
  proof (cases "sync_refused L ctype ?p")
    case (Some e)
    then show thesis using refused [of i] k run by (auto simp: do_sync_release_def)
  next
    case None
    obtain ret h where dev: "do_release (sy_hwfd ?p) (sync_hw S) = (ret, h)" by fastforce
    consider "sy_refcount ?p \<noteq> 1" | "sy_refcount ?p = 1" "ret < 0" | "sy_refcount ?p = 1" "0 \<le> ret" by linarith
    then show thesis
    proof cases
      case 1
      then have "r = 0" "S' = ?S" using run k None by (auto simp: do_sync_release_def Let_def)
      then show thesis using 1 k None by (intro kept [of i]) auto
    next
      case 2
      then have "r = ret" "S' = ?S\<lparr>sync_hw := h\<rparr>" using run k None dev by (auto simp: do_sync_release_def Let_def)
      then show thesis using 2 k None dev by (intro kept [of i]) auto
    next
      case 3
      define T where "T = (set_point i (\<lambda>p. p\<lparr>sy_hwfd := - 1, sy_master := - 1, sy_nodeslist := 0\<rparr>) (?S\<lparr>sync_hw := h\<rparr>))
        \<lparr>vsync_counters := if ctype = 0 then (vsync_counters S)\<lparr>sy_nunlinks := sy_nunlinks (vsync_counters S) + 1\<rparr>
                          else (vsync_counters S)\<lparr>sy_ncloses := sy_ncloses (vsync_counters S) + 1\<rparr>\<rparr>"
      have run': "r = 0" "S' = set_resources (resource_free P (map sy_resource (vsynctab T)) k) T"
        using 3 run k None dev by (auto simp: do_sync_release_def Let_def T_def)
      have "0 \<le> k" "k < int (length (map sy_resource (vsynctab T)))" using k by (simp_all add: T_def)
      then obtain q where q: "resource_free P (map sy_resource (vsynctab T)) k = (map sy_resource (vsynctab T))[i := q]"
          "\<not> resource_is_used L q"
        using pool_freeE [OF laws, of k "map sy_resource (vsynctab T)"] k(1) by auto
      have "vsynctab S' = (vsynctab S)[i := (vsynctab T ! i)\<lparr>sy_resource := q\<rparr>]" "sync_hw S' = h"
        unfolding run'(2) q(1) set_resources_update by (simp_all add: T_def)
      then show thesis using 3 k None dev run'(1) q(2) by (intro freed [of i]) auto
    qed
  qed
qed

section \<open>Points are unique and stay while in use\<close>

definition same_point :: "'r klib \<Rightarrow> 'r sync_point \<Rightarrow> 'r sync_point \<Rightarrow> bool" where
  "same_point L p q \<longleftrightarrow> resource_is_used L (sy_resource p) \<and> resource_is_used L (sy_resource q)
    \<and> (resource_is_readable L (sy_resource p) \<and> resource_is_readable L (sy_resource q)
      \<or> resource_is_writable L (sy_resource p) \<and> resource_is_writable L (sy_resource q))
    \<and> sy_mode p = sy_mode q \<and> sy_master p = sy_master q \<and> sy_nodeslist p = sy_nodeslist q"

definition points_unique :: "'r klib \<Rightarrow> 'r sync_point list \<Rightarrow> bool" where
  "points_unique L tab \<longleftrightarrow> (\<forall>i < length tab. \<forall>j < length tab. same_point L (tab ! i) (tab ! j) \<longrightarrow> i = j)"

text \<open>An operation in flight: the point, its direction and the device's descriptor it was handed.\<close>

type_synonym flight = "nat \<times> int \<times> int"

definition flight_ok :: "'r klib \<Rightarrow> 'r sync_point list \<Rightarrow> flight list \<Rightarrow> bool" where
  "flight_ok L tab F \<longleftrightarrow> distinct (map fst F)
    \<and> (\<forall>(i, ctype, fd) \<in> set F. i < length tab \<and> resource_is_used L (sy_resource (tab ! i))
        \<and> resource_is_busy L (sy_resource (tab ! i)) \<and> sy_hwfd (tab ! i) = fd)
    \<and> (\<forall>i < length tab. resource_is_used L (sy_resource (tab ! i)) \<and> resource_is_busy L (sy_resource (tab ! i)) \<longrightarrow> i \<in> fst ` set F)"

inductive sync_step ::
  "'r klib \<Rightarrow> 'r resource_pool \<Rightarrow> 'h sync_hal \<Rightarrow> ('r, 'h) vsync \<times> flight list \<Rightarrow> ('r, 'h) vsync \<times> flight list \<Rightarrow> bool"
  for L P D where
  create: "do_vsync_create L P D nodes nnodes mode S = Some (r, S') \<Longrightarrow> sync_step L P D (S, F) (S', F)"
| open_point: "do_vsync_open L P D nodes nnodes mode S = Some (r, S') \<Longrightarrow> sync_step L P D (S, F) (S', F)"
| unlink: "do_vsync_unlink L P D i S = Some (r, S') \<Longrightarrow> sync_step L P D (S, F) (S', F)"
| close_point: "do_vsync_close L P D i S = Some (r, S') \<Longrightarrow> sync_step L P D (S, F) (S', F)"
| begin_operation: "sync_operate_begin L i ctype S = Some (None, S') \<Longrightarrow>
    sync_step L P D (S, F) (S', (nat i, ctype, sy_hwfd (vsynctab S ! nat i)) # F)"
| end_operation: "(i, ctype, fd) \<in> set F \<Longrightarrow>
    sync_step L P D (S, F) (sync_operate_end L (int i) ctype ret dt (S\<lparr>sync_hw := h\<rparr>), filter (\<lambda>x. fst x \<noteq> i) F)"

lemma points_unique_update:
  assumes "points_unique L tab" "\<And>j. j < length tab \<Longrightarrow> j \<noteq> i \<Longrightarrow> \<not> same_point L q (tab ! j)"
  shows "points_unique L (tab[i := q])"
proof -
  have sym: "same_point L p p' \<Longrightarrow> same_point L p' p" for p p' by (auto simp: same_point_def)
  show ?thesis
    unfolding points_unique_def length_list_update
  proof (intro allI impI)
    fix j k
    assume jk: "j < length tab" "k < length tab" "same_point L (tab[i := q] ! j) (tab[i := q] ! k)"
    show "j = k"
      using jk assms(2) [of j] assms(2) [of k] sym [of "tab ! j" q] assms(1)
      by (cases "i = j"; cases "i = k") (auto simp: points_unique_def)
  qed
qed

lemma points_unique_same:
  assumes "points_unique L tab" "i < length tab" "\<And>p. same_point L q p \<Longrightarrow> same_point L (tab ! i) p"
  shows "points_unique L (tab[i := q])"
  by (rule points_unique_update [OF assms(1)]) (use assms in \<open>auto simp: points_unique_def\<close>)

lemma flight_update:
  assumes "flight_ok L tab F" "i < length tab" "\<not> (resource_is_used L (sy_resource (tab ! i)) \<and> resource_is_busy L (sy_resource (tab ! i)))"
    "\<not> (resource_is_used L (sy_resource q) \<and> resource_is_busy L (sy_resource q))"
  shows "flight_ok L (tab[i := q]) F"
  using assms unfolding flight_ok_def by (auto simp: nth_list_update)

lemma flight_same:
  assumes "flight_ok L tab F" "i < length tab" "sy_resource q = sy_resource (tab ! i)" "sy_hwfd q = sy_hwfd (tab ! i)"
  shows "flight_ok L (tab[i := q]) F"
  using assms unfolding flight_ok_def by (auto simp: nth_list_update split: if_splits)

abbreviation sync_ok :: "'r klib \<Rightarrow> ('r, 'h) vsync \<times> flight list \<Rightarrow> bool" where
  "sync_ok L \<equiv> \<lambda>(S, F). points_unique L (vsynctab S) \<and> flight_ok L (vsynctab S) F"

lemma sync_alloc_ok:
  assumes "klib_laws L" "pool_laws L P" "do_sync_alloc L P nodes nnodes mode ctype do_alloc S = Some (r, S')" "sync_ok L (S, F)"
  shows "sync_ok L (S', F)"
  using assms(1-3)
proof (cases rule: sync_alloc_cases)
  case (shared i)
  then show ?thesis
    using assms(4) by (auto simp: same_point_def intro: points_unique_same flight_same)
next
  case full
  then show ?thesis using assms(4) by simp
next
  case (failed i q)
  then show ?thesis
    using assms(4) by (auto simp: same_point_def intro: points_unique_update flight_update)
next
  case (new i q master nodeslist)
  have "points_unique L ((vsynctab S)[i := q])"
  proof (rule points_unique_update)
    show "\<not> same_point L q (vsynctab S ! j)" if "j < length (vsynctab S)" for j
      using new that by (auto simp: same_point_def sync_matches_def split: if_splits)
  qed (use assms(4) in simp)
  then show ?thesis using assms(4) new by (auto intro: flight_update)
qed

lemma sync_refused_None:
  "sync_refused L ctype p = None \<longleftrightarrow> resource_is_used L (sy_resource p) \<and> \<not> resource_is_busy L (sy_resource p)
    \<and> (if ctype = VSYNC_TYPE_INPUT then resource_is_readable L (sy_resource p) else resource_is_writable L (sy_resource p))"
  by (simp add: sync_refused_def)

lemma sync_release_ok:
  assumes "pool_laws L P" "do_sync_release L P k ctype do_release S = Some (r, S')" "sync_ok L (S, F)"
  shows "sync_ok L (S', F)"
  using assms(1,2)
proof (cases rule: sync_release_cases)
  case (kept i)
  then show ?thesis
    using assms(3) by (auto simp: same_point_def intro: points_unique_same flight_same)
next
  case (freed i q ret)
  then show ?thesis
    using assms(3) by (auto simp: same_point_def sync_refused_None intro: points_unique_update flight_update)
qed (use assms(3) in auto)

lemma sync_begin_ok:
  assumes laws: "klib_laws L" and run: "sync_operate_begin L k ctype S = Some (None, S')" and ok: "sync_ok L (S, F)"
  shows "sync_ok L (S', (nat k, ctype, sy_hwfd (vsynctab S ! nat k)) # F)"
proof -
  let ?p = "vsynctab S ! nat k" and ?q = "(vsynctab S ! nat k)\<lparr>sy_resource := resource_set_busy L (sy_resource (vsynctab S ! nat k))\<rparr>"
  have k: "nat k < length (vsynctab S)" "sync_refused L ctype ?p = None" "vsynctab S' = (vsynctab S)[nat k := ?q]"
    using run by (auto simp: sync_operate_begin_def bind_eq_Some_conv fetch_Some_iff nat_less_iff split: option.splits)
  have p: "resource_is_used L (sy_resource ?p)" "\<not> resource_is_busy L (sy_resource ?p)" using k(2) by (auto simp: sync_refused_None)
  have "points_unique L (vsynctab S')"
    unfolding k(3) by (rule points_unique_same) (use ok k laws in \<open>auto simp: same_point_def\<close>)
  moreover have "flight_ok L (vsynctab S') ((nat k, ctype, sy_hwfd ?p) # F)"
    unfolding flight_ok_def k(3) length_list_update
  proof (intro conjI)
    have F: "distinct (map fst F)" "\<And>i t fd. (i, t, fd) \<in> set F \<Longrightarrow> i < length (vsynctab S) \<and> resource_is_used L (sy_resource (vsynctab S ! i))
        \<and> resource_is_busy L (sy_resource (vsynctab S ! i)) \<and> sy_hwfd (vsynctab S ! i) = fd"
      using ok by (auto simp: flight_ok_def)
    have new: "nat k \<notin> fst ` set F" using F(2) p(2) by fastforce
    then show "distinct (map fst ((nat k, ctype, sy_hwfd ?p) # F))" using F(1) by simp
    show "\<forall>(i, t, fd) \<in> set ((nat k, ctype, sy_hwfd ?p) # F). i < length (vsynctab S)
        \<and> resource_is_used L (sy_resource ((vsynctab S)[nat k := ?q] ! i))
        \<and> resource_is_busy L (sy_resource ((vsynctab S)[nat k := ?q] ! i)) \<and> sy_hwfd ((vsynctab S)[nat k := ?q] ! i) = fd"
      using F(2) k(1) p laws by (auto simp: nth_list_update)
    show "\<forall>i < length (vsynctab S). resource_is_used L (sy_resource ((vsynctab S)[nat k := ?q] ! i))
        \<and> resource_is_busy L (sy_resource ((vsynctab S)[nat k := ?q] ! i)) \<longrightarrow> i \<in> fst ` set ((nat k, ctype, sy_hwfd ?p) # F)"
      using ok by (auto simp: flight_ok_def nth_list_update)
  qed
  ultimately show ?thesis by simp
qed

lemma sync_end_tab:
  assumes "i < length (vsynctab S)"
  shows "\<exists>l. vsynctab (sync_operate_end L (int i) ctype ret dt S) = (vsynctab S)[i := (vsynctab S ! i)
    \<lparr>sy_latency := l, sy_resource := resource_set_notbusy L (sy_resource (vsynctab S ! i))\<rparr>]"
proof (cases "ret \<ge> 0")
  case True
  then show ?thesis
    using assms by (intro exI [of _ "sy_latency (vsynctab S ! i) + dt"]) (simp add: sync_operate_end_def Let_def)
next
  case False
  then show ?thesis
    using assms by (intro exI [of _ "sy_latency (vsynctab S ! i)"]) (simp add: sync_operate_end_def Let_def)
qed

lemma sync_end_ok:
  assumes laws: "klib_laws L" and ok: "sync_ok L (S, F)" and i: "(i, ctype, fd) \<in> set F"
  shows "sync_ok L (sync_operate_end L (int i) ctype ret dt (S\<lparr>sync_hw := h\<rparr>), filter (\<lambda>x. fst x \<noteq> i) F)"
proof -
  have il: "i < length (vsynctab S)" using ok i by (auto simp: flight_ok_def)
  obtain l where tab: "vsynctab (sync_operate_end L (int i) ctype ret dt (S\<lparr>sync_hw := h\<rparr>)) = (vsynctab S)[i := (vsynctab S ! i)
      \<lparr>sy_latency := l, sy_resource := resource_set_notbusy L (sy_resource (vsynctab S ! i))\<rparr>]" (is "_ = (vsynctab S)[i := ?q]")
    using sync_end_tab [of i "S\<lparr>sync_hw := h\<rparr>"] il by fastforce
  have "points_unique L ((vsynctab S)[i := ?q])"
    by (rule points_unique_same) (use ok il laws in \<open>auto simp: same_point_def\<close>)
  moreover have "flight_ok L ((vsynctab S)[i := ?q]) (filter (\<lambda>x. fst x \<noteq> i) F)"
    unfolding flight_ok_def length_list_update
  proof (intro conjI)
    have F: "distinct (map fst F)" "\<And>j t fd. (j, t, fd) \<in> set F \<Longrightarrow> j < length (vsynctab S) \<and> resource_is_used L (sy_resource (vsynctab S ! j))
        \<and> resource_is_busy L (sy_resource (vsynctab S ! j)) \<and> sy_hwfd (vsynctab S ! j) = fd"
      "\<And>j. j < length (vsynctab S) \<Longrightarrow> resource_is_used L (sy_resource (vsynctab S ! j)) \<Longrightarrow>
        resource_is_busy L (sy_resource (vsynctab S ! j)) \<Longrightarrow> j \<in> fst ` set F"
      using ok by (auto simp: flight_ok_def)
    show "distinct (map fst (filter (\<lambda>x. fst x \<noteq> i) F))" using F(1) by (rule distinct_map_filter)
    show "\<forall>(j, t, fd) \<in> set (filter (\<lambda>x. fst x \<noteq> i) F). j < length (vsynctab S)
        \<and> resource_is_used L (sy_resource ((vsynctab S)[i := ?q] ! j))
        \<and> resource_is_busy L (sy_resource ((vsynctab S)[i := ?q] ! j)) \<and> sy_hwfd ((vsynctab S)[i := ?q] ! j) = fd"
      using F(2) by (auto simp: nth_list_update)
    have keep: "j \<in> fst ` set (filter (\<lambda>x. fst x \<noteq> i) F)" if "j \<in> fst ` set F" "j \<noteq> i" for j using that by force
    show "\<forall>j < length (vsynctab S). resource_is_used L (sy_resource ((vsynctab S)[i := ?q] ! j))
        \<and> resource_is_busy L (sy_resource ((vsynctab S)[i := ?q] ! j)) \<longrightarrow> j \<in> fst ` set (filter (\<lambda>x. fst x \<noteq> i) F)"
    proof (intro allI impI)
      fix j
      assume "j < length (vsynctab S)" "resource_is_used L (sy_resource ((vsynctab S)[i := ?q] ! j))
        \<and> resource_is_busy L (sy_resource ((vsynctab S)[i := ?q] ! j))"
      then show "j \<in> fst ` set (filter (\<lambda>x. fst x \<noteq> i) F)"
        using keep F(3) il laws by (cases "j = i") auto
    qed
  qed
  ultimately show ?thesis by (simp add: tab)
qed

lemma sync_reachable_ok:
  assumes laws: "klib_laws L" "pool_laws L P"
  shows "(sync_step L P D)\<^sup>*\<^sup>* X Y \<Longrightarrow> sync_ok L X \<Longrightarrow> sync_ok L Y"
proof (induction rule: rtranclp_induct)
  case (step Y Z)
  from step.hyps(2) step.IH [OF step.prems] show ?case
  proof cases
    case (create nodes nnodes mode S r S' F)
    then show ?thesis using sync_alloc_ok [OF laws] step.IH [OF step.prems] by (simp add: do_vsync_create_def) blast
  next
    case (open_point nodes nnodes mode S r S' F)
    then show ?thesis using sync_alloc_ok [OF laws] step.IH [OF step.prems] by (simp add: do_vsync_open_def) blast
  next
    case (unlink i S r S' F)
    then show ?thesis using sync_release_ok [OF laws(2)] step.IH [OF step.prems] by (simp add: do_vsync_unlink_def) blast
  next
    case (close_point i S r S' F)
    then show ?thesis using sync_release_ok [OF laws(2)] step.IH [OF step.prems] by (simp add: do_vsync_close_def) blast
  next
    case (begin_operation i ctype S S' F)
    then show ?thesis using sync_begin_ok [OF laws(1) begin_operation(3), of F] step.IH [OF step.prems] by simp
  next
    case (end_operation i ctype fd F S ret dt h)
    then show ?thesis using sync_end_ok [OF laws(1) _ end_operation(3)] step.IH [OF step.prems] by simp
  qed
qed

section \<open>Properties\<close>

lemma sync_init_ok: "klib_laws L \<Longrightarrow> sync_ok L (vsync_init L S, [])"
  by (auto simp: vsync_init_def points_unique_def same_point_def flight_ok_def)

lemma release_refused:
  assumes "i < length (vsynctab S)" "sync_refused L ctype (vsynctab S ! i) = Some e"
  shows "do_sync_release L P (int i) ctype do_release S = Some (e, S)"
  using assms by (simp add: do_sync_release_def fetch_def)

text \<open>(C8) Whatever calls on synchronisation points run, with their waiting and signalling
  interleaved with any other calls: no two used points of one direction have the same
  mode, master and nodes; and while the device works for a call on a point, the point
  stays used with the descriptor that the device was handed, and releasing it is refused
  and changes nothing.\<close>

theorem sync_points_safe:
  assumes laws: "klib_laws L" "pool_laws L P" and reach: "(sync_step L P D)\<^sup>*\<^sup>* (vsync_init L S, []) (S1, F)"
  shows "(i < length (vsynctab S1) \<and> j < length (vsynctab S1) \<and> same_point L (vsynctab S1 ! i) (vsynctab S1 ! j) \<longrightarrow> i = j)
    \<and> ((i, ctype, fd) \<in> set F \<longrightarrow> i < length (vsynctab S1) \<and> resource_is_used L (sy_resource (vsynctab S1 ! i))
        \<and> sy_hwfd (vsynctab S1 ! i) = fd
        \<and> (\<exists>e < 0. do_vsync_unlink L P D (int i) S1 = Some (e, S1)) \<and> (\<exists>e < 0. do_vsync_close L P D (int i) S1 = Some (e, S1)))"
proof -
  have ok: "points_unique L (vsynctab S1)" "flight_ok L (vsynctab S1) F"
    using sync_reachable_ok [OF laws reach sync_init_ok [OF laws(1)]] by simp_all
  have "\<exists>e < 0. do_sync_release L P (int i) t rel S1 = Some (e, S1)" if "(i, ctype, fd) \<in> set F" for t rel
  proof -
    have "i < length (vsynctab S1)" "resource_is_busy L (sy_resource (vsynctab S1 ! i))" using ok(2) that by (auto simp: flight_ok_def)
    moreover from this(2) have "\<exists>e < 0. sync_refused L t (vsynctab S1 ! i) = Some e" by (simp add: sync_refused_def)
    ultimately show ?thesis using release_refused by blast
  qed
  then show ?thesis
    using ok by (auto simp: points_unique_def flight_ok_def do_vsync_unlink_def do_vsync_close_def)
qed

text \<open>A pool that takes the first free entry, over the flags of the sample resources; a device
  that counts the points it holds.\<close>

definition sample_respool :: "sample_resource resource_pool" where
  "sample_respool =
    \<lparr>resource_alloc = \<lambda>rs. (case first_index (\<lambda>r. \<not> resource_is_used sample_klib r) rs of
        None \<Rightarrow> (- 1, rs) | Some i \<Rightarrow> (int i, rs[i := resource_set_used sample_klib (RESOURCE_INITIALIZER sample_klib)])),
     resource_free = \<lambda>rs i. rs[nat i := RESOURCE_INITIALIZER sample_klib]\<rparr>"

definition sample_sync :: "nat sync_hal" where
  "sample_sync = \<lparr>sync_create = \<lambda>_ _ _ h. (5, h + 1), sync_open = \<lambda>_ _ _ h. (6, h + 1),
     sync_unlink = \<lambda>_ h. (if h = 0 then - EAGAIN else 0, h - 1), sync_close = \<lambda>_ h. (0, h - 1),
     sync_wait = \<lambda>_ h. (0, h), sync_signal = \<lambda>_ h. (0, h)\<rparr>"

definition sample_points :: "(sample_resource, nat) vsync" where
  "sample_points = vsync_init sample_klib \<lparr>vsynctab = replicate 4 \<lparr>sy_resource = (False, False, False, False), sy_hwfd = 0,
     sy_refcount = 0, sy_mode = 0, sy_master = 0, sy_nodeslist = 0, sy_latency = 0\<rparr>,
     vsync_counters = \<lparr>sy_ncreates = 0, sy_nunlinks = 0, sy_nopens = 0, sy_ncloses = 0, sy_nwaits = 0, sy_nsignals = 0\<rparr>, sync_hw = 0\<rparr>"

lemma sample_pool_laws: "pool_laws sample_klib sample_respool"
proof -
  have "case resource_alloc sample_respool rs of (i, rs') \<Rightarrow>
      if i < 0 then rs' = rs \<and> (\<forall>r \<in> set rs. resource_is_used sample_klib r)
      else i < int (length rs) \<and> \<not> resource_is_used sample_klib (rs ! nat i)
        \<and> (\<exists>r. rs' = rs[nat i := r] \<and> resource_is_used sample_klib r \<and> \<not> resource_is_busy sample_klib r)" for rs
  proof (cases "first_index (\<lambda>r. \<not> resource_is_used sample_klib r) rs")
    case None
    then have "resource_alloc sample_respool rs = (- 1, rs)" by (simp add: sample_respool_def)
    then show ?thesis using None by (simp add: first_index_None_iff)
  next
    case (Some i)
    let ?r = "resource_set_used sample_klib (RESOURCE_INITIALIZER sample_klib)"
    have "resource_alloc sample_respool rs = (int i, rs[i := ?r])" using Some by (simp add: sample_respool_def)
    moreover have "resource_is_used sample_klib ?r" "\<not> resource_is_busy sample_klib ?r" using sample_klib_laws by simp_all
    ultimately show ?thesis using first_index_SomeD [OF Some] by (simp del: split_paired_Ex) (blast intro: exI [of _ ?r])
  qed
  moreover have "\<exists>r. resource_free sample_respool rs i = rs[nat i := r] \<and> \<not> resource_is_used sample_klib r" for rs i
    by (rule exI [of _ "RESOURCE_INITIALIZER sample_klib"])
      (simp add: sample_respool_def klib_resource(1) [OF sample_klib_laws])
  ultimately show ?thesis by (simp add: pool_laws_def)
qed

text \<open>A point of node 0 with node 1, on which a wait has begun.\<close>

definition sample_created :: "(sample_resource, nat) vsync" where
  "sample_created = snd (the (do_vsync_create sample_klib sample_respool sample_sync [0, 1] 2 0 sample_points))"

definition sample_waiting :: "(sample_resource, nat) vsync" where
  "sample_waiting = snd (the (sync_operate_begin sample_klib 0 0 sample_created))"

lemma sample_created_eq: "do_vsync_create sample_klib sample_respool sample_sync [0, 1] 2 0 sample_points = Some (0, sample_created)"
proof -
  have "map_option fst (do_vsync_create sample_klib sample_respool sample_sync [0, 1] 2 0 sample_points) = Some 0" by code_simp
  then show ?thesis by (auto simp: sample_created_def)
qed

theorem sync_points_safe_witness:
  "(sync_step sample_klib sample_respool sample_sync)\<^sup>*\<^sup>* (sample_points, []) (sample_waiting, [(0, 0, 5)])
    \<and> (\<exists>e < 0. do_vsync_unlink sample_klib sample_respool sample_sync 0 sample_waiting = Some (e, sample_waiting))"
proof -
  have "map_option fst (sync_operate_begin sample_klib 0 0 sample_created) = Some None" by code_simp
  then have start: "sync_operate_begin sample_klib 0 0 sample_created = Some (None, sample_waiting)" by (auto simp: sample_waiting_def)
  have "sy_hwfd (vsynctab sample_created ! 0) = 5" by code_simp
  then have reach: "(sync_step sample_klib sample_respool sample_sync)\<^sup>*\<^sup>* (sample_points, []) (sample_waiting, [(0, 0, 5)])"
    using sync_step.create [OF sample_created_eq, of "[]"] sync_step.begin_operation [OF start, of sample_respool sample_sync "[]"]
    by simp
  then show ?thesis
    using sync_points_safe [OF sample_klib_laws sample_pool_laws, of sample_sync _ sample_waiting "[(0, 0, 5)]" 0 0 0 5]
    by (auto simp: sample_points_def)
qed

text \<open>(C28) A point is shared by counting: creating a point that exists already and unlinking it
  again restores the whole state, the device untouched.  Creating a new point and
  unlinking it asks the device to release exactly the descriptor it gave; when the device
  agrees the entry is free again and no other entry has changed.\<close>

theorem sync_create_unlink:
  assumes laws: "klib_laws L" "pool_laws L P" and create: "do_vsync_create L P D nodes nnodes mode S = Some (int i, S1)"
    and idle: "\<not> resource_is_busy L (sy_resource (vsynctab S1 ! i))"
  shows "if resource_is_used L (sy_resource (vsynctab S ! i))
    then sy_refcount (vsynctab S ! i) \<noteq> 0 \<longrightarrow> do_vsync_unlink L P D (int i) S1 = Some (0, S)
    else \<exists>ret S2. do_vsync_unlink L P D (int i) S1 = Some (min ret 0, S2)
      \<and> sync_unlink D (sy_hwfd (vsynctab S1 ! i)) (sync_hw S1) = (ret, sync_hw S2)
      \<and> (0 \<le> ret \<longrightarrow> \<not> resource_is_used L (sy_resource (vsynctab S2 ! i)) \<and> (\<forall>j. j \<noteq> i \<longrightarrow> vsynctab S2 ! j = vsynctab S ! j))"
  using laws create [unfolded do_vsync_create_def]
proof (cases rule: sync_alloc_cases)
  case (shared k)
  have k: "k = i" "sync_refused L 0 (vsynctab S1 ! i) = None" using shared idle by (auto simp: sync_refused_None)
  have "do_vsync_unlink L P D (int i) S1 = Some (0, S)" if "sy_refcount (vsynctab S ! i) \<noteq> 0"
    using shared k that by (simp add: do_vsync_unlink_def do_sync_release_def fetch_def set_point_def)
  then show ?thesis using shared(3) unfolding k(1) by simp
next
  case (new k q master nodeslist)
  have k: "k = i" "vsynctab S1 ! i = q" "i < length (vsynctab S1)" "sync_refused L 0 q = None"
    using new by (auto simp: sync_refused_None sync_matches_def)
  obtain r S2 where run: "do_sync_release L P (int i) 0 (sync_unlink D) S1 = Some (r, S2)"
    using k by (cases "do_sync_release L P (int i) 0 (sync_unlink D) S1")
      (auto simp: do_sync_release_def fetch_def Let_def split: prod.splits if_splits)
  from laws(2) run show ?thesis
  proof (cases rule: sync_release_cases)
    case (kept l)
    have l: "l = i" using kept(1) by simp
    have "sync_unlink D (sy_hwfd q) (sync_hw S1) = (r, sync_hw S2)" "r < 0" using kept(5) new(9) unfolding l k(2) by simp_all
    then have "do_vsync_unlink L P D (int i) S1 = Some (min r 0, S2)" "sync_unlink D (sy_hwfd (vsynctab S1 ! i)) (sync_hw S1) = (r, sync_hw S2)"
      using run k(2) by (simp_all add: do_vsync_unlink_def)
    then show ?thesis using new(3) \<open>r < 0\<close> unfolding k(1) by force
  next
    case (freed l q' ret)
    have l: "l = i" using freed(1) by simp
    have "do_vsync_unlink L P D (int i) S1 = Some (min ret 0, S2)" using run freed(6,7) by (simp add: do_vsync_unlink_def)
    moreover have "vsynctab S2 = (vsynctab S)[i := q']" using freed(8) new(4) unfolding l k(1) by simp
    ultimately show ?thesis
      using new(2,3) freed(5,9) unfolding k(1) l by (intro iffD2 [OF if_not_P] exI [of _ ret] exI [of _ S2]) auto
  qed (use k in auto)
qed auto

theorem sync_create_unlink_witness:
  "\<exists>ret S2. do_vsync_unlink sample_klib sample_respool sample_sync 0 sample_created = Some (min ret 0, S2)
    \<and> sync_unlink sample_sync (sy_hwfd (vsynctab sample_created ! 0)) (sync_hw sample_created) = (ret, sync_hw S2)"
proof -
  have "\<not> resource_is_busy sample_klib (sy_resource (vsynctab sample_created ! 0))"
    "\<not> resource_is_used sample_klib (sy_resource (vsynctab sample_points ! 0))" by code_simp+
  then show ?thesis
    using sync_create_unlink [OF sample_klib_laws sample_pool_laws, of sample_sync "[0, 1]" 2 0 sample_points 0 sample_created]
      sample_created_eq by auto
qed

text \<open>A point that only the table still knows: used, idle, and with no references left to count.\<close>

definition sync_orphan :: "'r klib \<Rightarrow> nat \<Rightarrow> ('r, 'h) vsync \<Rightarrow> bool" where
  "sync_orphan L i S \<longleftrightarrow> i < length (vsynctab S) \<and> sync_refused L VSYNC_TYPE_INPUT (vsynctab S ! i) = None
    \<and> sy_refcount (vsynctab S ! i) \<le> 0"



end
