(* ===== verification/Thread.thy ===== *)
theory Thread
  imports Kpool Support
begin

text \<open>
  Threads, condition variables and semaphores: \<^verbatim>\<open>src/kernel/pm/thread/multithread.c\<close>,
  \<^verbatim>\<open>src/kernel/pm/thread/common.c\<close>, \<^verbatim>\<open>src/kernel/pm/cond.c\<close>,
  \<^verbatim>\<open>src/kernel/pm/semaphore.c\<close>, \<^verbatim>\<open>src/kernel/pm/sleep.c\<close> and the structures of
  \<^verbatim>\<open>include/nanvix/kernel/thread.h\<close>, for a cluster of several cores that support
  multithreading.

  A pointer to a thread is its index in the table, and the null pointer is
  \<^const>\<open>None\<close>; one field \<open>th_next\<close> links the threads of the schedule queue, the
  sleepers of a condition variable, and a thread to the zombie it has to reap, as in the
  source.  The core that runs an operation is its argument \<open>c\<close>.  An operation that
  blocks or switches contexts is split there: into the part up to \<open>core_sleep\<close> or
  \<open>context_switch_to\<close> and the part after it.  \<open>woken\<close> lists the calls of
  \<open>core_wakeup\<close> so far.  Thread identifiers and counts are unbounded integers.
\<close>

section \<open>Structures\<close>

datatype thread_state = NOT_STARTED | STARTED | RUNNING | SLEEPING | STOPPED | TERMINATED | ZOMBIE

record (overloaded) ('w :: len) thread =
  th_tid    :: int
  th_coreid :: int
  th_state  :: thread_state
  th_arg    :: "'w word"
  th_start  :: "'w word"
  th_ctx    :: "'w word"
  th_next   :: "nat option"

record semaphore =
  sem_count :: int
  sem_queue :: "nat option"

record (overloaded) ('w :: len, 'm) tm =
  threads         :: "'w thread list"
  joincond        :: "nat option list"
  nthreads        :: int
  next_tid        :: int
  ustacks         :: "'w word list"
  kstacks         :: "'w word list"
  sq_size         :: nat
  sq_head         :: "nat option"
  sq_tail         :: "nat option"
  sq_sem          :: semaphore
  exit_values     :: "(int \<times> 'w word) list"
  next_exit_value :: nat
  tm_kpool        :: "('w, 'm) kpool"
  woken           :: "int list"

text \<open>The sizes of the tables and the functions of the hardware abstraction layer: creating a
  context, where the context of a thread is saved when its core switches to another, and
  starting a core (the result of the given trial).\<close>

record (overloaded) ('w :: len, 'm) thread_env =
  env_target     :: target
  env_lay        :: "'w layout"
  zero_page      :: "'m \<Rightarrow> 'm"
  SYS_THREAD_MAX :: nat
  THREAD_MAX     :: nat
  context_create :: "'w word \<Rightarrow> 'w word \<Rightarrow> 'w word"
  context_save   :: "nat \<Rightarrow> 'w word"
  core_start     :: "int \<Rightarrow> nat \<Rightarrow> int"

abbreviation (input) KTHREAD_NULL_TID :: int where "KTHREAD_NULL_TID \<equiv> - 1"
abbreviation (input) KTHREAD_MASTER_TID :: int where "KTHREAD_MASTER_TID \<equiv> 0"

definition KTHREAD_MAX :: "('w::len, 'm) thread_env \<Rightarrow> nat" where "KTHREAD_MAX E = SYS_THREAD_MAX E + THREAD_MAX E"
definition KTHREAD_EXIT_VALUE_NUM :: "('w::len, 'm) thread_env \<Rightarrow> nat" where "KTHREAD_EXIT_VALUE_NUM E = 3 * KTHREAD_MAX E"
definition THREAD_CREATE_NTRIALS :: nat where "THREAD_CREATE_NTRIALS = 5"

definition set_thread :: "nat \<Rightarrow> (('w::len) thread \<Rightarrow> 'w thread) \<Rightarrow> ('w, 'm) tm \<Rightarrow> ('w, 'm) tm" where
  "set_thread t f s = s\<lparr>threads := (threads s)[t := f (threads s ! t)]\<rparr>"

definition is_user_thread :: "('w::len, 'm) thread_env \<Rightarrow> nat \<Rightarrow> bool" where
  "is_user_thread E t \<longleftrightarrow> SYS_THREAD_MAX E \<le> t \<and> t < KTHREAD_MAX E"

section \<open>Looking threads up\<close>

text \<open>The loop of \<open>thread_get_curr\<close>: \<open>i\<close> is the index of the first of the remaining threads and
  \<open>cur\<close> the last terminated thread of the core so far.\<close>

fun thread_get_curr_loop :: "int \<Rightarrow> nat \<Rightarrow> nat option \<Rightarrow> ('w::len) thread list \<Rightarrow> nat option" where
  "thread_get_curr_loop c i cur [] = cur"
| "thread_get_curr_loop c i cur (t # ts) =
    (if th_coreid t \<noteq> c then thread_get_curr_loop c (Suc i) cur ts
     else if th_state t = RUNNING then Some i
     else if th_state t = TERMINATED then thread_get_curr_loop c (Suc i) (Some i) ts
     else thread_get_curr_loop c (Suc i) cur ts)"

definition thread_get_curr :: "int \<Rightarrow> ('w::len, 'm) tm \<Rightarrow> nat option" where
  "thread_get_curr c s = thread_get_curr_loop c 0 None (threads s)"

definition thread_get :: "int \<Rightarrow> ('w::len, 'm) tm \<Rightarrow> nat option option" where
  "thread_get tid s = do { KASSERT (tid > KTHREAD_NULL_TID); Some (first_index (\<lambda>t. th_tid t = tid) (threads s)) }"

section \<open>Condition variables and semaphores\<close>

text \<open>\<open>cond_wait\<close> up to the sleep: the calling thread becomes the head of the queue.\<close>

definition cond_wait :: "int \<Rightarrow> nat option \<Rightarrow> ('w::len, 'm) tm \<Rightarrow> (nat option \<times> ('w, 'm) tm) option" where
  "cond_wait c queue s =
    do {
      cur \<leftarrow> thread_get_curr c s;
      Some (Some cur, set_thread cur (\<lambda>t. t\<lparr>th_next := queue\<rparr>) s)
    }"

definition thread_wakeup :: "nat \<Rightarrow> ('w::len, 'm) tm \<Rightarrow> ('w, 'm) tm" where
  "thread_wakeup t s = s\<lparr>woken := woken s @ [th_coreid (threads s ! t)]\<rparr>"

text \<open>The loop of \<open>cond_broadcast\<close>; it does not end when the threads are linked in a cycle, and
  \<^const>\<open>None\<close> is a loop that does not end.\<close>

partial_function (option) cond_broadcast_loop :: "nat option \<Rightarrow> ('w::len, 'm) tm \<Rightarrow> ('w, 'm) tm option" where
  "cond_broadcast_loop queue s =
    (case queue of
       None \<Rightarrow> Some s
     | Some t \<Rightarrow> cond_broadcast_loop (th_next (threads s ! t)) (thread_wakeup t s))"

declare cond_broadcast_loop.simps [code]

definition cond_broadcast :: "nat option \<Rightarrow> ('w::len, 'm) tm \<Rightarrow> (nat option \<times> ('w, 'm) tm) option" where
  "cond_broadcast queue s = do { s \<leftarrow> cond_broadcast_loop queue s; Some (None, s) }"

definition semaphore_init :: "int \<Rightarrow> semaphore option" where
  "semaphore_init x = do { KASSERT (x \<ge> 0); Some \<lparr>sem_count = x, sem_queue = None\<rparr> }"

text \<open>One pass of the loop of \<open>semaphore_down\<close>: it ends with the count decremented, or the calling
  thread is put to sleep and tries again when it is woken.\<close>

definition semaphore_down_try :: "int \<Rightarrow> semaphore \<Rightarrow> ('w::len, 'm) tm \<Rightarrow> (bool \<times> semaphore \<times> ('w, 'm) tm) option" where
  "semaphore_down_try c sem s =
    (if sem_count sem > 0 then Some (True, sem\<lparr>sem_count := sem_count sem - 1\<rparr>, s)
     else do {
       (queue, s) \<leftarrow> cond_wait c (sem_queue sem) s;
       Some (False, sem\<lparr>sem_queue := queue\<rparr>, s)
     })"

definition semaphore_up :: "semaphore \<Rightarrow> ('w::len, 'm) tm \<Rightarrow> (semaphore \<times> ('w, 'm) tm) option" where
  "semaphore_up sem s =
    do {
      (queue, s) \<leftarrow> cond_broadcast (sem_queue sem) s;
      Some (\<lparr>sem_count = sem_count sem + 1, sem_queue = queue\<rparr>, s)
    }"

section \<open>Exit values\<close>

definition thread_save_retval :: "('w::len, 'm) thread_env \<Rightarrow> 'w word \<Rightarrow> nat \<Rightarrow> ('w, 'm) tm \<Rightarrow> ('w, 'm) tm" where
  "thread_save_retval E retval leaving s =
    (if retval \<noteq> 0
     then s\<lparr>exit_values := (exit_values s)[next_exit_value s := (th_tid (threads s ! leaving), retval)],
            next_exit_value := (next_exit_value s + 1) mod KTHREAD_EXIT_VALUE_NUM E\<rparr>
     else s)"

definition thread_search_retval :: "int \<Rightarrow> ('w::len, 'm) tm \<Rightarrow> 'w word" where
  "thread_search_retval tid s =
    (case first_index (\<lambda>e. fst e = tid) (exit_values s) of None \<Rightarrow> 0 | Some i \<Rightarrow> snd (exit_values s ! i))"

section \<open>Allocation of threads\<close>

text \<open>The results of \<open>kpage_put\<close> are not used.\<close>

definition thread_free :: "('w::len, 'm) thread_env \<Rightarrow> nat \<Rightarrow> ('w, 'm) tm \<Rightarrow> ('w, 'm) tm option" where
  "thread_free E t s =
    do {
      KASSERT (t < KTHREAD_MAX E);
      KASSERT (th_state (threads s ! t) = ZOMBIE);
      let utid = int t - int (SYS_THREAD_MAX E);
      ustack \<leftarrow> fetch (ustacks s) utid;
      kstack \<leftarrow> fetch (kstacks s) utid;
      let s = s\<lparr>tm_kpool := snd (kpage_put (env_lay E) kstack (snd (kpage_put (env_lay E) ustack (tm_kpool s)))),
                ustacks := (ustacks s)[nat utid := 0], kstacks := (kstacks s)[nat utid := 0]\<rparr>;
      let s = set_thread t (\<lambda>t. t\<lparr>th_coreid := - 1, th_state := NOT_STARTED, th_tid := KTHREAD_NULL_TID\<rparr>) s;
      Some (s\<lparr>nthreads := nthreads s - 1\<rparr>)
    }"

definition thread_alloc :: "('w::len, 'm) thread_env \<Rightarrow> ('w, 'm) tm \<Rightarrow> (nat option \<times> ('w, 'm) tm) option" where
  "thread_alloc E s =
    (case first_index (\<lambda>t. th_state t = NOT_STARTED \<or> th_state t = ZOMBIE) (tl (threads s)) of
       None \<Rightarrow> Some (None, s)
     | Some i \<Rightarrow> do {
         s \<leftarrow> (if th_state (threads s ! Suc i) = NOT_STARTED then Some (s\<lparr>nthreads := nthreads s + 1\<rparr>)
              else thread_free E (Suc i) s);
         Some (Some (Suc i), set_thread (Suc i) (\<lambda>t. t\<lparr>th_state := STARTED\<rparr>) s)
       })"

section \<open>Scheduling\<close>

definition thread_schedule :: "('w::len, 'm) thread_env \<Rightarrow> nat \<Rightarrow> ('w, 'm) tm \<Rightarrow> ('w, 'm) tm option" where
  "thread_schedule E t s =
    do {
      KASSERT (is_user_thread E t);
      s \<leftarrow> (if sq_size s = 0 then Some (s\<lparr>sq_head := Some t\<rparr>)
           else do { tl \<leftarrow> sq_tail s; Some (set_thread tl (\<lambda>u. u\<lparr>th_next := Some t\<rparr>) s) });
      let s = set_thread t (\<lambda>u. u\<lparr>th_next := None, th_coreid := - 1\<rparr>) (s\<lparr>sq_tail := Some t\<rparr>);
      let s = s\<lparr>sq_size := sq_size s + 1\<rparr>;
      (sem, s) \<leftarrow> semaphore_up (sq_sem s) s;
      Some (s\<lparr>sq_sem := sem\<rparr>)
    }"

text \<open>The checks that the two pointers handed to \<open>thread_switch_to\<close> are kernel addresses hold
  because they point into the table of threads.\<close>

definition thread_switch_to ::
  "('w::len, 'm) thread_env \<Rightarrow> int \<Rightarrow> nat \<Rightarrow> nat \<Rightarrow> ('w, 'm) tm \<Rightarrow> (int \<times> ('w, 'm) tm) option" where
  "thread_switch_to E c previous nxt s =
    do {
      cur \<leftarrow> thread_get_curr c s;
      if th_tid (threads s ! cur) = KTHREAD_MASTER_TID then Some (- EINVAL, s)
      else if th_ctx (threads s ! previous) \<noteq> 0 then Some (- EINVAL, s)
      else if th_ctx (threads s ! nxt) = 0 \<or> \<not> mm_is_kaddr (env_target E) (env_lay E) (th_ctx (threads s ! nxt))
      then Some (- EINVAL, s)
      else Some (0, set_thread nxt (\<lambda>t. t\<lparr>th_ctx := 0\<rparr>) (set_thread previous (\<lambda>t. t\<lparr>th_ctx := context_save E previous\<rparr>) s))
    }"

text \<open>\<open>thread_yield\<close> up to the release of the lock: the choice of the next thread.\<close>

definition yield_next :: "('w::len, 'm) thread_env \<Rightarrow> int \<Rightarrow> nat \<Rightarrow> nat \<Rightarrow> ('w, 'm) tm \<Rightarrow> (nat \<times> ('w, 'm) tm) option" where
  "yield_next E c cur idle s =
    (if sq_size s \<noteq> 0
     then do {
       nxt \<leftarrow> sq_head s;
       let s = s\<lparr>sq_head := th_next (threads s ! nxt), sq_size := sq_size s - 1\<rparr>;
       let s = set_thread nxt (\<lambda>t. t\<lparr>th_next := None, th_coreid := c\<rparr>) s;
       if th_state (threads s ! cur) \<noteq> TERMINATED
       then do {
         let s = set_thread cur (\<lambda>t. t\<lparr>th_state := STOPPED\<rparr>) s;
         s \<leftarrow> (if cur \<noteq> idle then thread_schedule E cur s else Some s);
         Some (nxt, s)
       }
       else Some (nxt, s)
     }
     else if th_state (threads s ! cur) \<noteq> TERMINATED then Some (cur, s)
     else Some (idle, s))"

definition thread_yield_select ::
  "('w::len, 'm) thread_env \<Rightarrow> int \<Rightarrow> ('w, 'm) tm \<Rightarrow> ((int + nat \<times> nat) \<times> ('w, 'm) tm) option" where
  "thread_yield_select E c s =
    do {
      cur \<leftarrow> thread_get_curr c s;
      if th_tid (threads s ! cur) = KTHREAD_MASTER_TID then Some (Inl (- EINVAL), s)
      else do {
        let idle = nat (th_coreid (threads s ! cur));
        (nxt, s) \<leftarrow> yield_next E c cur idle s;
        s \<leftarrow> (if th_state (threads s ! cur) = TERMINATED
             then do {
               KASSERT (cur \<noteq> idle \<and> cur \<noteq> nxt);
               Some (set_thread nxt (\<lambda>t. t\<lparr>th_next := Some cur\<rparr>) (set_thread cur (\<lambda>t. t\<lparr>th_state := ZOMBIE\<rparr>) s))
             }
             else Some s);
        let s = set_thread nxt (\<lambda>t. t\<lparr>th_state := RUNNING\<rparr>) s;
        Some (Inr (cur, nxt), s)
      }
    }"

text \<open>The first half of \<open>thread_yield\<close>: the choice, and the switch to the chosen thread.\<close>

definition thread_yield_switch ::
  "('w::len, 'm) thread_env \<Rightarrow> int \<Rightarrow> ('w, 'm) tm \<Rightarrow> ((int + nat) \<times> ('w, 'm) tm) option" where
  "thread_yield_switch E c s =
    do {
      (r, s) \<leftarrow> thread_yield_select E c s;
      case r of
        Inl e \<Rightarrow> Some (Inl e, s)
      | Inr (cur, nxt) \<Rightarrow> do {
          KASSERT (th_ctx (threads s ! cur) = 0);
          (_, s) \<leftarrow> (if cur \<noteq> nxt then thread_switch_to E c cur nxt s else Some (0, s));
          Some (Inr nxt, s)
        }
    }"

text \<open>A thread that resumes, or starts, first frees the zombie that it replaced.\<close>

definition thread_reap :: "('w::len, 'm) thread_env \<Rightarrow> nat \<Rightarrow> ('w, 'm) tm \<Rightarrow> ('w, 'm) tm option" where
  "thread_reap E cur s =
    (case th_next (threads s ! cur) of
       None \<Rightarrow> Some s
     | Some z \<Rightarrow>
         if th_state (threads s ! z) = ZOMBIE
         then do { s \<leftarrow> thread_free E z s; Some (set_thread cur (\<lambda>t. t\<lparr>th_next := None\<rparr>) s) }
         else Some s)"

definition thread_yield_resume :: "('w::len, 'm) thread_env \<Rightarrow> nat \<Rightarrow> ('w, 'm) tm \<Rightarrow> (int \<times> ('w, 'm) tm) option" where
  "thread_yield_resume E cur s =
    do {
      KASSERT (th_ctx (threads s ! cur) = 0);
      s \<leftarrow> thread_reap E cur s;
      Some (0, s)
    }"

section \<open>Creation, exit and joining\<close>

text \<open>\<open>thread_exit\<close> up to its call of \<open>thread_yield\<close>.\<close>

definition thread_exit :: "('w::len, 'm) thread_env \<Rightarrow> int \<Rightarrow> 'w word \<Rightarrow> ('w, 'm) tm \<Rightarrow> ('w, 'm) tm option" where
  "thread_exit E c retval s =
    do {
      cur \<leftarrow> thread_get_curr c s;
      KASSERT (is_user_thread E cur);
      let s = thread_save_retval E retval cur s;
      let s = set_thread cur (\<lambda>t. t\<lparr>th_state := TERMINATED\<rparr>) s;
      (queue, s) \<leftarrow> cond_broadcast (joincond s ! cur) s;
      Some (s\<lparr>joincond := (joincond s)[cur := queue]\<rparr>)
    }"

definition thread_create ::
  "('w::len, 'm) thread_env \<Rightarrow> 'w word \<Rightarrow> 'w word \<Rightarrow> ('w, 'm) tm \<Rightarrow> (int \<times> int option \<times> ('w, 'm) tm) option" where
  "thread_create E start arg s =
    do {
      KASSERT (start \<noteq> 0);
      (new, s) \<leftarrow> thread_alloc E s;
      case new of
        None \<Rightarrow> Some (- EAGAIN, None, s)
      | Some t \<Rightarrow>
          let (kstack, pool) = kpage_get (env_lay E) (zero_page E) True (tm_kpool s); s = s\<lparr>tm_kpool := pool\<rparr>
          in if kstack = 0 then Some (- EAGAIN, None, s)
             else
               let (ustack, pool) = kpage_get (env_lay E) (zero_page E) True (tm_kpool s); s = s\<lparr>tm_kpool := pool\<rparr>
               in if ustack = 0
                  then Some (- EAGAIN, None, s\<lparr>tm_kpool := snd (kpage_put (env_lay E) kstack (tm_kpool s))\<rparr>)
                  else do {
                    let tid = next_tid s;
                    let s = s\<lparr>next_tid := next_tid s + 1\<rparr>;
                    let utid = int t - int (SYS_THREAD_MAX E);
                    let s = set_thread t (\<lambda>u. u\<lparr>th_tid := tid, th_arg := arg, th_start := start, th_next := None\<rparr>) s;
                    _ \<leftarrow> fetch (ustacks s) utid;
                    _ \<leftarrow> fetch (kstacks s) utid;
                    let s = s\<lparr>ustacks := (ustacks s)[nat utid := ustack], kstacks := (kstacks s)[nat utid := kstack]\<rparr>;
                    let s = set_thread t (\<lambda>u. u\<lparr>th_ctx := context_create E ustack kstack\<rparr>) s;
                    KASSERT (th_ctx (threads s ! t) \<noteq> 0);
                    s \<leftarrow> thread_schedule E t s;
                    Some (0, Some tid, s)
                  }
    }"

text \<open>The end of \<open>thread_join\<close>, and \<open>thread_join\<close> up to the sleep or to its end.\<close>

definition thread_join_end :: "int \<Rightarrow> ('w::len, 'm) tm \<Rightarrow> int \<times> 'w word option" where
  "thread_join_end tid s = (if tid < next_tid s then (0, Some (thread_search_retval tid s)) else (- EINVAL, None))"

definition thread_join ::
  "int \<Rightarrow> int \<Rightarrow> ('w::len, 'm) tm \<Rightarrow> ((int \<times> 'w word option) option \<times> ('w, 'm) tm) option" where
  "thread_join c tid s =
    do {
      KASSERT (tid > KTHREAD_NULL_TID);
      cur \<leftarrow> thread_get_curr c s;
      KASSERT (tid \<noteq> th_tid (threads s ! cur));
      KASSERT (tid \<noteq> KTHREAD_MASTER_TID);
      target \<leftarrow> thread_get tid s;
      case target of
        Some t \<Rightarrow>
          if th_state (threads s ! t) \<noteq> NOT_STARTED \<and> th_state (threads s ! t) \<noteq> TERMINATED \<and> th_state (threads s ! t) \<noteq> ZOMBIE
          then do {
            (queue, s) \<leftarrow> cond_wait c (joincond s ! t) s;
            Some (None, s\<lparr>joincond := (joincond s)[t := queue]\<rparr>)
          }
          else Some (Some (thread_join_end tid s), s)
      | None \<Rightarrow> Some (Some (thread_join_end tid s), s)
    }"

section \<open>Initialisation\<close>

text \<open>The tables as the program is loaded; the fields that an initialiser does not name are zero.\<close>

definition boot_threads :: "('w::len, 'm) thread_env \<Rightarrow> 'w word \<Rightarrow> 'w thread list" where
  "boot_threads E kmain =
    \<lparr>th_tid = KTHREAD_MASTER_TID, th_coreid = 0, th_state = RUNNING, th_arg = 0, th_start = kmain, th_ctx = 0, th_next = None\<rparr>
    # replicate (KTHREAD_MAX E - 1)
        \<lparr>th_tid = KTHREAD_NULL_TID, th_coreid = 0, th_state = NOT_STARTED, th_arg = 0, th_start = 0, th_ctx = 0, th_next = None\<rparr>"

definition tm_boot :: "('w::len, 'm) thread_env \<Rightarrow> 'w word \<Rightarrow> ('w, 'm) kpool \<Rightarrow> ('w, 'm) tm" where
  "tm_boot E kmain pool =
    \<lparr>threads = boot_threads E kmain, joincond = replicate (KTHREAD_MAX E) None, nthreads = 1, next_tid = KTHREAD_MASTER_TID + 1,
     ustacks = replicate (THREAD_MAX E) 0, kstacks = replicate (THREAD_MAX E) 0, sq_size = 0, sq_head = None, sq_tail = None,
     sq_sem = \<lparr>sem_count = 0, sem_queue = None\<rparr>,
     exit_values = replicate (KTHREAD_EXIT_VALUE_NUM E) (KTHREAD_NULL_TID, 0), next_exit_value = 0, tm_kpool = pool, woken = []\<rparr>"

text \<open>The busy wait for a core: \<open>n\<close> trials have been made.\<close>

function core_start_trials :: "('w::len, 'm) thread_env \<Rightarrow> int \<Rightarrow> nat \<Rightarrow> int" where
  "core_start_trials E coreid n =
    (let ret = core_start E coreid n
     in if ret = - EBUSY \<and> Suc n < THREAD_CREATE_NTRIALS then core_start_trials E coreid (Suc n) else ret)"
  by pat_completeness auto
termination by (relation "measure (\<lambda>(E, coreid, n). THREAD_CREATE_NTRIALS - n)") auto

declare core_start_trials.simps [simp del]

definition thread_init_idle :: "('w::len, 'm) thread_env \<Rightarrow> 'w word \<Rightarrow> int \<Rightarrow> ('w, 'm) tm \<Rightarrow> ('w, 'm) tm option" where
  "thread_init_idle E thread_idle coreid s =
    do {
      (idle, s) \<leftarrow> thread_alloc E s;
      t \<leftarrow> idle;
      let s = set_thread t (\<lambda>u. u\<lparr>th_tid := next_tid s\<rparr>) (s\<lparr>next_tid := next_tid s + 1\<rparr>);
      KASSERT (th_tid (threads s ! t) = coreid);
      let s = set_thread t (\<lambda>u. u\<lparr>th_coreid := coreid, th_state := RUNNING, th_arg := 0, th_next := None, th_start := thread_idle\<rparr>) s;
      KASSERT (int t = th_coreid (threads s ! t));
      KASSERT (core_start_trials E coreid 0 = 0);
      Some s
    }"

fun thread_init_loop :: "('w::len, 'm) thread_env \<Rightarrow> 'w word \<Rightarrow> int list \<Rightarrow> ('w, 'm) tm \<Rightarrow> ('w, 'm) tm option" where
  "thread_init_loop E thread_idle [] s = Some s"
| "thread_init_loop E thread_idle (coreid # cs) s =
    do { s \<leftarrow> thread_init_idle E thread_idle coreid s; thread_init_loop E thread_idle cs s }"

definition thread_init :: "('w::len, 'm) thread_env \<Rightarrow> 'w word \<Rightarrow> ('w, 'm) tm \<Rightarrow> ('w, 'm) tm option" where
  "thread_init E thread_idle s =
    do {
      KASSERT (nthreads s = 1);
      let s = s\<lparr>ustacks := map (\<lambda>_. 0) (ustacks s), kstacks := map (\<lambda>_. 0) (kstacks s)\<rparr>;
      thread_init_loop E thread_idle [1..int (SYS_THREAD_MAX E) - 1] s
    }"

end
