(* ===== verification/Thread_Facts.thy ===== *)
theory Thread_Facts
  imports Thread
begin

text \<open>
  What the thread manager promises.  The queues of threads are chains through \<open>th_next\<close>,
  seen as lists (\<open>links\<close>); the operations on them refine those on lists.
  \<open>threads_ok\<close> is the invariant of the table of threads, which does not depend on
  \<open>th_next\<close>; \<open>ready\<close> that of the schedule queue and \<open>waits\<close> that of the
  condition variables.
\<close>

section \<open>Chains of threads\<close>

primrec links :: "('w::len) thread list \<Rightarrow> nat option \<Rightarrow> nat list \<Rightarrow> bool" where
  "links ts q [] \<longleftrightarrow> q = None"
| "links ts q (x # xs) \<longleftrightarrow> q = Some x \<and> links ts (th_next (ts ! x)) xs"

lemma links_cong: "(\<And>x. x \<in> set xs \<Longrightarrow> th_next (ts ! x) = th_next (us ! x)) \<Longrightarrow> links ts q xs = links us q xs"
  by (induction xs arbitrary: q) auto

lemma links_unique: "links ts q xs \<Longrightarrow> links ts q ys \<Longrightarrow> xs = ys"
proof (induction xs arbitrary: q ys)
  case Nil
  then show ?case by (cases ys) auto
next
  case (Cons x xs)
  then show ?case by (cases ys) auto
qed

lemma links_distinct: "links ts q xs \<Longrightarrow> distinct xs"
proof (rule ccontr)
  assume l: "links ts q xs" and "\<not> distinct xs"
  then obtain as x bs cs where xs: "xs = as @ x # bs @ x # cs" by (metis append_Cons append_Nil append_assoc not_distinct_decomp)
  have tails: "links ts p (as @ ys) \<Longrightarrow> \<exists>p'. links ts p' ys" for p as ys by (induction as arbitrary: p) auto
  obtain p where p: "links ts p (x # bs @ x # cs)" using tails [of q as] l xs by blast
  obtain p' where p': "links ts p' (x # cs)" using tails [of p "x # bs" "x # cs"] p by auto
  have "bs @ x # cs = cs" using links_unique [of ts "th_next (ts ! x)"] p p' by simp
  then have "length (bs @ x # cs) = length cs" by simp
  then show False by simp
qed

lemma links_append:
  assumes "links ts q xs" "xs \<noteq> []" "t \<notin> set xs" "\<And>x. x \<in> set xs \<Longrightarrow> x < length ts" "t < length ts"
    and "th_next u = None"
  shows "links ((ts[last xs := (ts ! last xs)\<lparr>th_next := Some t\<rparr>])[t := u]) q (xs @ [t])"
  using assms links_distinct [OF assms(1)]
proof (induction xs arbitrary: q)
  case (Cons x xs)
  show ?case
  proof (cases "xs = []")
    case True
    then show ?thesis using Cons.prems by auto
  next
    case False
    have "links (ts[last xs := (ts ! last xs)\<lparr>th_next := Some t\<rparr>, t := u]) (th_next (ts ! x)) (xs @ [t])"
      using Cons False by auto
    moreover have "x \<noteq> last xs" "x \<noteq> t" using Cons.prems False by auto
    ultimately show ?thesis using Cons.prems False by auto
  qed
qed simp

section \<open>Broadcasts\<close>

lemma wakeup_simps [simp]: "threads (thread_wakeup t s) = threads s" by (simp add: thread_wakeup_def)

lemma broadcast_links:
  "links (threads s) q xs \<Longrightarrow>
    cond_broadcast_loop q s = Some (s\<lparr>woken := woken s @ map (\<lambda>t. th_coreid (threads s ! t)) xs\<rparr>)"
proof (induction xs arbitrary: q s)
  case Nil
  then show ?case by (simp add: cond_broadcast_loop.simps)
next
  case (Cons x xs)
  then have "q = Some x" "links (threads (thread_wakeup x s)) (th_next (threads s ! x)) xs" by simp_all
  moreover have "cond_broadcast_loop (Some x) s = cond_broadcast_loop (th_next (threads s ! x)) (thread_wakeup x s)"
    by (subst cond_broadcast_loop.simps) simp
  ultimately show ?case using Cons.IH [of "thread_wakeup x s"] by (simp add: thread_wakeup_def)
qed

lemma broadcast_returns:
  assumes "cond_broadcast_loop q s = Some r"
  shows "\<exists>xs. links (threads s) q xs"
proof (rule cond_broadcast_loop.raw_induct [OF _ assms])
  fix loop queue s r
  assume IH: "\<And>q s r. loop q s = Some r \<Longrightarrow> \<exists>xs. links (threads s) q xs"
    and run: "(case queue of None \<Rightarrow> Some s | Some t \<Rightarrow> loop (th_next (threads s ! t)) (thread_wakeup t s)) = Some r"
  show "\<exists>xs. links (threads s) queue xs"
  proof (cases queue)
    case None
    then have "links (threads s) queue []" by simp
    then show ?thesis by blast
  next
    case (Some t)
    then obtain xs where "links (threads s) (th_next (threads s ! t)) xs" using IH run by fastforce
    then have "links (threads s) queue (t # xs)" using Some by simp
    then show ?thesis by blast
  qed
qed

lemma cond_broadcast_links:
  "links (threads s) q xs \<Longrightarrow>
    cond_broadcast q s = Some (None, s\<lparr>woken := woken s @ map (\<lambda>t. th_coreid (threads s ! t)) xs\<rparr>)"
  by (simp add: cond_broadcast_def broadcast_links)

lemma links_set_thread:
  assumes "links (threads s) q xs" "t \<notin> set xs"
  shows "links (threads (set_thread t f s)) q xs"
proof -
  have "th_next (threads (set_thread t f s) ! x) = th_next (threads s ! x)" if "x \<in> set xs" for x
    using that assms(2) by (cases "x = t") (auto simp: set_thread_def)
  then show ?thesis using assms(1) links_cong by blast
qed

section \<open>The current thread\<close>

abbreviation on_core :: "('w::len) thread \<Rightarrow> bool" where "on_core t \<equiv> th_state t = RUNNING \<or> th_state t = TERMINATED"

lemma get_curr_loop_none:
  "(\<And>t. t \<in> set ts \<Longrightarrow> \<not> (on_core t \<and> th_coreid t = c)) \<Longrightarrow> thread_get_curr_loop c i cur ts = cur"
  by (induction ts arbitrary: i cur) (auto split: if_splits)

lemma get_curr_loop_one:
  "(\<And>t. t \<in> set xs \<union> set zs \<Longrightarrow> \<not> (on_core t \<and> th_coreid t = c)) \<Longrightarrow> on_core y \<Longrightarrow> th_coreid y = c \<Longrightarrow>
    thread_get_curr_loop c i cur (xs @ y # zs) = Some (i + length xs)"
proof (induction xs arbitrary: i cur)
  case Nil
  then show ?case by (auto simp: get_curr_loop_none)
next
  case (Cons x xs)
  then show ?case by (auto split: if_splits)
qed

lemma get_curr_unique:
  assumes "t < length (threads s)" "on_core (threads s ! t)" "th_coreid (threads s ! t) = c"
    and "\<And>j. j < length (threads s) \<Longrightarrow> on_core (threads s ! j) \<Longrightarrow> th_coreid (threads s ! j) = c \<Longrightarrow> j = t"
  shows "thread_get_curr c s = Some t"
proof -
  let ?ts = "threads s"
  have other: "\<not> (on_core (?ts ! j) \<and> th_coreid (?ts ! j) = c)" if "j < length ?ts" "j \<noteq> t" for j using assms(4) that by blast
  have "\<not> (on_core u \<and> th_coreid u = c)" if "u \<in> set (take t ?ts)" for u
  proof -
    obtain j where "j < t" "u = ?ts ! j" using \<open>u \<in> set (take t ?ts)\<close> assms(1) by (auto simp: in_set_conv_nth)
    then show ?thesis using other [of j] assms(1) by simp
  qed
  moreover have "\<not> (on_core u \<and> th_coreid u = c)" if "u \<in> set (drop (Suc t) ?ts)" for u
  proof -
    obtain j where "j < length ?ts - Suc t" "u = ?ts ! (Suc t + j)"
      using \<open>u \<in> set (drop (Suc t) ?ts)\<close> assms(1) by (auto simp: in_set_conv_nth)
    then show ?thesis using other [of "Suc t + j"] by simp
  qed
  ultimately have "thread_get_curr_loop c 0 None (take t ?ts @ ?ts ! t # drop (Suc t) ?ts) = Some (0 + length (take t ?ts))"
    using assms(2,3) by (intro get_curr_loop_one) auto
  then show ?thesis using assms(1) by (simp add: thread_get_curr_def id_take_nth_drop [symmetric])
qed

lemma get_curr_loop_Some:
  "thread_get_curr_loop c i cur ts = Some t \<Longrightarrow>
    cur = Some t \<or> (\<exists>k < length ts. t = i + k \<and> on_core (ts ! k) \<and> th_coreid (ts ! k) = c)"
proof (induction ts arbitrary: i cur)
  case (Cons u ts)
  show ?case
  proof (cases "th_coreid u = c \<and> on_core u")
    case True
    then show ?thesis using Cons by (cases "th_state u = RUNNING") (force split: if_splits)+
  next
    case False
    then have "thread_get_curr_loop c (Suc i) cur ts = Some t" using Cons.prems by (auto split: if_splits)
    then show ?thesis using Cons.IH by fastforce
  qed
qed simp

lemma get_curr_Some:
  assumes "thread_get_curr c s = Some t"
  shows "t < length (threads s)" "on_core (threads s ! t)" "th_coreid (threads s ! t) = c"
  using get_curr_loop_Some [of c 0 None "threads s" t] assms by (auto simp: thread_get_curr_def)

section \<open>The schedule queue\<close>

definition good_ctx :: "('w::len, 'm) thread_env \<Rightarrow> 'w word \<Rightarrow> bool" where
  "good_ctx E x \<longleftrightarrow> x \<noteq> 0 \<and> mm_is_kaddr (env_target E) (env_lay E) x"

definition schedulable :: "('w::len) thread \<Rightarrow> bool" where "schedulable t \<longleftrightarrow> th_state t = STARTED \<or> th_state t = STOPPED"

definition ready :: "('w::len, 'm) thread_env \<Rightarrow> ('w, 'm) tm \<Rightarrow> nat list \<Rightarrow> bool" where
  "ready E s xs \<longleftrightarrow> links (threads s) (sq_head s) xs \<and> sq_size s = length xs \<and> (xs \<noteq> [] \<longrightarrow> sq_tail s = Some (last xs))
    \<and> (\<forall>t \<in> set xs. is_user_thread E t \<and> t < length (threads s) \<and> schedulable (threads s ! t) \<and> th_coreid (threads s ! t) = - 1)"

text \<open>The queues of sleepers: that of the scheduler's semaphore, and one per thread for those
  that wait for its end.\<close>

definition waits :: "('w::len, 'm) tm \<Rightarrow> nat list list \<Rightarrow> bool" where
  "waits s wss \<longleftrightarrow> list_all2 (links (threads s)) (sem_queue (sq_sem s) # joincond s) wss \<and> distinct (concat wss)
    \<and> (\<forall>t \<in> set (concat wss). t < length (threads s) \<and> th_state (threads s ! t) = RUNNING)"

text \<open>A thread up to its link.\<close>

definition view :: "('w::len) thread \<Rightarrow> 'w thread" where "view t = t\<lparr>th_next := None\<rparr>"

lemma view_simps [simp]:
  "th_tid (view t) = th_tid t" "th_coreid (view t) = th_coreid t" "th_state (view t) = th_state t" "th_ctx (view t) = th_ctx t"
  "view (t\<lparr>th_next := n\<rparr>) = view t" "view (t\<lparr>th_coreid := c\<rparr>) = (view t)\<lparr>th_coreid := c\<rparr>"
  "view (t\<lparr>th_state := x\<rparr>) = (view t)\<lparr>th_state := x\<rparr>" "view (t\<lparr>th_ctx := y\<rparr>) = (view t)\<lparr>th_ctx := y\<rparr>"
  "view (t\<lparr>th_tid := i\<rparr>) = (view t)\<lparr>th_tid := i\<rparr>" "view (t\<lparr>th_arg := a\<rparr>) = (view t)\<lparr>th_arg := a\<rparr>"
  "view (t\<lparr>th_start := a\<rparr>) = (view t)\<lparr>th_start := a\<rparr>"
  by (simp_all add: view_def)

lemma set_thread_simps [simp]:
  "threads (set_thread t f s) = (threads s)[t := f (threads s ! t)]" "joincond (set_thread t f s) = joincond s"
  "nthreads (set_thread t f s) = nthreads s" "next_tid (set_thread t f s) = next_tid s" "ustacks (set_thread t f s) = ustacks s"
  "kstacks (set_thread t f s) = kstacks s" "sq_size (set_thread t f s) = sq_size s" "sq_head (set_thread t f s) = sq_head s"
  "sq_tail (set_thread t f s) = sq_tail s" "sq_sem (set_thread t f s) = sq_sem s" "exit_values (set_thread t f s) = exit_values s"
  "next_exit_value (set_thread t f s) = next_exit_value s" "tm_kpool (set_thread t f s) = tm_kpool s" "woken (set_thread t f s) = woken s"
  by (simp_all add: set_thread_def)

text \<open>Links stay within the table.\<close>

definition linked :: "('w::len, 'm) tm \<Rightarrow> bool" where
  "linked s \<longleftrightarrow> (\<forall>t < length (threads s). \<forall>z. th_next (threads s ! t) = Some z \<longrightarrow> z < length (threads s))"

lemma linked_cong: "threads s' = threads s \<Longrightarrow> linked s' = linked s" by (simp add: linked_def)

lemma linkedD: "linked s \<Longrightarrow> t < length (threads s) \<Longrightarrow> th_next (threads s ! t) = Some z \<Longrightarrow> z < length (threads s)"
  by (auto simp: linked_def)

lemma linked_set_thread:
  assumes "linked s" "\<And>z. t < length (threads s) \<Longrightarrow> th_next (f (threads s ! t)) = Some z \<Longrightarrow> z < length (threads s)"
  shows "linked (set_thread t f s)"
  unfolding linked_def
proof (intro allI impI)
  fix u z
  assume u: "u < length (threads (set_thread t f s))" and n: "th_next (threads (set_thread t f s) ! u) = Some z"
  then show "z < length (threads (set_thread t f s))" using assms(2) [of z] linkedD [OF assms(1), of u z] by (cases "u = t") simp_all
qed

lemma linked_same: "linked s \<Longrightarrow> th_next (f (threads s ! t)) = th_next (threads s ! t) \<Longrightarrow> linked (set_thread t f s)"
  by (rule linked_set_thread) (assumption, rule linkedD, simp_all)

text \<open>What scheduling and its wakeups leave alone.\<close>

definition same_tables :: "('w::len, 'm) tm \<Rightarrow> ('w, 'm) tm \<Rightarrow> bool" where
  "same_tables s s' \<longleftrightarrow> joincond s' = joincond s \<and> nthreads s' = nthreads s \<and> next_tid s' = next_tid s \<and> ustacks s' = ustacks s
    \<and> kstacks s' = kstacks s \<and> exit_values s' = exit_values s \<and> next_exit_value s' = next_exit_value s \<and> tm_kpool s' = tm_kpool s
    \<and> (linked s \<longrightarrow> linked s')"

lemma waits_running: "waits s wss \<Longrightarrow> x \<in> set (concat wss) \<Longrightarrow> x < length (threads s) \<and> th_state (threads s ! x) = RUNNING"
  unfolding waits_def by blast

lemma waits_update:
  assumes "waits s wss" "t \<notin> set (concat wss)" "threads s' = (threads s)[t := u]" "joincond s' = joincond s" "sq_sem s' = sq_sem s"
  shows "waits s' wss"
proof -
  have "links (threads s') q ws = links (threads s) q ws" if "ws \<in> set wss" for q ws
  proof (rule links_cong)
    fix x
    assume "x \<in> set ws"
    then have "x \<noteq> t" using that assms(2) by auto
    then show "th_next (threads s' ! x) = th_next (threads s ! x)" by (simp add: assms(3))
  qed
  then have "list_all2 (links (threads s')) (sem_queue (sq_sem s) # joincond s) wss"
    using assms(1) unfolding waits_def by (auto elim: list.rel_mono_strong)
  moreover have "\<forall>x \<in> set (concat wss). x < length (threads s') \<and> th_state (threads s' ! x) = RUNNING"
  proof
    fix x
    assume x: "x \<in> set (concat wss)"
    then have "x \<noteq> t" using assms(2) by blast
    then show "x < length (threads s') \<and> th_state (threads s' ! x) = RUNNING" using waits_running [OF assms(1) x] assms(3) by simp
  qed
  ultimately show ?thesis using assms by (simp add: waits_def)
qed

lemma waits_sem: "waits s wss \<Longrightarrow> \<exists>ws wss'. wss = ws # wss' \<and> links (threads s) (sem_queue (sq_sem s)) ws"
  by (auto simp: waits_def list_all2_Cons1)

lemma semaphore_up_waits:
  assumes "waits s (ws # wss)"
  shows "semaphore_up (sq_sem s) s = Some (\<lparr>sem_count = sem_count (sq_sem s) + 1, sem_queue = None\<rparr>,
      s\<lparr>woken := woken s @ map (\<lambda>t. th_coreid (threads s ! t)) ws\<rparr>)"
    "waits (s\<lparr>woken := w, sq_sem := \<lparr>sem_count = n, sem_queue = None\<rparr>\<rparr>) ([] # wss)"
proof -
  have "links (threads s) (sem_queue (sq_sem s)) ws" using assms by (simp add: waits_def)
  then show "semaphore_up (sq_sem s) s = Some (\<lparr>sem_count = sem_count (sq_sem s) + 1, sem_queue = None\<rparr>,
      s\<lparr>woken := woken s @ map (\<lambda>t. th_coreid (threads s ! t)) ws\<rparr>)"
    by (simp add: semaphore_up_def cond_broadcast_links)
  show "waits (s\<lparr>woken := w, sq_sem := \<lparr>sem_count = n, sem_queue = None\<rparr>\<rparr>) ([] # wss)"
    using assms by (auto simp: waits_def)
qed

lemma schedule_spec:
  assumes rd: "ready E s xs" and wt: "waits s (ws # wss)" and t: "t \<notin> set xs" "is_user_thread E t" "t < length (threads s)"
    "schedulable (threads s ! t)"
  shows "\<exists>s'. thread_schedule E t s = Some s' \<and> ready E s' (xs @ [t]) \<and> waits s' ([] # wss) \<and> same_tables s s'
    \<and> map view (threads s') = (map view (threads s))[t := (view (threads s ! t))\<lparr>th_coreid := - 1\<rparr>]"
proof -
  define s1 where "s1 = (if xs = [] then s\<lparr>sq_head := Some t\<rparr> else set_thread (last xs) (\<lambda>u. u\<lparr>th_next := Some t\<rparr>) s)"
  define s2 where "s2 = (set_thread t (\<lambda>u. u\<lparr>th_next := None, th_coreid := - 1\<rparr>) (s1\<lparr>sq_tail := Some t\<rparr>))\<lparr>sq_size := Suc (sq_size s1)\<rparr>"
  have x: "\<And>x. x \<in> set xs \<Longrightarrow> x < length (threads s) \<and> th_state (threads s ! x) \<noteq> RUNNING"
    using rd by (auto simp: ready_def schedulable_def)
  have out: "u \<notin> set (concat (ws # wss))" if "u = t \<or> u \<in> set xs" for u
  proof
    assume "u \<in> set (concat (ws # wss))"
    then have "th_state (threads s ! u) = RUNNING" using wt unfolding waits_def by blast
    then show False using that x t(4) by (auto simp: schedulable_def)
  qed
  have "waits s1 (ws # wss)"
  proof (cases "xs = []")
    case True
    then show ?thesis using wt by (simp add: s1_def waits_def)
  next
    case False
    then show ?thesis using out [of "last xs"] by (intro waits_update [OF wt]) (auto simp: s1_def)
  qed
  then have w2: "waits s2 (ws # wss)" using out [of t] by (rule waits_update) (auto simp: s2_def)
  have tab: "threads s2 = (if xs = [] then threads s else (threads s)[last xs := (threads s ! last xs)\<lparr>th_next := Some t\<rparr>])
      [t := (threads s ! t)\<lparr>th_next := None, th_coreid := - 1\<rparr>]"
  proof (cases "xs = []")
    case False
    then have "last xs \<noteq> t" using t(1) by auto
    then show ?thesis using False by (simp add: s2_def s1_def)
  qed (simp add: s2_def s1_def)
  have r2: "ready E s2 (xs @ [t])"
    unfolding ready_def
  proof (intro conjI)
    show "links (threads s2) (sq_head s2) (xs @ [t])"
    proof (cases "xs = []")
      case True
      then show ?thesis using t(3) by (simp add: tab) (simp add: s2_def s1_def)
    next
      case False
      have "links (threads s) (sq_head s) xs" using rd by (simp add: ready_def)
      then show ?thesis using links_append [of "threads s" "sq_head s" xs t] False t x by (simp add: tab) (simp add: s2_def s1_def)
    qed
    show "sq_size s2 = length (xs @ [t])" using rd by (simp add: s2_def s1_def ready_def)
    show "\<forall>u \<in> set (xs @ [t]). is_user_thread E u \<and> u < length (threads s2) \<and> schedulable (threads s2 ! u) \<and> th_coreid (threads s2 ! u) = - 1"
      using rd t by (auto simp: tab ready_def nth_list_update schedulable_def)
  qed (simp add: s2_def)
  have "thread_schedule E t s = Some (s2\<lparr>woken := woken s2 @ map (\<lambda>t. th_coreid (threads s2 ! t)) ws,
      sq_sem := \<lparr>sem_count = sem_count (sq_sem s2) + 1, sem_queue = None\<rparr>\<rparr>)" (is "_ = Some ?s'")
  proof -
    have "(if sq_size s = 0 then Some (s\<lparr>sq_head := Some t\<rparr>)
        else do { tl \<leftarrow> sq_tail s; Some (set_thread tl (\<lambda>u. u\<lparr>th_next := Some t\<rparr>) s) }) = Some s1"
      using rd by (auto simp: ready_def s1_def)
    moreover have sem: "sq_sem s1 = sq_sem s2" by (simp add: s2_def)
    ultimately show ?thesis
      using t(2) semaphore_up_waits(1) [OF w2] sem by (simp add: thread_schedule_def s2_def [symmetric])
  qed
  moreover have "ready E ?s' (xs @ [t])" using r2 by (simp add: ready_def)
  moreover have "waits ?s' ([] # wss)" by (rule semaphore_up_waits(2) [OF w2])
  moreover have "same_tables s ?s'"
  proof -
    have "linked s \<Longrightarrow> linked s1" using t(3) by (auto simp: s1_def linked_cong [of "s\<lparr>sq_head := Some t\<rparr>" s] intro!: linked_set_thread)
    then have "linked s \<Longrightarrow> linked (set_thread t (\<lambda>u. u\<lparr>th_next := None, th_coreid := - 1\<rparr>) s1)" by (intro linked_set_thread) simp_all
    then have "linked s \<Longrightarrow> linked ?s'" by (simp add: linked_def s2_def)
    then show ?thesis by (auto simp: same_tables_def s2_def s1_def)
  qed
  moreover have "map view (threads ?s') = (map view (threads s))[t := (view (threads s ! t))\<lparr>th_coreid := - 1\<rparr>]"
  proof -
    have "map view ((threads s)[last xs := (threads s ! last xs)\<lparr>th_next := Some t\<rparr>]) = map view (threads s)"
      by (simp add: map_update list_update_same_conv) (metis list_update_beyond list_update_id map_update not_le_imp_less)
    then show ?thesis by (simp add: tab map_update)
  qed
  ultimately show ?thesis by blast
qed

lemma ready_update:
  assumes rd: "ready E s xs" and tab: "threads s' = (threads s)[z := u]" "sq_head s' = sq_head s" "sq_size s' = sq_size s" "sq_tail s' = sq_tail s"
    and u: "z \<in> set xs \<Longrightarrow> th_next u = th_next (threads s ! z) \<and> th_state u = th_state (threads s ! z) \<and> th_coreid u = th_coreid (threads s ! z)"
  shows "ready E s' xs"
proof -
  have len: "\<And>x. x \<in> set xs \<Longrightarrow> x < length (threads s)" using rd by (simp add: ready_def)
  have x: "th_next (threads s' ! x) = th_next (threads s ! x) \<and> th_state (threads s' ! x) = th_state (threads s ! x)
      \<and> th_coreid (threads s' ! x) = th_coreid (threads s ! x)" if "x \<in> set xs" for x
    using u len that by (cases "x = z") (auto simp: tab(1))
  have "links (threads s') (sq_head s') xs"
    using rd x links_cong [of xs "threads s'" "threads s"] by (simp add: ready_def tab)
  then show ?thesis using rd x by (auto simp: ready_def tab(2-4) schedulable_def) (auto simp: tab(1))
qed

lemma get_curr_view: "map view ts = map view us \<Longrightarrow> thread_get_curr_loop c i cur ts = thread_get_curr_loop c i cur us"
proof (induction ts arbitrary: us i cur)
  case (Cons t ts)
  then obtain u vs where us: "us = u # vs" "view t = view u" "map view ts = map view vs" by (cases us) auto
  have "th_coreid t = th_coreid u" "th_state t = th_state u" using us(2) view_simps(2,3) by metis+
  then show ?case using Cons.IH [OF us(3)] us(1) by simp
qed simp

section \<open>The table of threads\<close>

text \<open>\<open>g c\<close> is the thread that core \<open>c\<close> runs: the idle thread of the core, or a user thread
  while the idle thread is stopped.\<close>

definition cores_ok :: "('w::len, 'm) thread_env \<Rightarrow> (nat \<Rightarrow> nat) \<Rightarrow> 'w thread list \<Rightarrow> bool" where
  "cores_ok E g ts \<longleftrightarrow>
    (\<forall>c. 0 < c \<and> c < SYS_THREAD_MAX E \<longrightarrow> th_coreid (ts ! g c) = int c \<and> on_core (ts ! g c)
      \<and> (g c \<noteq> c \<longrightarrow> is_user_thread E (g c) \<and> th_state (ts ! c) = STOPPED))
    \<and> (\<forall>u. is_user_thread E u \<and> on_core (ts ! u) \<longrightarrow> (\<exists>c. 0 < c \<and> c < SYS_THREAD_MAX E \<and> g c = u))"

definition table_ok :: "('w::len, 'm) thread_env \<Rightarrow> int \<Rightarrow> 'w thread list \<Rightarrow> bool" where
  "table_ok E n ts \<longleftrightarrow> length ts = KTHREAD_MAX E \<and> 0 < SYS_THREAD_MAX E
    \<and> th_tid (ts ! 0) = 0 \<and> th_state (ts ! 0) = RUNNING \<and> th_coreid (ts ! 0) = 0
    \<and> (\<forall>i. 0 < i \<and> i < SYS_THREAD_MAX E \<longrightarrow> th_tid (ts ! i) = int i \<and> th_coreid (ts ! i) = int i \<and> th_state (ts ! i) \<in> {RUNNING, STOPPED})
    \<and> (\<forall>i < length ts. (on_core (ts ! i) \<longrightarrow> th_ctx (ts ! i) = 0) \<and> (th_state (ts ! i) = STOPPED \<longrightarrow> good_ctx E (th_ctx (ts ! i))))
    \<and> (\<forall>i < length ts. \<forall>j < length ts. th_tid (ts ! i) = th_tid (ts ! j) \<and> th_tid (ts ! i) \<noteq> - 1 \<longrightarrow> i = j)
    \<and> (\<forall>i < length ts. th_tid (ts ! i) < n)"

definition threads_ok :: "('w::len, 'm) thread_env \<Rightarrow> (nat \<Rightarrow> nat) \<Rightarrow> int \<Rightarrow> 'w thread list \<Rightarrow> bool" where
  "threads_ok E g n ts \<longleftrightarrow> table_ok E n ts \<and> cores_ok E g ts"

lemma threads_ok_view:
  assumes "map view ts = map view us"
  shows "threads_ok E g n ts \<longleftrightarrow> threads_ok E g n us"
proof -
  have len: "length ts = length us" using assms map_eq_imp_length_eq by blast
  have v: "view (ts ! i) = view (us ! i)" if "i < length us" for i using assms that len by (metis nth_map)
  have f: "th_tid (ts ! i) = th_tid (us ! i)" "th_coreid (ts ! i) = th_coreid (us ! i)" "th_state (ts ! i) = th_state (us ! i)"
    "th_ctx (ts ! i) = th_ctx (us ! i)" if "i < length us" for i
    using v [OF that] view_simps(1-4) by metis+
  show ?thesis
  proof (cases "length us = KTHREAD_MAX E \<and> 0 < SYS_THREAD_MAX E")
    case True
    then have i: "i < length us" if "i < SYS_THREAD_MAX E \<or> is_user_thread E i" for i
      using that by (auto simp: KTHREAD_MAX_def is_user_thread_def)
    have "table_ok E n ts \<longleftrightarrow> table_ok E n us"
      unfolding table_ok_def using True f i by (simp add: len cong: conj_cong)
    moreover have "cores_ok E g ts \<longleftrightarrow> cores_ok E g us" if "\<And>c. 0 < c \<Longrightarrow> c < SYS_THREAD_MAX E \<Longrightarrow> g c < length us"
      unfolding cores_ok_def using True f i that by (simp cong: conj_cong imp_cong)
    moreover have "g c < length us" if "cores_ok E g ts \<or> cores_ok E g us" "0 < c" "c < SYS_THREAD_MAX E" for c
      using that i unfolding cores_ok_def by metis
    ultimately show ?thesis unfolding threads_ok_def by blast
  next
    case False
    then show ?thesis by (auto simp: threads_ok_def table_ok_def len)
  qed
qed

lemma threads_okD:
  assumes "threads_ok E g n ts"
  shows "length ts = KTHREAD_MAX E" "0 < SYS_THREAD_MAX E" "SYS_THREAD_MAX E \<le> length ts"
    "th_tid (ts ! 0) = 0" "th_state (ts ! 0) = RUNNING" "th_coreid (ts ! 0) = 0"
    "0 < i \<Longrightarrow> i < SYS_THREAD_MAX E \<Longrightarrow> th_tid (ts ! i) = int i \<and> th_coreid (ts ! i) = int i \<and> th_state (ts ! i) \<in> {RUNNING, STOPPED}"
    "i < length ts \<Longrightarrow> on_core (ts ! i) \<Longrightarrow> th_ctx (ts ! i) = 0"
    "i < length ts \<Longrightarrow> th_state (ts ! i) = STOPPED \<Longrightarrow> good_ctx E (th_ctx (ts ! i))"
    "i < length ts \<Longrightarrow> j < length ts \<Longrightarrow> th_tid (ts ! i) = th_tid (ts ! j) \<Longrightarrow> th_tid (ts ! i) \<noteq> - 1 \<Longrightarrow> i = j"
    "i < length ts \<Longrightarrow> th_tid (ts ! i) < n"
  using assms by (auto simp: threads_ok_def table_ok_def KTHREAD_MAX_def)

lemma cores_okD:
  assumes "threads_ok E g n ts" "0 < c" "c < SYS_THREAD_MAX E"
  shows "th_coreid (ts ! g c) = int c" "on_core (ts ! g c)" "g c = c \<or> is_user_thread E (g c) \<and> th_state (ts ! c) = STOPPED"
    "g c < length ts"
  using assms by (auto simp: threads_ok_def cores_ok_def table_ok_def is_user_thread_def KTHREAD_MAX_def)

lemma user_current:
  assumes "threads_ok E g n ts" "is_user_thread E u" "on_core (ts ! u)"
  shows "\<exists>c. 0 < c \<and> c < SYS_THREAD_MAX E \<and> g c = u"
  using assms by (simp add: threads_ok_def cores_ok_def)

lemma current_unique:
  assumes ok: "threads_ok E g n ts" and c: "0 < c" "c < SYS_THREAD_MAX E"
    and j: "j < length ts" "on_core (ts ! j)" "th_coreid (ts ! j) = int c"
  shows "j = g c"
proof -
  consider "j = 0" | "0 < j" "j < SYS_THREAD_MAX E" | "is_user_thread E j"
    using j(1) unfolding threads_okD(1) [OF ok] is_user_thread_def by (metis gr0I leI)
  then show ?thesis
  proof cases
    case 1
    then show ?thesis using j(3) threads_okD(6) [OF ok] c by simp
  next
    case 2
    then have "j = c" using threads_okD(7) [OF ok 2] j(3) by simp
    then show ?thesis using cores_okD(3) [OF ok c] j(2) by auto
  next
    case 3
    then obtain d where "0 < d" "d < SYS_THREAD_MAX E" "g d = j" using user_current [OF ok 3 j(2)] by blast
    then show ?thesis using cores_okD(1) [OF ok, of d] j(3) by auto
  qed
qed

lemma get_curr_core:
  assumes "threads_ok E g n (threads s)" "0 < c" "c < SYS_THREAD_MAX E"
  shows "thread_get_curr (int c) s = Some (g c)"
  using cores_okD [OF assms] current_unique [OF assms] by (intro get_curr_unique) blast+

text \<open>The three ways the table changes: a user thread that runs on no core; the thread that a core
  runs, replaced by another; and the end of the thread that a core runs.\<close>

lemma table_update:
  assumes ok: "table_ok E n ts" and z: "0 < z" "z < length ts" and n: "n \<le> n'"
    and u: "on_core u \<Longrightarrow> th_ctx u = 0" "th_state u = STOPPED \<Longrightarrow> good_ctx E (th_ctx u)" "th_tid u < n'"
      "th_tid u = - 1 \<or> (\<forall>j < length ts. j \<noteq> z \<longrightarrow> th_tid (ts ! j) \<noteq> th_tid u)"
      "z < SYS_THREAD_MAX E \<Longrightarrow> th_tid u = int z \<and> th_coreid u = int z \<and> th_state u \<in> {RUNNING, STOPPED}"
  shows "table_ok E n' (ts[z := u])"
proof -
  note ok' = ok [unfolded table_ok_def]
  have "i = j" if "i < length ts" "j < length ts" "th_tid (ts[z := u] ! i) = th_tid (ts[z := u] ! j)" "th_tid (ts[z := u] ! i) \<noteq> - 1" for i j
    using that ok' u(4) by (cases "i = z"; cases "j = z") auto
  moreover have "th_tid (ts[z := u] ! i) < n'" if "i < length ts" for i
    using that ok' u(3) n by (cases "i = z") force+
  moreover have "(on_core (ts[z := u] ! i) \<longrightarrow> th_ctx (ts[z := u] ! i) = 0)
      \<and> (th_state (ts[z := u] ! i) = STOPPED \<longrightarrow> good_ctx E (th_ctx (ts[z := u] ! i)))" if "i < length ts" for i
    using that ok' u(1,2) by (cases "i = z") auto
  moreover have "th_tid (ts[z := u] ! i) = int i \<and> th_coreid (ts[z := u] ! i) = int i \<and> th_state (ts[z := u] ! i) \<in> {RUNNING, STOPPED}"
    if "0 < i" "i < SYS_THREAD_MAX E" for i
    using that ok' u(5) z by (cases "i = z") auto
  ultimately show ?thesis using ok' z by (simp add: table_ok_def)
qed

lemma tid_distinct:
  assumes "threads_ok E g n ts" "i < length ts"
  shows "th_tid (ts ! i) = - 1 \<or> (\<forall>j < length ts. j \<noteq> i \<longrightarrow> th_tid (ts ! j) \<noteq> th_tid (ts ! i))"
  using threads_okD(10) [OF assms] by metis

lemma threads_ok_inactive:
  assumes ok: "threads_ok E g n ts" and z: "is_user_thread E z" "\<not> on_core (ts ! z)" and n: "n \<le> n'"
    and u: "\<not> on_core u" "th_state u = STOPPED \<Longrightarrow> good_ctx E (th_ctx u)" "th_tid u < n'"
      "th_tid u = - 1 \<or> (\<forall>j < length ts. j \<noteq> z \<longrightarrow> th_tid (ts ! j) \<noteq> th_tid u)"
  shows "threads_ok E g n' (ts[z := u])"
proof -
  have z': "0 < z" "z < length ts" "\<not> z < SYS_THREAD_MAX E" using z(1) threads_okD(1,2) [OF ok] by (auto simp: is_user_thread_def)
  have "table_ok E n' (ts[z := u])"
    by (rule table_update) (use ok z' n u in \<open>auto simp: threads_ok_def\<close>)
  moreover have "cores_ok E g (ts[z := u])"
    unfolding cores_ok_def
  proof (intro conjI allI impI; (elim conjE)?)
    fix c
    assume c: "0 < c" "c < SYS_THREAD_MAX E"
    have "g c \<noteq> z" "c \<noteq> z" using cores_okD(2) [OF ok c] z(2) c z'(3) by auto
    then show "th_coreid (ts[z := u] ! g c) = int c" "on_core (ts[z := u] ! g c)"
      "g c \<noteq> c \<Longrightarrow> is_user_thread E (g c)" "g c \<noteq> c \<Longrightarrow> th_state (ts[z := u] ! c) = STOPPED"
      using cores_okD [OF ok c] by auto
  next
    fix v
    assume v: "is_user_thread E v" "on_core (ts[z := u] ! v)"
    then have "v \<noteq> z" using u(1) z'(2) by auto
    then show "\<exists>c. 0 < c \<and> c < SYS_THREAD_MAX E \<and> g c = v" using user_current [OF ok] v by auto
  qed
  ultimately show ?thesis by (simp add: threads_ok_def)
qed

lemma threads_ok_switch:
  assumes ok: "threads_ok E g n ts" and c: "0 < c" "c < SYS_THREAD_MAX E"
    and x: "x \<noteq> g c" "x = c \<or> is_user_thread E x \<and> \<not> on_core (ts ! x)"
    and cur: "\<not> on_core u" "th_tid u = th_tid (ts ! g c)" "good_ctx E (th_ctx u)" "g c = c \<Longrightarrow> th_state u = STOPPED \<and> th_coreid u = int c"
    and nxt: "th_state v = RUNNING" "th_tid v = th_tid (ts ! x)" "th_coreid v = int c" "th_ctx v = 0"
  shows "threads_ok E (g(c := x)) n (ts[g c := u, x := v])"
proof -
  let ?ts = "ts[g c := u, x := v]"
  have len: "g c < length ts" "x < length ts" "0 < g c" "0 < x"
    using cores_okD(3,4) [OF ok c] x(2) c threads_okD(1,2,3) [OF ok] by (auto simp: is_user_thread_def)
  have tab: "table_ok E n ts" using ok by (simp add: threads_ok_def)
  have t1: "table_ok E n (ts[g c := u])"
  proof (rule table_update [OF tab])
    show "th_tid u < n" using threads_okD(11) [OF ok len(1)] cur(2) by simp
    show "th_tid u = - 1 \<or> (\<forall>j < length ts. j \<noteq> g c \<longrightarrow> th_tid (ts ! j) \<noteq> th_tid u)" using tid_distinct [OF ok len(1)] cur(2) by simp
    assume "g c < SYS_THREAD_MAX E"
    then have "g c = c" using cores_okD(3) [OF ok c] by (auto simp: is_user_thread_def)
    then show "th_tid u = int (g c) \<and> th_coreid u = int (g c) \<and> th_state u \<in> {RUNNING, STOPPED}"
      using cur(2,4) threads_okD(7) [OF ok c] by simp
  qed (use len cur in simp_all)
  have "table_ok E n ?ts"
  proof (rule table_update [OF t1])
    show "th_tid v < n" using threads_okD(11) [OF ok len(2)] nxt(2) by simp
    show "th_tid v = - 1 \<or> (\<forall>j < length (ts[g c := u]). j \<noteq> x \<longrightarrow> th_tid (ts[g c := u] ! j) \<noteq> th_tid v)"
      using tid_distinct [OF ok len(2)] x(1) nxt(2) cur(2) len by (auto simp: nth_list_update)
    assume "x < SYS_THREAD_MAX E"
    then have "x = c" using x(2) by (auto simp: is_user_thread_def)
    then show "th_tid v = int x \<and> th_coreid v = int x \<and> th_state v \<in> {RUNNING, STOPPED}"
      using nxt threads_okD(7) [OF ok c] by simp
  qed (use len nxt in simp_all)
  moreover have "cores_ok E (g(c := x)) ?ts"
    unfolding cores_ok_def
  proof (intro conjI allI impI; (elim conjE)?)
    fix d
    assume d: "0 < d" "d < SYS_THREAD_MAX E"
    have other: "g d \<noteq> g c \<and> g d \<noteq> x \<and> d \<noteq> x \<and> d \<noteq> g c" if "d \<noteq> c"
    proof (intro conjI)
      show "g d \<noteq> g c" using cores_okD(1) [OF ok d] cores_okD(1) [OF ok c] that by auto
      show "g d \<noteq> x" using x(2) cores_okD(1,2) [OF ok d] threads_okD(7) [OF ok c] that by auto
      show "d \<noteq> x" using x(2) that d by (auto simp: is_user_thread_def)
      show "d \<noteq> g c" using cores_okD(3) [OF ok c] that d by (auto simp: is_user_thread_def)
    qed
    show "th_coreid (?ts ! (g(c := x)) d) = int d" "on_core (?ts ! (g(c := x)) d)"
      using cores_okD(1,2) [OF ok d] other nxt len by (cases "d = c"; auto)+
    show "is_user_thread E ((g(c := x)) d)" if "(g(c := x)) d \<noteq> d"
      using that cores_okD(3) [OF ok d] x(2) by (cases "d = c") auto
    show "th_state (?ts ! d) = STOPPED" if "(g(c := x)) d \<noteq> d"
    proof (cases "d = c")
      case True
      then have "x \<noteq> c" using that by simp
      then show ?thesis using True cores_okD(3) [OF ok c] cur(4) len x(1) by (cases "g c = c") auto
    next
      case False
      then show ?thesis using that cores_okD(3) [OF ok d] other by auto
    qed
  next
    fix w
    assume w: "is_user_thread E w" "on_core (?ts ! w)"
    show "\<exists>d. 0 < d \<and> d < SYS_THREAD_MAX E \<and> (g(c := x)) d = w"
    proof (cases "w = x")
      case True
      then show ?thesis using c by auto
    next
      case False
      then have "w \<noteq> g c" using w(2) cur(1) len x(1) by auto
      then obtain d where "0 < d" "d < SYS_THREAD_MAX E" "g d = w" using user_current [OF ok w(1)] w(2) False by auto
      then show ?thesis using \<open>w \<noteq> g c\<close> by (metis fun_upd_other)
    qed
  qed
  ultimately show ?thesis by (simp add: threads_ok_def)
qed

lemma threads_ok_terminate:
  assumes ok: "threads_ok E g n ts" and c: "0 < c" "c < SYS_THREAD_MAX E" and user: "is_user_thread E (g c)"
  shows "threads_ok E g n (ts[g c := (ts ! g c)\<lparr>th_state := TERMINATED\<rparr>])"
proof -
  let ?ts = "ts[g c := (ts ! g c)\<lparr>th_state := TERMINATED\<rparr>]"
  have len: "g c < length ts" "0 < g c" "\<not> g c < SYS_THREAD_MAX E"
    using user threads_okD(1,2) [OF ok] by (auto simp: is_user_thread_def)
  have same: "th_tid (?ts ! i) = th_tid (ts ! i)" "th_coreid (?ts ! i) = th_coreid (ts ! i)" "on_core (?ts ! i) = on_core (ts ! i)"
      "th_ctx (?ts ! i) = th_ctx (ts ! i)" for i
    using cores_okD(2) [OF ok c] len by (cases "i = g c"; simp)+
  have sys: "th_state (?ts ! i) = th_state (ts ! i)" if "i < SYS_THREAD_MAX E" for i using that len by (cases "i = g c") auto
  have tab: "table_ok E n ts" using ok by (simp add: threads_ok_def)
  have "table_ok E n ?ts"
    by (rule table_update [OF tab])
      (use len threads_okD(8,11) [OF ok len(1)] cores_okD(2) [OF ok c] tid_distinct [OF ok len(1)] in simp_all)
  moreover have "cores_ok E g ?ts"
    using ok sys unfolding threads_ok_def cores_ok_def same by simp
  ultimately show ?thesis by (simp add: threads_ok_def)
qed

end
