(* ===== verification/Thread_Ops.thy ===== *)
theory Thread_Ops
  imports Thread_Facts
begin

text \<open>
  The operations of the thread manager keep its invariant, and \<open>thread_yield\<close> implements
  round robin on the list of schedulable threads.  A call of \<open>thread_yield\<close> is taken
  to reach its context switch before another core enters the thread manager; the source
  releases its lock before the switch, and \<open>Thread_Limits\<close> shows what happens otherwise.
\<close>

section \<open>Invariant\<close>

definition tm_ok :: "('w::len, 'm) thread_env \<Rightarrow> (nat \<Rightarrow> nat) \<Rightarrow> nat list \<Rightarrow> nat list list \<Rightarrow> ('w, 'm) tm \<Rightarrow> bool" where
  "tm_ok E g xs wss s \<longleftrightarrow> threads_ok E g (next_tid s) (threads s) \<and> ready E s xs \<and> waits s wss
    \<and> (\<forall>t \<in> set xs. good_ctx E (th_ctx (threads s ! t))) \<and> linked s
    \<and> length (joincond s) = KTHREAD_MAX E \<and> length (ustacks s) = THREAD_MAX E \<and> length (kstacks s) = THREAD_MAX E"

text \<open>Round robin: the next thread to run and the queue that remains.\<close>

definition yield_abs :: "bool \<Rightarrow> nat \<Rightarrow> nat \<Rightarrow> nat list \<Rightarrow> nat \<times> nat list" where
  "yield_abs terminated idle cur xs =
    (case xs of
       [] \<Rightarrow> (if terminated then idle else cur, [])
     | y # ys \<Rightarrow> (y, if terminated \<or> cur = idle then ys else ys @ [cur]))"

section \<open>Yielding\<close>

lemma dequeue:
  assumes rd: "ready E s (y # ys)" and wt: "waits s wss"
    and s': "s' = set_thread y (\<lambda>t. t\<lparr>th_next := None, th_coreid := c\<rparr>) (s\<lparr>sq_head := th_next (threads s ! y), sq_size := sq_size s - 1\<rparr>)"
  shows "ready E s' ys" "waits s' wss" "same_tables s s'" "map view (threads s') = (map view (threads s))[y := (view (threads s ! y))\<lparr>th_coreid := c\<rparr>]"
proof -
  have y: "y \<notin> set ys" "y < length (threads s)" "schedulable (threads s ! y)"
    using rd links_distinct [of "threads s" "sq_head s" "y # ys"] by (auto simp: ready_def)
  have "ready E (s\<lparr>sq_head := th_next (threads s ! y), sq_size := sq_size s - 1\<rparr>) ys"
    using rd by (auto simp: ready_def)
  then show "ready E s' ys"
    by (rule ready_update [where z = y and u = "(threads s ! y)\<lparr>th_next := None, th_coreid := c\<rparr>"]) (use y in \<open>simp_all add: s'\<close>)
  have "y \<notin> set (concat wss)" using waits_running [OF wt] y(3) by (auto simp: schedulable_def simp del: set_concat)
  then show "waits s' wss" unfolding s' by (intro waits_update [OF wt]) simp_all
  have "linked s \<Longrightarrow> linked s'"
    unfolding s' by (rule linked_set_thread) (simp_all add: linked_def)
  then show "same_tables s s'" by (simp add: s' same_tables_def)
  show "map view (threads s') = (map view (threads s))[y := (view (threads s ! y))\<lparr>th_coreid := c\<rparr>]"
    using y(2) by (simp add: s' map_update)
qed

lemma yield_next_spec:
  assumes rd: "ready E s xs" and wt: "waits s (ws # wss)" and cur: "cur < length (threads s)" "on_core (threads s ! cur)"
    "cur \<notin> set (concat (ws # wss))" "cur = idle \<or> is_user_thread E cur"
  defines "fin \<equiv> th_state (threads s ! cur) = TERMINATED"
  defines "resched \<equiv> xs \<noteq> [] \<and> \<not> fin \<and> cur \<noteq> idle"
  shows "\<exists>x ys s'. yield_abs fin idle cur xs = (x, ys) \<and> yield_next E c cur idle s = Some (x, s') \<and> ready E s' ys
    \<and> waits s' ((if resched then [] else ws) # wss) \<and> same_tables s s'
    \<and> map view (threads s') = (if xs = [] then map view (threads s)
        else (map view (threads s))[cur := if fin then view (threads s ! cur)
               else (view (threads s ! cur))\<lparr>th_state := STOPPED, th_coreid := if cur = idle then th_coreid (threads s ! cur) else - 1\<rparr>,
             x := (view (threads s ! x))\<lparr>th_coreid := c\<rparr>])"
proof (cases xs)
  case Nil
  then have "yield_next E c cur idle s = Some (if fin then idle else cur, s)"
    using rd by (auto simp: yield_next_def ready_def fin_def)
  then show ?thesis using Nil rd wt by (auto simp: yield_abs_def resched_def same_tables_def)
next
  case (Cons y ys)
  define s1 where "s1 = set_thread y (\<lambda>t. t\<lparr>th_next := None, th_coreid := c\<rparr>) (s\<lparr>sq_head := th_next (threads s ! y), sq_size := sq_size s - 1\<rparr>)"
  note d = dequeue [OF rd [unfolded Cons] wt s1_def]
  have y: "y < length (threads s)" "schedulable (threads s ! y)" "sq_head s = Some y" "sq_size s \<noteq> 0" using rd Cons by (auto simp: ready_def)
  have ne: "cur \<noteq> y" and nys: "cur \<notin> set ys" using rd cur(2) Cons by (auto simp: ready_def schedulable_def)
  have st: "th_state (threads s1 ! cur) = th_state (threads s ! cur)" using ne by (simp add: s1_def)
  define s2 where "s2 = set_thread cur (\<lambda>t. t\<lparr>th_state := STOPPED\<rparr>) s1"
  have run: "yield_next E c cur idle s =
      (if fin then Some (y, s1) else do { s \<leftarrow> (if cur \<noteq> idle then thread_schedule E cur s2 else Some s2); Some (y, s) })"
    using y st by (simp add: yield_next_def Let_def fin_def s1_def s2_def)
  show ?thesis
  proof (cases fin)
    case True
    then have "yield_next E c cur idle s = Some (y, s1)" by (simp add: run)
    moreover have "(map view (threads s))[cur := view (threads s ! cur)] = map view (threads s)"
      using cur(1) by (simp add: list_update_same_conv)
    ultimately show ?thesis using True Cons d by (auto simp: yield_abs_def resched_def)
  next
    case False
    have v1: "view (threads s1 ! cur) = view (threads s ! cur)" using ne by (simp add: s1_def)
    have r2: "ready E s2 ys" by (rule ready_update [OF d(1), where z = cur and u = "(threads s1 ! cur)\<lparr>th_state := STOPPED\<rparr>"]) (use nys in \<open>simp_all add: s2_def\<close>)
    have w2: "waits s2 (ws # wss)" by (rule waits_update [OF d(2) cur(3), where u = "(threads s1 ! cur)\<lparr>th_state := STOPPED\<rparr>"]) (simp_all add: s2_def)
    have v2: "map view (threads s2) = (map view (threads s1))[cur := (view (threads s ! cur))\<lparr>th_state := STOPPED\<rparr>]"
      using v1 by (simp add: s2_def map_update)
    have "linked s1 \<Longrightarrow> linked s2" unfolding s2_def by (rule linked_same) simp_all
    then have t2: "same_tables s s2" using d(3) by (simp add: same_tables_def s2_def)
    show ?thesis
    proof (cases "cur = idle")
      case True
      then have run': "yield_next E c cur idle s = Some (y, s2)" unfolding run using False by simp
      have same: "(view (threads s ! cur))\<lparr>th_state := STOPPED, th_coreid := th_coreid (threads s ! cur)\<rparr> = (view (threads s ! cur))\<lparr>th_state := STOPPED\<rparr>"
        by (simp add: view_def)
      have "map view (threads s2) = (map view (threads s))[cur := (view (threads s ! cur))\<lparr>th_state := STOPPED, th_coreid := th_coreid (threads s ! cur)\<rparr>,
          y := (view (threads s ! y))\<lparr>th_coreid := c\<rparr>]"
        unfolding v2 d(4) same using ne by (rule list_update_swap [symmetric])
      then show ?thesis using run' True False Cons r2 w2 t2 by (auto simp: yield_abs_def resched_def)
    next
      case notidle: False
      have len: "cur < length (threads s2)" using cur(1) by (simp add: s2_def s1_def)
      have v2': "view (threads s2 ! cur) = (view (threads s ! cur))\<lparr>th_state := STOPPED\<rparr>"
        using cur(1) v1 by (simp add: s2_def s1_def)
      obtain s3 where s3: "thread_schedule E cur s2 = Some s3" "ready E s3 (ys @ [cur])" "waits s3 ([] # wss)" "same_tables s2 s3"
          "map view (threads s3) = (map view (threads s2))[cur := (view (threads s2 ! cur))\<lparr>th_coreid := - 1\<rparr>]"
        using schedule_spec [OF r2 w2 nys] cur(4) notidle len by (auto simp: schedulable_def s2_def)
      have "yield_next E c cur idle s = Some (y, s3)" using False notidle s3(1) by (simp add: run)
      moreover have "map view (threads s3) = (map view (threads s))[cur := (view (threads s ! cur))\<lparr>th_state := STOPPED, th_coreid := - 1\<rparr>,
          y := (view (threads s ! y))\<lparr>th_coreid := c\<rparr>]"
        unfolding s3(5) v2 d(4) v2' list_update_overwrite using ne by (simp add: list_update_swap)
      moreover have "same_tables s s3" using t2 s3(4) by (auto simp: same_tables_def)
      ultimately show ?thesis using s3 Cons False notidle by (auto simp: yield_abs_def resched_def)
    qed
  qed
qed


text \<open>Updates of a thread that neither its queue nor its state sees.\<close>

lemma ready_same:
  assumes "ready E s xs" "th_next (f (threads s ! z)) = th_next (threads s ! z)" "th_state (f (threads s ! z)) = th_state (threads s ! z)"
    "th_coreid (f (threads s ! z)) = th_coreid (threads s ! z)"
  shows "ready E (set_thread z f s) xs"
  by (rule ready_update [OF assms(1), where z = z and u = "f (threads s ! z)"]) (use assms in simp_all)

lemma waits_same:
  assumes w: "waits s wss" and f: "th_next (f (threads s ! z)) = th_next (threads s ! z)" "th_state (f (threads s ! z)) = th_state (threads s ! z)"
  shows "waits (set_thread z f s) wss"
proof -
  have eq: "th_next (threads (set_thread z f s) ! x) = th_next (threads s ! x) \<and> th_state (threads (set_thread z f s) ! x) = th_state (threads s ! x)" for x
    using f by (cases "x = z"; cases "z < length (threads s)") (simp_all add: list_update_beyond)
  have "links (threads (set_thread z f s)) q ws = links (threads s) q ws" for q ws by (rule links_cong) (use eq in blast)
  then have "links (threads (set_thread z f s)) = links (threads s)" by blast
  then show ?thesis using w eq by (simp add: waits_def)
qed

lemma view_nth:
  assumes "map view ts = map view us" "i < length us"
  shows "th_tid (ts ! i) = th_tid (us ! i)" "th_coreid (ts ! i) = th_coreid (us ! i)" "th_state (ts ! i) = th_state (us ! i)"
    "th_ctx (ts ! i) = th_ctx (us ! i)"
proof -
  have "view (ts ! i) = view (us ! i)" using assms map_eq_imp_length_eq [OF assms(1)] by (metis nth_map)
  then show "th_tid (ts ! i) = th_tid (us ! i)" "th_coreid (ts ! i) = th_coreid (us ! i)" "th_state (ts ! i) = th_state (us ! i)"
    "th_ctx (ts ! i) = th_ctx (us ! i)"
    using view_simps(1-4) by metis+
qed

lemma core_tid:
  assumes ok: "threads_ok E g n ts" and x: "0 < x" "x < length ts"
  shows "th_tid (ts ! x) \<noteq> 0"
  using threads_okD(4,10) [OF ok] x by (metis neq0_conv not_less_iff_gr_or_eq order_less_trans zero_neq_neg_one)

lemma switch_to_spec:
  assumes ok: "threads_ok E g n (threads s)" and c: "0 < c" "c < SYS_THREAD_MAX E"
    and x: "x \<noteq> g c" "x = c \<or> is_user_thread E x \<and> \<not> on_core (threads s ! x)" "good_ctx E (th_ctx (threads s ! x))"
    and u: "\<not> on_core u" "th_tid u = th_tid (threads s ! g c)" "th_ctx u = 0" "g c = c \<Longrightarrow> th_state u = STOPPED \<and> th_coreid u = int c"
    and s2: "map view (threads s2) = map view ((threads s)[g c := u, x := (threads s ! x)\<lparr>th_coreid := int c, th_state := RUNNING\<rparr>])"
    and hal: "good_ctx E (context_save E (g c))"
  defines "s3 \<equiv> set_thread x (\<lambda>t. t\<lparr>th_ctx := 0\<rparr>) (set_thread (g c) (\<lambda>t. t\<lparr>th_ctx := context_save E (g c)\<rparr>) s2)"
  shows "th_ctx (threads s2 ! g c) = 0" "thread_switch_to E (int c) (g c) x s2 = Some (0, s3)"
    "threads_ok E (g(c := x)) n (threads s3)"
proof -
  define us where "us = (threads s)[g c := u, x := (threads s ! x)\<lparr>th_coreid := int c, th_state := RUNNING\<rparr>]"
  have len: "g c < length (threads s)" "x < length (threads s)" "0 < x"
    using cores_okD(4) [OF ok c] x(2) c threads_okD(1,2,3) [OF ok] by (auto simp: is_user_thread_def)
  have len2: "length us = length (threads s)" "length (threads s2) = length (threads s)"
    using map_eq_imp_length_eq [OF s2] by (simp_all add: us_def)
  note v = view_nth [OF s2 [folded us_def], unfolded len2]
  have us_c: "us ! g c = u" and us_x: "us ! x = (threads s ! x)\<lparr>th_coreid := int c, th_state := RUNNING\<rparr>"
    using len x(1) by (simp_all add: us_def)
  have cur: "thread_get_curr (int c) s2 = Some x"
  proof (rule get_curr_unique)
    fix j
    assume j: "j < length (threads s2)" "on_core (threads s2 ! j)" "th_coreid (threads s2 ! j) = int c"
    show "j = x"
    proof (rule ccontr)
      assume "j \<noteq> x"
      moreover have "j \<noteq> g c" using j u(1) v(3) [OF len(1)] us_c by auto
      ultimately have "us ! j = threads s ! j" by (simp add: us_def)
      then have "j = g c" using j v [of j] len2 by (intro current_unique [OF ok c]) auto
      then show False using \<open>j \<noteq> g c\<close> by blast
    qed
  qed (use len len2 v [OF len(2)] us_x in simp_all)
  show ctx: "th_ctx (threads s2 ! g c) = 0" using v(4) [OF len(1)] us_c u(3) by simp
  have tid: "th_tid (threads s2 ! x) \<noteq> 0" using v(1) [OF len(2)] us_x core_tid [OF ok len(3,2)] by simp
  have "th_ctx (threads s2 ! x) = th_ctx (threads s ! x)" using v(4) [OF len(2)] us_x by simp
  then show "thread_switch_to E (int c) (g c) x s2 = Some (0, s3)"
    using cur ctx tid x(3) by (simp add: thread_switch_to_def s3_def good_ctx_def)
  have "map view (threads s3) = map view ((threads s)[g c := u\<lparr>th_ctx := context_save E (g c)\<rparr>,
      x := (threads s ! x)\<lparr>th_coreid := int c, th_state := RUNNING, th_ctx := 0\<rparr>])"
  proof -
    have vs: "view (threads s2 ! g c) = view u" "view (threads s2 ! x) = (view (threads s ! x))\<lparr>th_coreid := int c, th_state := RUNNING\<rparr>"
      using arg_cong [OF s2, of "\<lambda>l. l ! g c"] arg_cong [OF s2, of "\<lambda>l. l ! x"] len len2 x(1) by simp_all
    have "map view (threads s3) = (map view (threads s2))[g c := (view u)\<lparr>th_ctx := context_save E (g c)\<rparr>,
        x := (view (threads s ! x))\<lparr>th_coreid := int c, th_state := RUNNING, th_ctx := 0\<rparr>]"
      using x(1) vs by (simp add: s3_def map_update)
    then show ?thesis using x(1) by (simp add: s2 map_update) (simp add: list_update_swap)
  qed
  moreover have "threads_ok E (g(c := x)) n ((threads s)[g c := u\<lparr>th_ctx := context_save E (g c)\<rparr>,
      x := (threads s ! x)\<lparr>th_coreid := int c, th_state := RUNNING, th_ctx := 0\<rparr>])"
    by (rule threads_ok_switch [OF ok c x(1,2)]) (use u hal in simp_all)
  ultimately show "threads_ok E (g(c := x)) n (threads s3)" using threads_ok_view by blast
qed


lemma tm_okD:
  assumes "tm_ok E g xs wss s"
  shows "threads_ok E g (next_tid s) (threads s)" "ready E s xs" "waits s wss" "t \<in> set xs \<Longrightarrow> good_ctx E (th_ctx (threads s ! t))"
    "length (joincond s) = KTHREAD_MAX E" "length (ustacks s) = THREAD_MAX E" "length (kstacks s) = THREAD_MAX E" "linked s"
  using assms by (auto simp: tm_ok_def)

lemma update_pair: "a \<noteq> b \<Longrightarrow> xs[a := p, b := q, a := p', b := q'] = xs[a := p', b := q']"
  by (metis list_update_overwrite list_update_swap)

text \<open>The thread that \<open>thread_yield\<close> leaves, and what round robin chooses.\<close>

definition left_thread :: "nat \<Rightarrow> nat \<Rightarrow> ('w::len) thread \<Rightarrow> 'w thread" where
  "left_thread c cur t =
    (if th_state t = TERMINATED then t\<lparr>th_state := ZOMBIE\<rparr>
     else t\<lparr>th_state := STOPPED, th_coreid := if cur = c then th_coreid t else - 1\<rparr>)"

lemma chosen:
  assumes ok: "tm_ok E g xs wss s" and c: "0 < c" "c < SYS_THREAD_MAX E"
    and y: "yield_abs (th_state (threads s ! g c) = TERMINATED) c (g c) xs = (x, ys)" and ne: "xs \<noteq> [] \<or> th_state (threads s ! g c) = TERMINATED"
  shows "x \<noteq> g c" "x = c \<or> is_user_thread E x \<and> \<not> on_core (threads s ! x)" "good_ctx E (th_ctx (threads s ! x))" "x \<notin> set ys"
    "x \<notin> set (concat wss)" "set ys \<subseteq> set xs \<union> {g c}" "x < length (threads s)"
proof -
  note cur = cores_okD [OF tm_okD(1) [OF ok] c] and cst = threads_okD(7) [OF tm_okD(1) [OF ok] c]
  have run: "z \<notin> set (concat wss)" if "th_state (threads s ! z) \<noteq> RUNNING" for z using waits_running [OF tm_okD(3) [OF ok]] that by blast
  have "x \<noteq> g c \<and> (x = c \<or> is_user_thread E x \<and> \<not> on_core (threads s ! x)) \<and> good_ctx E (th_ctx (threads s ! x)) \<and> x \<notin> set ys
    \<and> x \<notin> set (concat wss) \<and> set ys \<subseteq> set xs \<union> {g c} \<and> x < length (threads s)"
  proof (cases xs)
    case Nil
    then have e: "th_state (threads s ! g c) = TERMINATED" "x = c" "ys = []" using y ne by (auto simp: yield_abs_def split: if_splits)
    then have "g c \<noteq> c" using cst by auto
    then have "th_state (threads s ! c) = STOPPED" using cur(3) by simp
    moreover have "c < length (threads s)" using threads_okD(3) [OF tm_okD(1) [OF ok]] c by simp
    ultimately show ?thesis using e run [of c] threads_okD(9) [OF tm_okD(1) [OF ok]] \<open>g c \<noteq> c\<close> by auto
  next
    case (Cons z zs)
    then have x: "x = z" and ys: "ys = zs \<or> ys = zs @ [g c]" using y by (auto simp: yield_abs_def split: if_splits)
    have z: "is_user_thread E z" "z < length (threads s)" "schedulable (threads s ! z)" "z \<notin> set zs"
      using tm_okD(2) [OF ok] Cons links_distinct [of "threads s" "sq_head s" xs] by (auto simp: ready_def)
    then have "z \<noteq> g c" using cur(2) by (auto simp: schedulable_def)
    then show ?thesis using x ys z run [of z] tm_okD(4) [OF ok, of z] Cons by (auto simp: schedulable_def)
  qed
  then show "x \<noteq> g c" "x = c \<or> is_user_thread E x \<and> \<not> on_core (threads s ! x)" "good_ctx E (th_ctx (threads s ! x))" "x \<notin> set ys"
    "x \<notin> set (concat wss)" "set ys \<subseteq> set xs \<union> {g c}" "x < length (threads s)" by blast+
qed

lemma yield_select_spec:
  assumes ok: "tm_ok E g xs (ws # wss) s" and c: "0 < c" "c < SYS_THREAD_MAX E" and awake: "g c \<notin> set (concat (ws # wss))"
    and y: "yield_abs (th_state (threads s ! g c) = TERMINATED) c (g c) xs = (x, ys)" and ne: "xs \<noteq> [] \<or> th_state (threads s ! g c) = TERMINATED"
  shows "\<exists>s' ws'. thread_yield_select E (int c) s = Some (Inr (g c, x), s') \<and> ready E s' ys \<and> waits s' (ws' # wss) \<and> same_tables s s'
    \<and> map view (threads s') = map view ((threads s)[g c := left_thread c (g c) (threads s ! g c),
          x := (threads s ! x)\<lparr>th_coreid := int c, th_state := RUNNING\<rparr>])
    \<and> (th_state (threads s ! g c) = TERMINATED \<longrightarrow> th_next (threads s' ! x) = Some (g c))"
proof -
  note ok1 = tm_okD(1) [OF ok]
  note cur = cores_okD [OF ok1 c] and ch = chosen [OF ok c y ne]
  let ?fin = "th_state (threads s ! g c) = TERMINATED"
  have pos: "0 < g c" using cur(3) c threads_okD(2) [OF ok1] by (auto simp: is_user_thread_def)
  have start: "thread_get_curr (int c) s = Some (g c)" "th_tid (threads s ! g c) \<noteq> 0" "nat (th_coreid (threads s ! g c)) = c"
    using get_curr_core [OF ok1 c] core_tid [OF ok1 pos cur(4)] cur(1) by simp_all
  have user: "g c = c \<or> is_user_thread E (g c)" using cur(3) by blast
  obtain s1 ws' where s1: "yield_next E (int c) (g c) c s = Some (x, s1)" "ready E s1 ys" "waits s1 (ws' # wss)" "same_tables s s1"
      "set (concat (ws' # wss)) \<subseteq> set (concat (ws # wss))"
    and v1: "map view (threads s1) = (if xs = [] then map view (threads s)
        else (map view (threads s))[g c := if ?fin then view (threads s ! g c)
               else (view (threads s ! g c))\<lparr>th_state := STOPPED, th_coreid := if g c = c then th_coreid (threads s ! g c) else - 1\<rparr>,
             x := (view (threads s ! x))\<lparr>th_coreid := int c\<rparr>])"
    using yield_next_spec [OF tm_okD(2,3) [OF ok] cur(4,2) awake user, of "int c"] y
    by (auto split: if_splits)
  have len: "length (threads s1) = length (threads s)" using arg_cong [OF v1, of length] by (simp split: if_splits)
  have nx: "g c \<noteq> x" using ch(1) by simp
  have fin: "x = c \<and> th_coreid (threads s ! c) = int c \<and> ?fin" if "xs = []"
    using that y ne threads_okD(7) [OF ok1 c] by (auto simp: yield_abs_def split: if_splits)
  have vx: "view (threads s1 ! x) = (view (threads s ! x))\<lparr>th_coreid := int c\<rparr>"
    using arg_cong [OF v1, of "\<lambda>l. l ! x"] len ch(7) fin by (cases "xs = []") (simp_all add: view_def)
  have vc: "view (threads s1 ! g c) = (if ?fin then view (threads s ! g c)
      else (view (threads s ! g c))\<lparr>th_state := STOPPED, th_coreid := if g c = c then th_coreid (threads s ! g c) else - 1\<rparr>)"
    using arg_cong [OF v1, of "\<lambda>l. l ! g c"] len cur(4) ch(1) fin by (cases "xs = []") simp_all
  have out: "g c \<notin> set (concat (ws' # wss))" "x \<notin> set (concat (ws' # wss))" using awake ch(5) s1(5) by blast+
  show ?thesis
  proof (cases ?fin)
    case True
    define s2 where "s2 = set_thread (g c) (\<lambda>t. t\<lparr>th_state := ZOMBIE\<rparr>) s1"
    define s3 where "s3 = set_thread x (\<lambda>t. t\<lparr>th_next := Some (g c), th_state := RUNNING\<rparr>) s2"
    have st: "th_state (threads s1 ! g c) = TERMINATED" using arg_cong [OF vc, of th_state] True by simp
    have s3': "set_thread x (\<lambda>t. t\<lparr>th_state := RUNNING\<rparr>) (set_thread x (\<lambda>t. t\<lparr>th_next := Some (g c)\<rparr>) s2) = s3"
      using ch(7) len by (simp add: s3_def set_thread_def s2_def)
    have "c \<noteq> g c" using True threads_okD(7) [OF ok1 c] by auto
    then have "thread_yield_select E (int c) s = Some (Inr (g c, x), s3)"
      using start s1(1) st ch(1) s3' by (simp add: thread_yield_select_def s2_def [symmetric])
    moreover have "g c \<notin> set ys" using s1(2) st by (auto simp: ready_def schedulable_def)
    then have "ready E s2 ys"
      by (intro ready_update [OF s1(2), where z = "g c" and u = "(threads s1 ! g c)\<lparr>th_state := ZOMBIE\<rparr>"]) (simp_all add: s2_def)
    then have "ready E s3 ys"
      by (rule ready_update [where z = x and u = "(threads s2 ! x)\<lparr>th_next := Some (g c), th_state := RUNNING\<rparr>"])
        (use ch(4) in \<open>simp_all add: s3_def\<close>)
    moreover have "waits s2 (ws' # wss)"
      by (rule waits_update [OF s1(3) out(1), where u = "(threads s1 ! g c)\<lparr>th_state := ZOMBIE\<rparr>"]) (simp_all add: s2_def)
    then have "waits s3 (ws' # wss)"
      by (rule waits_update [OF _ out(2), where u = "(threads s2 ! x)\<lparr>th_next := Some (g c), th_state := RUNNING\<rparr>"]) (simp_all add: s3_def)
    moreover have "linked s1 \<Longrightarrow> linked s2" unfolding s2_def by (rule linked_same) simp_all
    then have "linked s1 \<Longrightarrow> linked s3" unfolding s3_def using cur(4) len by (intro linked_set_thread) (auto simp: s2_def)
    then have "same_tables s s3" using s1(4) by (simp add: s3_def s2_def same_tables_def)
    moreover have "map view (threads s3) = map view ((threads s)[g c := left_thread c (g c) (threads s ! g c),
        x := (threads s ! x)\<lparr>th_coreid := int c, th_state := RUNNING\<rparr>])"
    proof -
      have "map view (threads s3) = (map view (threads s1))[g c := (view (threads s ! g c))\<lparr>th_state := ZOMBIE\<rparr>,
          x := (view (threads s ! x))\<lparr>th_coreid := int c, th_state := RUNNING\<rparr>]"
        using True vc vx ch(1) by (simp add: s3_def s2_def map_update)
      also have "\<dots> = (map view (threads s))[g c := (view (threads s ! g c))\<lparr>th_state := ZOMBIE\<rparr>,
          x := (view (threads s ! x))\<lparr>th_coreid := int c, th_state := RUNNING\<rparr>]"
        using True ch(1) by (simp add: v1 update_pair)
      finally show ?thesis using True by (simp add: left_thread_def map_update)
    qed
    moreover have "th_next (threads s3 ! x) = Some (g c)" using ch(7) len by (simp add: s3_def s2_def)
    ultimately show ?thesis by blast
  next
    case False
    then have xs: "xs \<noteq> []" using ne by blast
    define s3 where "s3 = set_thread x (\<lambda>t. t\<lparr>th_state := RUNNING\<rparr>) s1"
    have "th_state (threads s1 ! g c) \<noteq> TERMINATED" using arg_cong [OF vc, of th_state] False by simp
    then have "thread_yield_select E (int c) s = Some (Inr (g c, x), s3)"
      using start s1(1) by (simp add: thread_yield_select_def s3_def)
    moreover have "ready E s3 ys"
      by (rule ready_update [OF s1(2), where z = x and u = "(threads s1 ! x)\<lparr>th_state := RUNNING\<rparr>"]) (use ch(4) in \<open>simp_all add: s3_def\<close>)
    moreover have "waits s3 (ws' # wss)"
      by (rule waits_update [OF s1(3) out(2), where u = "(threads s1 ! x)\<lparr>th_state := RUNNING\<rparr>"]) (simp_all add: s3_def)
    moreover have "linked s1 \<Longrightarrow> linked s3" unfolding s3_def by (rule linked_same) simp_all
    then have "same_tables s s3" using s1(4) by (simp add: s3_def same_tables_def)
    moreover have "map view (threads s3) = map view ((threads s)[g c := left_thread c (g c) (threads s ! g c),
        x := (threads s ! x)\<lparr>th_coreid := int c, th_state := RUNNING\<rparr>])"
      using False xs vx by (simp add: s3_def map_update v1 left_thread_def)
    ultimately show ?thesis using False by blast
  qed
qed


lemma yield_spec:
  assumes ok: "tm_ok E g xs (ws # wss) s" and c: "0 < c" "c < SYS_THREAD_MAX E" and awake: "g c \<notin> set (concat (ws # wss))"
    and y: "yield_abs (th_state (threads s ! g c) = TERMINATED) c (g c) xs = (x, ys)" and hal: "\<And>t. good_ctx E (context_save E t)"
  shows "\<exists>s' ws'. thread_yield_switch E (int c) s = Some (Inr x, s') \<and> tm_ok E (g(c := x)) ys (ws' # wss) s'
    \<and> (th_state (threads s ! g c) = TERMINATED \<longrightarrow> th_state (threads s' ! g c) = ZOMBIE \<and> th_next (threads s' ! x) = Some (g c))"
proof (cases "xs = [] \<and> th_state (threads s ! g c) \<noteq> TERMINATED")
  case True
  note cur = cores_okD [OF tm_okD(1) [OF ok] c]
  have e: "x = g c" "ys = []" using y True by (simp_all add: yield_abs_def)
  have pos: "0 < g c" using cur(3) c threads_okD(2) [OF tm_okD(1) [OF ok]] by (auto simp: is_user_thread_def)
  have ctx: "th_ctx (threads s ! g c) = 0" using threads_okD(8) [OF tm_okD(1) [OF ok] cur(4,2)] .
  have "(threads s ! g c)\<lparr>th_state := RUNNING\<rparr> = threads s ! g c" using cur(2) True by simp
  then have "set_thread (g c) (\<lambda>t. t\<lparr>th_state := RUNNING\<rparr>) s = s" by (simp add: set_thread_def)
  moreover have "sq_size s = 0" using tm_okD(2) [OF ok] True by (simp add: ready_def)
  ultimately have "thread_yield_switch E (int c) s = Some (Inr x, s)"
    using get_curr_core [OF tm_okD(1) [OF ok] c] core_tid [OF tm_okD(1) [OF ok] pos cur(4)] ctx True e
    by (simp add: thread_yield_switch_def thread_yield_select_def yield_next_def)
  then show ?thesis using e ok True by auto
next
  case False
  note ok1 = tm_okD(1) [OF ok]
  have ne: "xs \<noteq> [] \<or> th_state (threads s ! g c) = TERMINATED" using False by blast
  note ch = chosen [OF ok c y ne] and cur = cores_okD [OF ok1 c]
  let ?u = "left_thread c (g c) (threads s ! g c)"
  obtain s2 ws' where s2: "thread_yield_select E (int c) s = Some (Inr (g c, x), s2)" "ready E s2 ys" "waits s2 (ws' # wss)" "same_tables s s2"
    and v2: "map view (threads s2) = map view ((threads s)[g c := ?u, x := (threads s ! x)\<lparr>th_coreid := int c, th_state := RUNNING\<rparr>])"
    and z: "th_state (threads s ! g c) = TERMINATED \<longrightarrow> th_next (threads s2 ! x) = Some (g c)"
    using yield_select_spec [OF ok c awake y ne] by blast
  have idle: "th_state (threads s ! g c) \<noteq> TERMINATED" if "g c = c" using threads_okD(7) [OF ok1 c] that by auto
  have u: "\<not> on_core ?u" "th_tid ?u = th_tid (threads s ! g c)" "th_ctx ?u = 0" "g c = c \<Longrightarrow> th_state ?u = STOPPED \<and> th_coreid ?u = int c"
    using threads_okD(8) [OF ok1 cur(4,2)] cur(1) idle by (auto simp: left_thread_def)
  define s3 where "s3 = set_thread x (\<lambda>t. t\<lparr>th_ctx := 0\<rparr>) (set_thread (g c) (\<lambda>t. t\<lparr>th_ctx := context_save E (g c)\<rparr>) s2)"
  note sw = switch_to_spec [OF ok1 c ch(1-3) u v2 hal, folded s3_def]
  have run: "thread_yield_switch E (int c) s = Some (Inr x, s3)"
    using s2(1) sw(1,2) ch(1) by (simp add: thread_yield_switch_def)
  have len: "length (threads s2) = length (threads s)" using map_eq_imp_length_eq [OF v2] by simp
  have r3: "ready E s3 ys" unfolding s3_def by (intro ready_same s2(2)) simp_all
  have w3: "waits s3 (ws' # wss)" unfolding s3_def by (intro waits_same s2(3)) simp_all
  have "good_ctx E (th_ctx (threads s3 ! t))" if t: "t \<in> set ys" for t
  proof (cases "t = g c")
    case True
    then show ?thesis using hal ch(1) cur(4) len by (simp add: s3_def)
  next
    case False
    have tx: "t \<noteq> x" "t \<in> set xs" using t ch(4,6) False by auto
    then have "t < length (threads s)" using tm_okD(2) [OF ok] by (simp add: ready_def)
    then have "th_ctx (threads s2 ! t) = th_ctx (threads s ! t)" using view_nth(4) [OF v2, of t] tx False by simp
    then show ?thesis using tm_okD(4) [OF ok tx(2)] tx False by (simp add: s3_def)
  qed
  moreover have "linked s2" using s2(4) tm_okD(8) [OF ok] by (simp add: same_tables_def)
  then have "linked s3" unfolding s3_def by (intro linked_same) simp_all
  ultimately have "tm_ok E (g(c := x)) ys (ws' # wss) s3"
    using r3 w3 sw(3) s2(4) tm_okD(5-7) [OF ok] by (auto simp: tm_ok_def same_tables_def s3_def)
  moreover have "th_state (threads s3 ! g c) = ZOMBIE \<and> th_next (threads s3 ! x) = Some (g c)" if "th_state (threads s ! g c) = TERMINATED"
    using z that view_nth(3) [OF v2, of "g c"] ch(1,7) cur(4) len by (simp add: s3_def left_thread_def)
  ultimately show ?thesis using run by blast
qed

end
