(* ===== verification/Thread_Steps.thy ===== *)
theory Thread_Steps
  imports Thread_Ops
begin

text \<open>
  Creation, exit, reaping and waiting keep the invariant of the thread manager, and no
  operation panics in a state that satisfies it.  The relation \<open>tm_step\<close> collects the
  operations; the invariant holds in every state they reach from the one \<open>thread_init\<close> builds.
\<close>

section \<open>Freeing and allocating threads\<close>

lemma zombie_user:
  assumes ok: "threads_ok E g n ts" and z: "z < length ts" "th_state (ts ! z) \<notin> {RUNNING, STOPPED}"
  shows "is_user_thread E z"
proof (cases "z < SYS_THREAD_MAX E")
  case True
  then show ?thesis using threads_okD(5) [OF ok] threads_okD(7) [OF ok, of z] z(2) by (cases "z = 0") auto
next
  case False
  then show ?thesis using threads_okD(1) [OF ok] z(1) by (simp add: is_user_thread_def)
qed

text \<open>A user thread that neither runs nor is in a queue changes.\<close>

lemma tm_ok_idle_thread:
  assumes ok: "tm_ok E g xs wss s" and z: "is_user_thread E z" "\<not> on_core (threads s ! z)" "z \<notin> set xs"
    and s': "threads s' = (threads s)[z := u]" "joincond s' = joincond s" "length (ustacks s') = length (ustacks s)"
      "length (kstacks s') = length (kstacks s)" "sq_size s' = sq_size s" "sq_head s' = sq_head s" "sq_tail s' = sq_tail s" "sq_sem s' = sq_sem s"
      "next_tid s \<le> next_tid s'"
    and u: "\<not> on_core u" "th_state u = STOPPED \<Longrightarrow> good_ctx E (th_ctx u)" "th_tid u < next_tid s'"
      "th_tid u = - 1 \<or> (\<forall>j < length (threads s). j \<noteq> z \<longrightarrow> th_tid (threads s ! j) \<noteq> th_tid u)"
      "th_next u = None \<or> th_next u = th_next (threads s ! z)"
  shows "tm_ok E g xs wss s'"
proof -
  have "z \<notin> set (concat wss)" using waits_running [OF tm_okD(3) [OF ok]] z(2) by blast
  then have "waits s' wss" using s' by (intro waits_update [OF tm_okD(3) [OF ok]]) simp_all
  moreover have "ready E s' xs" by (rule ready_update [OF tm_okD(2) [OF ok] s'(1)]) (use s' z in simp_all)
  moreover have "threads_ok E g (next_tid s') (threads s')"
    unfolding s'(1) by (rule threads_ok_inactive [OF tm_okD(1) [OF ok] z(1,2) s'(9) u(1-4)])
  moreover have "linked s'"
  proof -
    have "linked (set_thread z (\<lambda>_. u) s)"
      using u(5) linkedD [OF tm_okD(8) [OF ok]] by (intro linked_set_thread [OF tm_okD(8) [OF ok]]) auto
    then show ?thesis using linked_cong [of s' "set_thread z (\<lambda>_. u) s"] s'(1) by simp
  qed
  moreover have "good_ctx E (th_ctx (threads s' ! t))" if "t \<in> set xs" for t
    using tm_okD(4) [OF ok that] that z(3) by (cases "t = z") (simp_all add: s'(1))
  ultimately show ?thesis using s' tm_okD(5-7) [OF ok] by (simp add: tm_ok_def)
qed

lemma free_spec:
  assumes ok: "tm_ok E g xs wss s" and z: "z < length (threads s)" "th_state (threads s ! z) = ZOMBIE"
  shows "\<exists>s'. thread_free E z s = Some s' \<and> tm_ok E g xs wss s' \<and> next_tid s' = next_tid s \<and> joincond s' = joincond s
    \<and> threads s' = (threads s)[z := (threads s ! z)\<lparr>th_coreid := - 1, th_state := NOT_STARTED, th_tid := KTHREAD_NULL_TID\<rparr>]"
proof -
  note len = threads_okD(1) [OF tm_okD(1) [OF ok]]
  have user: "is_user_thread E z" using zombie_user [OF tm_okD(1) [OF ok] z(1)] z(2) by simp
  have nin: "z \<notin> set xs" using tm_okD(2) [OF ok] z(2) by (auto simp: ready_def schedulable_def)
  have pos: "0 < next_tid s" using threads_okD(11) [OF tm_okD(1) [OF ok], of 0] threads_okD(4) [OF tm_okD(1) [OF ok]] z(1) by force
  define i where "i = int z - int (SYS_THREAD_MAX E)"
  have i: "fetch (ustacks s) i = Some (ustacks s ! nat i)" "fetch (kstacks s) i = Some (kstacks s ! nat i)"
    using user tm_okD(6,7) [OF ok] by (auto simp: is_user_thread_def KTHREAD_MAX_def i_def fetch_def)
  have run: "thread_free E z s = Some ((set_thread z (\<lambda>t. t\<lparr>th_coreid := - 1, th_state := NOT_STARTED, th_tid := KTHREAD_NULL_TID\<rparr>)
      (s\<lparr>tm_kpool := snd (kpage_put (env_lay E) (kstacks s ! nat i) (snd (kpage_put (env_lay E) (ustacks s ! nat i) (tm_kpool s)))),
         ustacks := (ustacks s)[nat i := 0], kstacks := (kstacks s)[nat i := 0]\<rparr>))\<lparr>nthreads := nthreads s - 1\<rparr>)" (is "_ = Some ?s'")
    using z len i by (simp add: thread_free_def i_def [symmetric])
  have "tm_ok E g xs wss ?s'"
    by (rule tm_ok_idle_thread [OF ok user _ nin, where u = "(threads s ! z)\<lparr>th_coreid := - 1, th_state := NOT_STARTED, th_tid := KTHREAD_NULL_TID\<rparr>"])
      (use z(2) pos in simp_all)
  then show ?thesis using run by auto
qed

lemma reap_spec:
  assumes ok: "tm_ok E g xs wss s" and c: "0 < c" "c < SYS_THREAD_MAX E" and awake: "g c \<notin> set (concat wss)"
  shows "\<exists>s'. thread_yield_resume E (g c) s = Some (0, s') \<and> tm_ok E g xs wss s'"
proof -
  note cur = cores_okD [OF tm_okD(1) [OF ok] c]
  have ctx: "th_ctx (threads s ! g c) = 0" using threads_okD(8) [OF tm_okD(1) [OF ok] cur(4,2)] .
  show ?thesis
  proof (cases "\<exists>z. th_next (threads s ! g c) = Some z \<and> th_state (threads s ! z) = ZOMBIE")
    case True
    then obtain z where z: "th_next (threads s ! g c) = Some z" "th_state (threads s ! z) = ZOMBIE" by blast
    then have "z < length (threads s)" using linkedD [OF tm_okD(8) [OF ok] cur(4)] by blast
    then obtain s1 where s1: "thread_free E z s = Some s1" "tm_ok E g xs wss s1" using free_spec [OF ok _ z(2)] by blast
    define s' where "s' = set_thread (g c) (\<lambda>t. t\<lparr>th_next := None\<rparr>) s1"
    have "g c \<notin> set xs" using cores_okD(2) [OF tm_okD(1) [OF s1(2)] c] tm_okD(2) [OF s1(2)] by (auto simp: ready_def schedulable_def)
    then have "ready E s' xs"
      by (intro ready_update [OF tm_okD(2) [OF s1(2)], where z = "g c" and u = "(threads s1 ! g c)\<lparr>th_next := None\<rparr>"]) (simp_all add: s'_def)
    moreover have "waits s' wss"
      by (rule waits_update [OF tm_okD(3) [OF s1(2)] awake, where u = "(threads s1 ! g c)\<lparr>th_next := None\<rparr>"]) (simp_all add: s'_def)
    moreover have "map view (threads s') = map view (threads s1)"
      using cores_okD(4) [OF tm_okD(1) [OF s1(2)] c] by (simp add: s'_def map_update list_update_same_conv)
    then have "threads_ok E g (next_tid s') (threads s')" using threads_ok_view [of "threads s'" "threads s1" E g "next_tid s1"] tm_okD(1) [OF s1(2)] by (simp add: s'_def)
    moreover have "linked s'" unfolding s'_def by (rule linked_set_thread [OF tm_okD(8) [OF s1(2)]]) simp
    moreover have "good_ctx E (th_ctx (threads s' ! t))" if "t \<in> set xs" for t
      using tm_okD(4) [OF s1(2) that] that \<open>g c \<notin> set xs\<close> by (cases "t = g c") (simp_all add: s'_def)
    ultimately have "tm_ok E g xs wss s'" using tm_okD(5-7) [OF s1(2)] by (simp add: tm_ok_def s'_def)
    moreover have "thread_yield_resume E (g c) s = Some (0, s')"
      using ctx z s1(1) by (simp add: thread_yield_resume_def thread_reap_def s'_def)
    ultimately show ?thesis by blast
  next
    case False
    then have "thread_reap E (g c) s = Some s" by (auto simp: thread_reap_def split: option.splits)
    then show ?thesis using ctx ok by (simp add: thread_yield_resume_def)
  qed
qed

lemma alloc_spec:
  assumes ok: "tm_ok E g xs wss s"
  shows "(thread_alloc E s = Some (None, s) \<and> (\<forall>t. 0 < t \<and> t < length (threads s) \<longrightarrow> th_state (threads s ! t) \<notin> {NOT_STARTED, ZOMBIE}))
    \<or> (\<exists>t s'. thread_alloc E s = Some (Some t, s') \<and> tm_ok E g xs wss s' \<and> is_user_thread E t \<and> t \<notin> set xs \<and> next_tid s' = next_tid s
        \<and> th_state (threads s' ! t) = STARTED)"
proof (cases "first_index (\<lambda>t. th_state t = NOT_STARTED \<or> th_state t = ZOMBIE) (tl (threads s))")
  case None
  then have n: "\<And>i. i < length (tl (threads s)) \<Longrightarrow> th_state (tl (threads s) ! i) \<notin> {NOT_STARTED, ZOMBIE}" by (simp add: first_index_None_nth)
  have "th_state (threads s ! t) \<notin> {NOT_STARTED, ZOMBIE}" if "0 < t" "t < length (threads s)" for t
    using n [of "t - 1"] that by (simp add: nth_tl)
  then show ?thesis using None by (simp add: thread_alloc_def)
next
  case (Some i)
  then have i: "i < length (tl (threads s))" "th_state (tl (threads s) ! i) \<in> {NOT_STARTED, ZOMBIE}" by (auto dest: first_index_SomeD)
  define t where "t = Suc i"
  have t: "t < length (threads s)" "th_state (threads s ! t) \<in> {NOT_STARTED, ZOMBIE}" using i by (auto simp: t_def nth_tl)
  have user: "is_user_thread E t" using zombie_user [OF tm_okD(1) [OF ok] t(1)] t(2) by auto
  have nin: "t \<notin> set xs" using tm_okD(2) [OF ok] t(2) by (auto simp: ready_def schedulable_def)
  obtain s1 where s1: "(if th_state (threads s ! t) = NOT_STARTED then Some (s\<lparr>nthreads := nthreads s + 1\<rparr>) else thread_free E t s) = Some s1"
    and ok1: "tm_ok E g xs wss s1" "next_tid s1 = next_tid s" "th_state (threads s1 ! t) = NOT_STARTED" "length (threads s1) = length (threads s)"
  proof (cases "th_state (threads s ! t) = NOT_STARTED")
    case True
    moreover have "tm_ok E g xs wss (s\<lparr>nthreads := nthreads s + 1\<rparr>)" using ok by (simp add: tm_ok_def ready_def waits_def linked_def)
    ultimately show ?thesis using that [of "s\<lparr>nthreads := nthreads s + 1\<rparr>"] by simp
  next
    case False
    then obtain s1 where "thread_free E t s = Some s1" "tm_ok E g xs wss s1" "next_tid s1 = next_tid s"
        "threads s1 = (threads s)[t := (threads s ! t)\<lparr>th_coreid := - 1, th_state := NOT_STARTED, th_tid := KTHREAD_NULL_TID\<rparr>]"
      using free_spec [OF ok t(1)] t(2) by auto
    then show ?thesis using that [of s1] False t(1) by simp
  qed
  define s2 where "s2 = set_thread t (\<lambda>t. t\<lparr>th_state := STARTED\<rparr>) s1"
  have lt: "t < length (threads s1)" using ok1(4) t(1) by simp
  have "tm_ok E g xs wss s2"
    by (rule tm_ok_idle_thread [OF ok1(1) user _ nin, where u = "(threads s1 ! t)\<lparr>th_state := STARTED\<rparr>"])
      (use ok1(3) threads_okD(11) [OF tm_okD(1) [OF ok1(1)] lt] tid_distinct [OF tm_okD(1) [OF ok1(1)] lt] in \<open>simp_all add: s2_def\<close>)
  moreover have "thread_alloc E s = Some (Some t, s2)" using Some s1 by (simp add: thread_alloc_def t_def [symmetric] s2_def split: if_splits)
  ultimately show ?thesis using user nin ok1(2) lt by (auto simp: s2_def)
qed

section \<open>Creating threads\<close>

lemma create_spec:
  assumes ok: "tm_ok E g xs (ws # wss) s" and start: "start \<noteq> 0"
    and hal: "\<And>u k. u \<noteq> 0 \<Longrightarrow> k \<noteq> 0 \<Longrightarrow> good_ctx E (context_create E u k)"
  shows "(\<exists>s'. thread_create E start arg s = Some (- EAGAIN, None, s') \<and> tm_ok E g xs (ws # wss) s')
    \<or> (\<exists>t s'. thread_create E start arg s = Some (0, Some (next_tid s), s') \<and> tm_ok E g (xs @ [t]) ([] # wss) s' \<and> t \<notin> set xs
        \<and> is_user_thread E t \<and> view (threads s' ! t) = \<lparr>th_tid = next_tid s, th_coreid = - 1, th_state = STARTED, th_arg = arg, th_start = start,
             th_ctx = th_ctx (threads s' ! t), th_next = None\<rparr>)"
  using alloc_spec [OF ok]
proof
  assume "thread_alloc E s = Some (None, s) \<and> (\<forall>t. 0 < t \<and> t < length (threads s) \<longrightarrow> th_state (threads s ! t) \<notin> {NOT_STARTED, ZOMBIE})"
  then show ?thesis using ok start by (simp add: thread_create_def)
next
  assume "\<exists>t s'. thread_alloc E s = Some (Some t, s') \<and> tm_ok E g xs (ws # wss) s' \<and> is_user_thread E t \<and> t \<notin> set xs
      \<and> next_tid s' = next_tid s \<and> th_state (threads s' ! t) = STARTED"
  then obtain t s1 where s1: "thread_alloc E s = Some (Some t, s1)" and ok1: "tm_ok E g xs (ws # wss) s1"
    and t: "is_user_thread E t" "t \<notin> set xs" "next_tid s1 = next_tid s" "th_state (threads s1 ! t) = STARTED" by blast
  have pool: "tm_ok E g xs (ws # wss) (s1\<lparr>tm_kpool := p\<rparr>)" for p using ok1 by (simp add: tm_ok_def ready_def waits_def linked_def)
  obtain kstack pool1 where k: "kpage_get (env_lay E) (zero_page E) True (tm_kpool s1) = (kstack, pool1)" by force
  obtain ustack pool2 where u: "kpage_get (env_lay E) (zero_page E) True pool1 = (ustack, pool2)" by force
  show ?thesis
  proof (cases "kstack = 0 \<or> ustack = 0")
    case True
    then show ?thesis using s1 k u start pool by (cases "kstack = 0") (simp_all add: thread_create_def Let_def)
  next
    case False
    define i where "i = int t - int (SYS_THREAD_MAX E)"
    define U where "U = (threads s1 ! t)\<lparr>th_tid := next_tid s, th_arg := arg, th_start := start, th_next := None, th_ctx := context_create E ustack kstack\<rparr>"
    define s2 where "s2 = s1\<lparr>tm_kpool := pool2, next_tid := next_tid s + 1, ustacks := (ustacks s1)[nat i := ustack],
      kstacks := (kstacks s1)[nat i := kstack], threads := (threads s1)[t := U]\<rparr>"
    note len = threads_okD(1) [OF tm_okD(1) [OF ok1]] and bnd = threads_okD(11) [OF tm_okD(1) [OF ok1]]
    have lt: "t < length (threads s1)" using t(1) len by (simp add: is_user_thread_def)
    have i: "fetch (ustacks s1) i = Some (ustacks s1 ! nat i)" "fetch (kstacks s1) i = Some (kstacks s1 ! nat i)"
      using t(1) tm_okD(6,7) [OF ok1] by (auto simp: is_user_thread_def KTHREAD_MAX_def i_def fetch_def)
    have ctx: "good_ctx E (context_create E ustack kstack)" using hal False by blast
    have run: "thread_create E start arg s = do { s \<leftarrow> thread_schedule E t s2; Some (0, Some (next_tid s1), s) }"
      using s1 k u start False i ctx lt t(3)
      by (simp add: thread_create_def Let_def i_def [symmetric] good_ctx_def set_thread_def s2_def U_def)
    have ok2: "tm_ok E g xs (ws # wss) s2"
      by (rule tm_ok_idle_thread [OF ok1 t(1) _ t(2), where u = U]) (use t(3,4) bnd in \<open>force simp: s2_def U_def\<close>)+
    obtain s3 where s3: "thread_schedule E t s2 = Some s3" "ready E s3 (xs @ [t])" "waits s3 ([] # wss)" "same_tables s2 s3"
        "map view (threads s3) = (map view (threads s2))[t := (view (threads s2 ! t))\<lparr>th_coreid := - 1\<rparr>]"
      using schedule_spec [OF tm_okD(2,3) [OF ok2] t(2,1)] lt t(4) by (auto simp: s2_def U_def schedulable_def)
    let ?V = "U\<lparr>th_coreid := - 1\<rparr>"
    have v: "map view (threads s3) = map view ((threads s2)[t := ?V])" using s3(5) lt by (simp add: s2_def map_update)
    have "threads_ok E g (next_tid s2) ((threads s2)[t := ?V])"
      by (rule threads_ok_inactive [OF tm_okD(1) [OF ok2] t(1)])
        (use lt t(4) tid_distinct [OF tm_okD(1) [OF ok2], of t] threads_okD(11) [OF tm_okD(1) [OF ok2], of t] in \<open>simp_all add: s2_def U_def\<close>)
    then have "threads_ok E g (next_tid s3) (threads s3)" using threads_ok_view [OF v, of E g "next_tid s2"] s3(4) by (simp add: same_tables_def)
    moreover have "good_ctx E (th_ctx (threads s3 ! x))" if x: "x \<in> set (xs @ [t])" for x
    proof (cases "x = t")
      case True
      then show ?thesis using view_nth(4) [OF v, of t] lt ctx by (simp add: s2_def U_def)
    next
      case False
      then have "x \<in> set xs" "x < length (threads s2)" using x tm_okD(2) [OF ok2] by (auto simp: ready_def)
      then show ?thesis using view_nth(4) [OF v, of x] False tm_okD(4) [OF ok2, of x] by simp
    qed
    ultimately have "tm_ok E g (xs @ [t]) ([] # wss) s3"
      using s3(2-4) tm_okD(5-8) [OF ok2] by (auto simp: tm_ok_def same_tables_def)
    moreover have "view (threads s3 ! t) = view ?V"
      using arg_cong [OF v, of "\<lambda>l. l ! t"] map_eq_imp_length_eq [OF v] lt by (simp add: s2_def)
    then have "view (threads s3 ! t) = \<lparr>th_tid = next_tid s, th_coreid = - 1, th_state = STARTED, th_arg = arg, th_start = start,
        th_ctx = th_ctx (threads s3 ! t), th_next = None\<rparr>"
      using t(4) view_nth(4) [OF v, of t] lt by (simp add: view_def U_def s2_def)
    ultimately show ?thesis using run s3(1) t by auto
  qed
qed

section \<open>Waiting and broadcasting\<close>

definition queues :: "('w::len, 'm) tm \<Rightarrow> nat option list" where "queues s = sem_queue (sq_sem s) # joincond s"

lemma waits_queues:
  "waits s wss \<longleftrightarrow> length wss = length (queues s) \<and> (\<forall>k < length wss. links (threads s) (queues s ! k) (wss ! k)) \<and> distinct (concat wss)
    \<and> (\<forall>t \<in> set (concat wss). t < length (threads s) \<and> th_state (threads s ! t) = RUNNING)"
  unfolding waits_def queues_def [symmetric] by (auto simp: list_all2_conv_all_nth)

lemma concat_split: "k < length wss \<Longrightarrow> concat wss = concat (take k wss) @ wss ! k @ concat (drop (Suc k) wss)"
  by (metis append_take_drop_id concat.simps(2) concat_append id_take_nth_drop)

lemma concat_update: "k < length wss \<Longrightarrow> concat (wss[k := ws]) = concat (take k wss) @ ws @ concat (drop (Suc k) wss)"
  by (simp add: upd_conv_take_nth_drop)

lemma waits_push:
  assumes w: "waits s wss" and k: "k < length wss" and cur: "cur \<notin> set (concat wss)" "cur < length (threads s)" "th_state (threads s ! cur) = RUNNING"
    and s': "threads s' = (threads s)[cur := (threads s ! cur)\<lparr>th_next := queues s ! k\<rparr>]" "queues s' = (queues s)[k := Some cur]"
  shows "waits s' (wss[k := cur # wss ! k])"
proof -
  note W = w [unfolded waits_queues]
  have l: "links (threads s') q ws" if "links (threads s) q ws" "ws \<in> set wss" for q ws
  proof -
    have "cur \<notin> set ws" using cur(1) that(2) by auto
    then show ?thesis using that(1) links_cong [of ws "threads s'" "threads s" q] by (metis nth_list_update_neq s'(1))
  qed
  have "set (concat (wss[k := cur # wss ! k])) = insert cur (set (concat wss))" "distinct (concat (wss[k := cur # wss ! k]))"
    using W cur(1) unfolding concat_update [OF k] concat_split [OF k] by auto
  moreover have "links (threads s') (queues s' ! j) (wss[k := cur # wss ! k] ! j)" if j: "j < length wss" for j
    using W l [of "queues s ! j" "wss ! j"] j k cur(2) by (cases "j = k") (simp_all add: s')
  ultimately show ?thesis using W s' cur(2,3) unfolding waits_queues by (auto simp: nth_list_update simp del: set_concat)
qed

lemma waits_clear:
  assumes w: "waits s wss" and k: "k < length wss" and s': "threads s' = threads s" "queues s' = (queues s)[k := None]"
  shows "waits s' (wss[k := []])" "links (threads s) (queues s ! k) (wss ! k)"
proof -
  note W = w [unfolded waits_queues]
  have "set (concat (wss[k := []])) \<subseteq> set (concat wss)" "distinct (concat (wss[k := []]))"
    using W unfolding concat_update [OF k] concat_split [OF k] by auto
  moreover have "links (threads s') (queues s' ! j) (wss[k := []] ! j)" if j: "j < length wss" for j
    using W j k by (cases "j = k") (simp_all add: s')
  ultimately show "waits s' (wss[k := []])" using W s' unfolding waits_queues by auto
  show "links (threads s) (queues s ! k) (wss ! k)" using W k by simp
qed

section \<open>The thread that a core runs, the master included\<close>

definition core_thread :: "(nat \<Rightarrow> nat) \<Rightarrow> nat \<Rightarrow> nat" where "core_thread g c = (if c = 0 then 0 else g c)"

lemma core_thread_unique:
  assumes ok: "threads_ok E g n ts" and c: "c < SYS_THREAD_MAX E" and j: "j < length ts" "on_core (ts ! j)" "th_coreid (ts ! j) = int c"
  shows "j = core_thread g c"
proof (cases "c = 0")
  case True
  show ?thesis
  proof (cases "j < SYS_THREAD_MAX E")
    case sys: True
    then show ?thesis using threads_okD(7) [OF ok, of j] j(3) True by (cases "j = 0") (auto simp: core_thread_def)
  next
    case False
    then have "is_user_thread E j" using j(1) threads_okD(1) [OF ok] by (simp add: is_user_thread_def)
    then obtain d where "0 < d" "d < SYS_THREAD_MAX E" "g d = j" using user_current [OF ok] j(2) by blast
    then show ?thesis using cores_okD(1) [OF ok, of d] j(3) True by simp
  qed
next
  case False
  then show ?thesis using current_unique [OF ok _ c j] by (simp add: core_thread_def)
qed

lemma core_threadD:
  assumes ok: "threads_ok E g n (threads s)" and c: "c < SYS_THREAD_MAX E"
  shows "thread_get_curr (int c) s = Some (core_thread g c)" "core_thread g c < length (threads s)"
    "on_core (threads s ! core_thread g c)" "th_coreid (threads s ! core_thread g c) = int c"
proof -
  have pos: "0 < length (threads s)" using threads_okD(2,3) [OF ok] by (rule less_le_trans)
  have master: "thread_get_curr 0 s = Some 0"
    by (rule get_curr_unique) (use pos threads_okD(5,6) [OF ok] core_thread_unique [OF ok threads_okD(2) [OF ok]] in \<open>auto simp: core_thread_def\<close>)
  have "thread_get_curr (int c) s = Some (core_thread g c) \<and> core_thread g c < length (threads s)
    \<and> on_core (threads s ! core_thread g c) \<and> th_coreid (threads s ! core_thread g c) = int c"
  proof (cases "c = 0")
    case True
    then show ?thesis using master pos threads_okD(5,6) [OF ok] by (simp add: core_thread_def)
  next
    case False
    then have "0 < c" by simp
    then show ?thesis using get_curr_core [OF ok _ c] cores_okD(1,2,4) [OF ok _ c] by (simp add: core_thread_def)
  qed
  then show "thread_get_curr (int c) s = Some (core_thread g c)" "core_thread g c < length (threads s)"
    "on_core (threads s ! core_thread g c)" "th_coreid (threads s ! core_thread g c) = int c" by blast+
qed

lemma tm_ok_wait:
  assumes ok: "tm_ok E g xs wss s" and k: "k < length wss" and cur: "cur \<notin> set (concat wss)" "cur < length (threads s)"
      "th_state (threads s ! cur) = RUNNING"
    and s': "s' = set_thread cur (\<lambda>t. t\<lparr>th_next := queues s ! k\<rparr>) s"
    and q: "threads s'' = threads s'" "queues s'' = (queues s)[k := Some cur]" "sq_size s'' = sq_size s" "sq_head s'' = sq_head s" "sq_tail s'' = sq_tail s"
      "next_tid s'' = next_tid s" "ustacks s'' = ustacks s" "kstacks s'' = kstacks s"
  shows "tm_ok E g xs (wss[k := cur # wss ! k]) s''"
proof -
  have cx: "cur \<notin> set xs" using tm_okD(2) [OF ok] cur(3) by (auto simp: ready_def schedulable_def)
  have tab: "threads s'' = (threads s)[cur := (threads s ! cur)\<lparr>th_next := queues s ! k\<rparr>]" by (simp add: q(1) s')
  have "waits s'' (wss[k := cur # wss ! k])" by (rule waits_push [OF tm_okD(3) [OF ok] k cur tab q(2)])
  moreover have "ready E s'' xs" by (rule ready_update [OF tm_okD(2) [OF ok] tab]) (use q cx in simp_all)
  moreover have "map view (threads s'') = map view (threads s)" using cur(2) by (simp add: tab map_update list_update_same_conv)
  then have "threads_ok E g (next_tid s'') (threads s'')"
    using threads_ok_view [of "threads s''" "threads s" E g "next_tid s"] tm_okD(1) [OF ok] q(6) by simp
  moreover have "linked s''"
  proof -
    have "z < length (threads s)" if "queues s ! k = Some z" for z
    proof -
      have "links (threads s) (Some z) (wss ! k)" using tm_okD(3) [OF ok] k that unfolding waits_queues by metis
      then have "z \<in> set (wss ! k)" by (cases "wss ! k") auto
      then show ?thesis using waits_running [OF tm_okD(3) [OF ok], of z] concat_split [OF k] by simp
    qed
    then have "linked s'" unfolding s' by (intro linked_set_thread [OF tm_okD(8) [OF ok]]) simp
    then show ?thesis using linked_cong [OF q(1)] by simp
  qed
  moreover have "good_ctx E (th_ctx (threads s'' ! t))" if "t \<in> set xs" for t
    using tm_okD(4) [OF ok that] that cx by (cases "t = cur") (simp_all add: tab)
  moreover have "length (joincond s'') = length (joincond s)" using arg_cong [OF q(2), of length] unfolding length_list_update by (simp add: queues_def)
  ultimately show ?thesis using q tm_okD(5-7) [OF ok] by (simp add: tm_ok_def)
qed

lemma waits_length: "tm_ok E g xs wss s \<Longrightarrow> length wss = Suc (KTHREAD_MAX E)"
  by (simp add: tm_ok_def waits_queues queues_def)

lemma join_spec:
  assumes ok: "tm_ok E g xs wss s" and c: "c < SYS_THREAD_MAX E"
    and cur: "core_thread g c \<notin> set (concat wss)" "th_state (threads s ! core_thread g c) = RUNNING"
    and tid: "0 < tid" "tid \<noteq> th_tid (threads s ! core_thread g c)"
  shows "\<exists>r s' wss'. thread_join (int c) tid s = Some (r, s') \<and> tm_ok E g xs wss' s'
    \<and> (case r of
         None \<Rightarrow> \<exists>t < length (threads s). th_tid (threads s ! t) = tid \<and> th_state (threads s ! t) \<notin> {NOT_STARTED, TERMINATED, ZOMBIE}
                   \<and> wss' = wss[Suc t := core_thread g c # wss ! Suc t]
       | Some v \<Rightarrow> s' = s \<and> wss' = wss \<and> v = thread_join_end tid s)"
proof (cases "\<exists>t. first_index (\<lambda>t. th_tid t = tid) (threads s) = Some t \<and> th_state (threads s ! t) \<notin> {NOT_STARTED, TERMINATED, ZOMBIE}")
  case True
  then obtain t where t: "first_index (\<lambda>t. th_tid t = tid) (threads s) = Some t" "th_state (threads s ! t) \<notin> {NOT_STARTED, TERMINATED, ZOMBIE}" by blast
  then have lt: "t < length (threads s)" "th_tid (threads s ! t) = tid" by (auto dest: first_index_SomeD)
  note ct = core_threadD [OF tm_okD(1) [OF ok] c]
  let ?cur = "core_thread g c"
  define s1 where "s1 = set_thread ?cur (\<lambda>u. u\<lparr>th_next := queues s ! Suc t\<rparr>) s"
  define s2 where "s2 = s1\<lparr>joincond := (joincond s)[t := Some ?cur]\<rparr>"
  have "thread_join (int c) tid s = Some (None, s2)"
    using tid t ct(1) by (simp add: thread_join_def thread_get_def cond_wait_def queues_def s2_def s1_def)
  moreover have "tm_ok E g xs (wss[Suc t := ?cur # wss ! Suc t]) s2"
    by (rule tm_ok_wait [OF ok _ cur(1) ct(2) cur(2) s1_def])
      (use waits_length [OF ok] lt(1) threads_okD(1) [OF tm_okD(1) [OF ok]] in \<open>simp_all add: s2_def s1_def queues_def\<close>)
  ultimately show ?thesis using lt t(2) by auto
next
  case False
  have "thread_join (int c) tid s = Some (Some (thread_join_end tid s), s)"
    using tid False core_threadD(1) [OF tm_okD(1) [OF ok] c] by (auto simp: thread_join_def thread_get_def split: option.splits)
  then show ?thesis using ok by auto
qed

lemma down_spec:
  assumes ok: "tm_ok E g xs wss s" and c: "c < SYS_THREAD_MAX E"
    and cur: "core_thread g c \<notin> set (concat wss)" "th_state (threads s ! core_thread g c) = RUNNING"
  shows "\<exists>b sem s' wss'. semaphore_down_try (int c) (sq_sem s) s = Some (b, sem, s') \<and> tm_ok E g xs wss' (s'\<lparr>sq_sem := sem\<rparr>)"
proof (cases "sem_count (sq_sem s) > 0")
  case True
  have "tm_ok E g xs wss (s\<lparr>sq_sem := (sq_sem s)\<lparr>sem_count := n\<rparr>\<rparr>)" for n using ok by (simp add: tm_ok_def ready_def waits_def linked_def)
  then show ?thesis using True by (auto simp: semaphore_down_try_def)
next
  case False
  note ct = core_threadD [OF tm_okD(1) [OF ok] c]
  define s1 where "s1 = set_thread (core_thread g c) (\<lambda>u. u\<lparr>th_next := queues s ! 0\<rparr>) s"
  have "tm_ok E g xs (wss[0 := core_thread g c # wss ! 0]) (s1\<lparr>sq_sem := (sq_sem s)\<lparr>sem_queue := Some (core_thread g c)\<rparr>\<rparr>)"
    by (rule tm_ok_wait [OF ok _ cur(1) ct(2) cur(2) s1_def]) (use waits_length [OF ok] in \<open>simp_all add: s1_def queues_def\<close>)
  moreover have "semaphore_down_try (int c) (sq_sem s) s = Some (False, (sq_sem s)\<lparr>sem_queue := Some (core_thread g c)\<rparr>, s1)"
    using False ct(1) by (simp add: semaphore_down_try_def cond_wait_def s1_def queues_def)
  ultimately show ?thesis by blast
qed

lemma exit_spec:
  assumes ok: "tm_ok E g xs wss s" and c: "0 < c" "c < SYS_THREAD_MAX E" and user: "is_user_thread E (g c)"
    and awake: "g c \<notin> set (concat wss)"
  shows "\<exists>s'. thread_exit E (int c) retval s = Some s' \<and> tm_ok E g xs (wss[Suc (g c) := []]) s'
    \<and> threads s' = (threads s)[g c := (threads s ! g c)\<lparr>th_state := TERMINATED\<rparr>]
    \<and> woken s' = woken s @ map (\<lambda>t. th_coreid (threads s ! t)) (wss ! Suc (g c))"
proof -
  note ok1 = tm_okD(1) [OF ok] and cur = cores_okD [OF tm_okD(1) [OF ok] c]
  let ?u = "(threads s ! g c)\<lparr>th_state := TERMINATED\<rparr>"
  define s1 where "s1 = set_thread (g c) (\<lambda>t. t\<lparr>th_state := TERMINATED\<rparr>) (thread_save_retval E retval (g c) s)"
  have s1: "threads s1 = (threads s)[g c := ?u]" "queues s1 = queues s" "sq_size s1 = sq_size s" "sq_head s1 = sq_head s" "sq_tail s1 = sq_tail s"
    "next_tid s1 = next_tid s" "ustacks s1 = ustacks s" "kstacks s1 = kstacks s" "joincond s1 = joincond s" "sq_sem s1 = sq_sem s" "woken s1 = woken s"
    by (simp_all add: s1_def thread_save_retval_def queues_def)
  have k: "Suc (g c) < length wss" using waits_length [OF ok] cur(4) threads_okD(1) [OF ok1] by simp
  have cx: "g c \<notin> set xs" using tm_okD(2) [OF ok] cur(2) by (auto simp: ready_def schedulable_def)
  have w1: "waits s1 wss" by (rule waits_update [OF tm_okD(3) [OF ok] awake s1(1)]) (simp_all add: s1)
  have wk: "wss ! Suc (g c) = ws \<Longrightarrow> map (\<lambda>t. th_coreid (threads s1 ! t)) ws = map (\<lambda>t. th_coreid (threads s ! t)) ws" for ws
    using cur(4) by (auto simp: s1(1) nth_list_update)
  define s2 where "s2 = s1\<lparr>woken := woken s @ map (\<lambda>t. th_coreid (threads s ! t)) (wss ! Suc (g c)), joincond := (joincond s)[g c := None]\<rparr>"
  have q2: "threads s2 = threads s1" "queues s2 = (queues s1)[Suc (g c) := None]" by (simp_all add: s2_def queues_def s1)
  note w2 = waits_clear [OF w1 k q2]
  have "joincond (thread_save_retval E retval (g c) s) = joincond s" by (simp add: thread_save_retval_def)
  then have "thread_exit E (int c) retval s = Some s2"
    using get_curr_core [OF ok1 c] user cond_broadcast_links [OF w2(2)] wk [OF refl]
    by (simp add: thread_exit_def s1_def [symmetric] s1(9,11) queues_def s2_def)
  moreover have "ready E s1 xs" by (rule ready_update [OF tm_okD(2) [OF ok] s1(1)]) (use s1 cx in simp_all)
  then have "ready E s2 xs" by (simp add: ready_def s2_def)
  moreover have "threads_ok E g (next_tid s2) (threads s2)" using threads_ok_terminate [OF ok1 c user] by (simp add: s2_def s1)
  moreover have "linked s2"
  proof -
    have "linked (set_thread (g c) (\<lambda>t. t\<lparr>th_state := TERMINATED\<rparr>) s)" by (rule linked_same [OF tm_okD(8) [OF ok]]) simp
    then show ?thesis using linked_cong [of s2 "set_thread (g c) (\<lambda>t. t\<lparr>th_state := TERMINATED\<rparr>) s"] by (simp add: q2(1) s1(1))
  qed
  moreover have "good_ctx E (th_ctx (threads s2 ! t))" if "t \<in> set xs" for t
    using tm_okD(4) [OF ok that] that cx by (cases "t = g c") (simp_all add: q2(1) s1(1))
  ultimately show ?thesis using w2(1) s1 tm_okD(5-7) [OF ok] by (simp add: tm_ok_def) (simp add: s2_def)
qed

end
