(* ===== verification/Thread_Manager.thy ===== *)
theory Thread_Manager
  imports Thread_Steps
begin

text \<open>
  The thread manager from its initialisation on: \<open>thread_init\<close> establishes the invariant,
  and the properties of the threads that follow from it.
\<close>

section \<open>Initialisation\<close>

definition idle_thread :: "('w::len) word \<Rightarrow> nat \<Rightarrow> 'w thread" where
  "idle_thread f i = \<lparr>th_tid = int i, th_coreid = int i, th_state = RUNNING, th_arg = 0, th_start = f, th_ctx = 0, th_next = None\<rparr>"

definition free_thread :: "('w::len) thread" where
  "free_thread = \<lparr>th_tid = KTHREAD_NULL_TID, th_coreid = 0, th_state = NOT_STARTED, th_arg = 0, th_start = 0, th_ctx = 0, th_next = None\<rparr>"

text \<open>The tables after the first \<open>k\<close> idle threads have been set up.\<close>

definition init_stage :: "('w::len, 'm) thread_env \<Rightarrow> 'w word \<Rightarrow> 'w word \<Rightarrow> ('w, 'm) kpool \<Rightarrow> nat \<Rightarrow> ('w, 'm) tm" where
  "init_stage E kmain f pool k = (tm_boot E kmain pool)\<lparr>
    threads := hd (boot_threads E kmain) # map (idle_thread f) [1..<Suc k] @ replicate (KTHREAD_MAX E - Suc k) free_thread,
    nthreads := 1 + int k, next_tid := 1 + int k\<rparr>"

lemma init_step:
  assumes k: "Suc k < SYS_THREAD_MAX E" and start: "core_start_trials E (1 + int k) 0 = 0"
  shows "thread_init_idle E f (1 + int k) (init_stage E kmain f pool k) = Some (init_stage E kmain f pool (Suc k))"
proof -
  let ?s = "init_stage E kmain f pool k"
  have "\<exists>m. KTHREAD_MAX E - Suc k = Suc m \<and> KTHREAD_MAX E - Suc (Suc k) = m" using k by (auto simp: KTHREAD_MAX_def intro: exI [of _ "KTHREAD_MAX E - 2 - k"])
  then obtain m where m: "KTHREAD_MAX E - Suc k = Suc m" "KTHREAD_MAX E - Suc (Suc k) = m" by blast
  define pre where "pre = map (idle_thread f) [1..<Suc k]"
  have pre: "length pre = k" "\<And>t. t \<in> set pre \<Longrightarrow> th_state t = RUNNING" by (auto simp: pre_def idle_thread_def)
  have th: "threads ?s = hd (boot_threads E kmain) # pre @ free_thread # replicate m free_thread"
    by (simp add: init_stage_def m pre_def)
  have "first_index (\<lambda>t. th_state t = NOT_STARTED \<or> th_state t = ZOMBIE) (pre @ free_thread # replicate m free_thread) = Some k"
  proof -
    have "\<forall>t \<in> set ps. th_state t = RUNNING \<Longrightarrow>
        first_index (\<lambda>t. th_state t = NOT_STARTED \<or> th_state t = ZOMBIE) (ps @ free_thread # qs) = Some (length ps)" for ps and qs :: "'a thread list"
      by (induction ps) (auto simp: free_thread_def)
    then show ?thesis using pre by simp
  qed
  then have alloc: "thread_alloc E ?s = Some (Some (Suc k), set_thread (Suc k) (\<lambda>t. t\<lparr>th_state := STARTED\<rparr>) (?s\<lparr>nthreads := nthreads ?s + 1\<rparr>))"
    using pre(1) by (simp add: thread_alloc_def th nth_append) (simp add: free_thread_def)
  have nxt: "threads (init_stage E kmain f pool (Suc k)) = hd (boot_threads E kmain) # pre @ idle_thread f (Suc k) # replicate m free_thread"
    by (simp add: init_stage_def m pre_def)
  have "thread_init_idle E f (1 + int k) ?s = Some (?s\<lparr>nthreads := 2 + int k, next_tid := 2 + int k,
      threads := (threads ?s)[Suc k := idle_thread f (Suc k)]\<rparr>)"
    using alloc start pre(1)
    by (simp add: thread_init_idle_def set_thread_def th nth_append) (simp add: init_stage_def free_thread_def idle_thread_def)
  also have "(threads ?s)[Suc k := idle_thread f (Suc k)] = threads (init_stage E kmain f pool (Suc k))"
    using pre(1) by (simp add: th nxt list_update_append)
  finally show ?thesis by (simp add: init_stage_def)
qed

lemma init_loop:
  assumes "k + length cs = SYS_THREAD_MAX E - 1" "cs = [1 + int k..int (SYS_THREAD_MAX E) - 1]" "0 < SYS_THREAD_MAX E"
    and start: "\<And>c. core_start_trials E c 0 = 0"
  shows "thread_init_loop E f cs (init_stage E kmain f pool k) = Some (init_stage E kmain f pool (SYS_THREAD_MAX E - 1))"
  using assms(1,2)
proof (induction cs arbitrary: k)
  case Nil
  then show ?case by simp
next
  case (Cons c cs)
  have "Suc k < SYS_THREAD_MAX E" using Cons.prems(1) by simp
  then have "[1 + int k..int (SYS_THREAD_MAX E) - 1] = (1 + int k) # [1 + int (Suc k)..int (SYS_THREAD_MAX E) - 1]"
    by (simp add: upto_rec1 add.commute)
  then have c: "c = 1 + int k" "cs = [1 + int (Suc k)..int (SYS_THREAD_MAX E) - 1]" using Cons.prems(2) by simp_all
  have "thread_init_loop E f cs (init_stage E kmain f pool (Suc k)) = Some (init_stage E kmain f pool (SYS_THREAD_MAX E - 1))"
    using Cons.IH [of "Suc k"] Cons.prems(1) c(2) by simp
  then show ?case using init_step [OF \<open>Suc k < SYS_THREAD_MAX E\<close> start] c(1) by simp
qed

lemma init_state_ok:
  assumes sys: "0 < SYS_THREAD_MAX E"
    and s: "s = init_stage E kmain f pool (SYS_THREAD_MAX E - 1)"
  shows "tm_ok E (\<lambda>c. c) [] (replicate (Suc (KTHREAD_MAX E)) []) s"
proof -
  obtain n where n: "SYS_THREAD_MAX E = Suc n" using sys gr0_implies_Suc by blast
  have th: "threads s = hd (boot_threads E kmain) # map (idle_thread f) [1..<Suc n] @ replicate (THREAD_MAX E) free_thread"
    by (simp add: s init_stage_def n KTHREAD_MAX_def)
  have len: "length (threads s) = KTHREAD_MAX E" by (simp add: th n KTHREAD_MAX_def)
  have zero: "threads s ! 0 = hd (boot_threads E kmain)" by (simp add: th)
  have idle: "threads s ! i = idle_thread f i" if i: "0 < i" "i < SYS_THREAD_MAX E" for i
  proof -
    obtain j where "i = Suc j" "j < n" using i n by (cases i) auto
    then show ?thesis by (simp add: th nth_append del: upt_Suc)
  qed
  have free: "threads s ! i = free_thread" if i: "SYS_THREAD_MAX E \<le> i" "i < length (threads s)" for i
  proof -
    obtain j where "i = Suc j" "n \<le> j" using i(1) n by (cases i) auto
    then show ?thesis using i(2) by (simp add: th nth_append)
  qed
  have cases3: "i = 0 \<or> (0 < i \<and> i < SYS_THREAD_MAX E) \<or> (SYS_THREAD_MAX E \<le> i \<and> i < length (threads s))" if "i < length (threads s)" for i
    using that by auto
  have master: "hd (boot_threads E kmain) = \<lparr>th_tid = 0, th_coreid = 0, th_state = RUNNING, th_arg = 0, th_start = kmain, th_ctx = 0, th_next = None\<rparr>"
    by (simp add: boot_threads_def)
  have nt: "next_tid s = int (SYS_THREAD_MAX E)" by (simp add: s init_stage_def n)
  have each: "th_next (threads s ! i) = None \<and> (on_core (threads s ! i) \<longrightarrow> th_ctx (threads s ! i) = 0) \<and> th_state (threads s ! i) \<noteq> STOPPED
      \<and> th_tid (threads s ! i) = (if i < SYS_THREAD_MAX E then int i else - 1)" if "i < length (threads s)" for i
    using cases3 [OF that] zero idle [of i] free [of i] sys by (auto simp: master idle_thread_def free_thread_def)
  have "table_ok E (next_tid s) (threads s)"
    unfolding table_ok_def
  proof (intro conjI)
    show "\<forall>i < length (threads s). \<forall>j < length (threads s). th_tid (threads s ! i) = th_tid (threads s ! j) \<and> th_tid (threads s ! i) \<noteq> - 1 \<longrightarrow> i = j"
      using each by (auto split: if_splits)
    show "\<forall>i < length (threads s). th_tid (threads s ! i) < next_tid s" using each nt by auto
    show "\<forall>i < length (threads s). (on_core (threads s ! i) \<longrightarrow> th_ctx (threads s ! i) = 0)
        \<and> (th_state (threads s ! i) = STOPPED \<longrightarrow> good_ctx E (th_ctx (threads s ! i)))" using each by blast
  qed (use len sys zero idle in \<open>auto simp: master idle_thread_def\<close>)
  moreover have "cores_ok E (\<lambda>c. c) (threads s)"
    unfolding cores_ok_def using idle free len by (auto simp: idle_thread_def free_thread_def is_user_thread_def)
  moreover have "linked s" using each by (auto simp: linked_def)
  moreover have "ready E s []" by (simp add: ready_def s init_stage_def tm_boot_def)
  moreover have "waits s (replicate (Suc (KTHREAD_MAX E)) [])"
    unfolding waits_queues by (auto simp: queues_def s init_stage_def tm_boot_def nth_Cons split: nat.splits)
  ultimately show ?thesis by (simp add: tm_ok_def threads_ok_def) (simp add: s init_stage_def tm_boot_def)
qed

lemma init_spec:
  assumes sys: "0 < SYS_THREAD_MAX E" and start: "\<And>c. core_start_trials E c 0 = 0"
  shows "thread_init E f (tm_boot E kmain pool) = Some (init_stage E kmain f pool (SYS_THREAD_MAX E - 1))"
proof -
  have loop: "thread_init_loop E f [1..int (SYS_THREAD_MAX E) - 1] (init_stage E kmain f pool 0) = Some (init_stage E kmain f pool (SYS_THREAD_MAX E - 1))"
    by (rule init_loop) (use sys start in \<open>simp_all add: nat_diff_distrib'\<close>)
  have "init_stage E kmain f pool 0 = tm_boot E kmain pool" by (simp add: init_stage_def tm_boot_def boot_threads_def free_thread_def)
  moreover have "(tm_boot E kmain pool)\<lparr>ustacks := map (\<lambda>_. 0) (ustacks (tm_boot E kmain pool)), kstacks := map (\<lambda>_. 0) (kstacks (tm_boot E kmain pool))\<rparr>
      = tm_boot E kmain pool" by (simp add: tm_boot_def map_replicate_const)
  moreover have "nthreads (tm_boot E kmain pool) = 1" by (simp add: tm_boot_def)
  ultimately show ?thesis using loop by (simp add: thread_init_def)
qed

section \<open>Steps\<close>

text \<open>A thread is awake when it is in no queue of sleepers.\<close>

definition awake :: "('w::len, 'm) tm \<Rightarrow> nat \<Rightarrow> bool" where
  "awake s t \<longleftrightarrow> (\<forall>q \<in> set (queues s). \<forall>ws. links (threads s) q ws \<longrightarrow> t \<notin> set ws)"

inductive tm_step :: "('w::len, 'm) thread_env \<Rightarrow> ('w, 'm) tm \<Rightarrow> ('w, 'm) tm \<Rightarrow> bool" for E where
  create: "start \<noteq> 0 \<Longrightarrow> thread_create E start arg s = Some (r, tid, s') \<Longrightarrow> tm_step E s s'"
| yield: "0 < c \<Longrightarrow> c < SYS_THREAD_MAX E \<Longrightarrow> thread_get_curr (int c) s = Some t \<Longrightarrow> awake s t \<Longrightarrow>
    thread_yield_switch E (int c) s = Some (r, s') \<Longrightarrow> tm_step E s s'"
| resume: "0 < c \<Longrightarrow> c < SYS_THREAD_MAX E \<Longrightarrow> thread_get_curr (int c) s = Some t \<Longrightarrow> awake s t \<Longrightarrow>
    thread_yield_resume E t s = Some (v, s') \<Longrightarrow> tm_step E s s'"
| exit: "0 < c \<Longrightarrow> c < SYS_THREAD_MAX E \<Longrightarrow> thread_get_curr (int c) s = Some t \<Longrightarrow> awake s t \<Longrightarrow> is_user_thread E t \<Longrightarrow>
    thread_exit E (int c) retval s = Some s' \<Longrightarrow> tm_step E s s'"
| join: "c < SYS_THREAD_MAX E \<Longrightarrow> thread_get_curr (int c) s = Some t \<Longrightarrow> awake s t \<Longrightarrow> th_state (threads s ! t) = RUNNING \<Longrightarrow>
    0 < tid \<Longrightarrow> tid \<noteq> th_tid (threads s ! t) \<Longrightarrow> thread_join (int c) tid s = Some (res, s') \<Longrightarrow> tm_step E s s'"
| down: "c < SYS_THREAD_MAX E \<Longrightarrow> thread_get_curr (int c) s = Some t \<Longrightarrow> awake s t \<Longrightarrow> th_state (threads s ! t) = RUNNING \<Longrightarrow>
    semaphore_down_try (int c) (sq_sem s) s = Some (b, sem, s1) \<Longrightarrow> tm_step E s (s1\<lparr>sq_sem := sem\<rparr>)"

text \<open>What the thread manager relies on: saved and created contexts are kernel addresses, and every
  core starts within the trials that \<open>thread_init\<close> makes.\<close>

definition thread_laws :: "('w::len, 'm) thread_env \<Rightarrow> bool" where
  "thread_laws E \<longleftrightarrow> 0 < SYS_THREAD_MAX E \<and> (\<forall>t. good_ctx E (context_save E t)) \<and> (\<forall>u k. u \<noteq> 0 \<and> k \<noteq> 0 \<longrightarrow> good_ctx E (context_create E u k))
    \<and> (\<forall>c. core_start_trials E c 0 = 0)"

definition tm_inv :: "('w::len, 'm) thread_env \<Rightarrow> ('w, 'm) tm \<Rightarrow> bool" where "tm_inv E s \<longleftrightarrow> (\<exists>g xs wss. tm_ok E g xs wss s)"

lemma awake_waits:
  assumes "tm_ok E g xs wss s" "awake s t"
  shows "t \<notin> set (concat wss)"
proof
  assume "t \<in> set (concat wss)"
  then obtain ws where "ws \<in> set wss" "t \<in> set ws" by auto
  then obtain k where "k < length wss" "t \<in> set (wss ! k)" by (metis in_set_conv_nth)
  moreover have "links (threads s) (queues s ! k) (wss ! k)" "queues s ! k \<in> set (queues s)"
    using tm_okD(3) [OF assms(1)] \<open>k < length wss\<close> unfolding waits_queues by auto
  ultimately show False using assms(2) unfolding awake_def by blast
qed

lemma tm_ok_waits: "tm_ok E g xs wss s \<Longrightarrow> \<exists>ws wss'. wss = ws # wss'" using waits_length [of E g xs wss s] by (cases wss) auto

lemma step_inv:
  assumes "tm_step E s s'" and laws: "thread_laws E" and "tm_inv E s"
  shows "tm_inv E s'"
proof -
  obtain g xs ws wss where ok: "tm_ok E g xs (ws # wss) s" using assms(3) tm_ok_waits unfolding tm_inv_def by blast
  note cur = core_threadD(1) [OF tm_okD(1) [OF ok]] and aw = awake_waits [OF ok]
  have save: "\<And>t. good_ctx E (context_save E t)" and mk: "\<And>u k. u \<noteq> 0 \<Longrightarrow> k \<noteq> 0 \<Longrightarrow> good_ctx E (context_create E u k)"
    using laws by (simp_all add: thread_laws_def)
  have "\<exists>g xs wss. tm_ok E g xs wss s'" using assms(1)
  proof cases
    case (create start arg r tid)
    then show ?thesis using create_spec [OF ok create(1) mk, of arg] by auto
  next
    case (yield c t r)
    then have t: "t = g c" using cur [of c] by (simp add: core_thread_def)
    obtain x ys where y: "yield_abs (th_state (threads s ! g c) = TERMINATED) c (g c) xs = (x, ys)" by force
    show ?thesis using yield_spec [OF ok yield(1,2) _ y save] aw [of t] t yield(4,5) by auto
  next
    case (resume c t v)
    then have "t = g c" using cur [of c] by (simp add: core_thread_def)
    then show ?thesis using reap_spec [OF ok resume(1,2)] aw [of t] resume(4,5) by auto
  next
    case (exit c t retval)
    then have "t = g c" using cur [of c] by (simp add: core_thread_def)
    then show ?thesis using exit_spec [OF ok exit(1,2), of retval] aw [of t] exit(4-6) by auto
  next
    case (join c t tid res)
    then have "t = core_thread g c" using cur [of c] by simp
    then show ?thesis using join_spec [OF ok join(1), of tid] aw [of t] join(3-7) by auto
  next
    case (down c t b sem s1)
    then have "t = core_thread g c" using cur [of c] by simp
    then show ?thesis using down_spec [OF ok down(2)] aw [of t] down by auto
  qed
  then show ?thesis by (simp add: tm_inv_def)
qed

definition tm_reachable :: "('w::len, 'm) thread_env \<Rightarrow> ('w, 'm) tm \<Rightarrow> bool" where
  "tm_reachable E s \<longleftrightarrow> (\<exists>kmain f pool s0. thread_init E f (tm_boot E kmain pool) = Some s0 \<and> (tm_step E)\<^sup>*\<^sup>* s0 s)"

lemma tm_reachable_inv:
  assumes laws: "thread_laws E" and "tm_reachable E s"
  shows "tm_inv E s"
proof -
  obtain kmain f pool s0 where s0: "thread_init E f (tm_boot E kmain pool) = Some s0" "(tm_step E)\<^sup>*\<^sup>* s0 s"
    using assms(2) unfolding tm_reachable_def by blast
  have "0 < SYS_THREAD_MAX E" "\<And>c. core_start_trials E c 0 = 0" using laws by (simp_all add: thread_laws_def)
  then have "s0 = init_stage E kmain f pool (SYS_THREAD_MAX E - 1)" using init_spec [of E f kmain pool] s0(1) by simp
  then have "tm_inv E s0" using init_state_ok \<open>0 < SYS_THREAD_MAX E\<close> unfolding tm_inv_def by blast
  with s0(2) show ?thesis by induction (use step_inv laws in blast)+
qed

section \<open>A sample system\<close>

text \<open>A master, one core with its idle thread, and two user threads, used to show that the
  hypotheses of the properties can hold: the master creates a thread, the idle thread yields to
  it, and the master waits for its end.\<close>

definition sample_env :: "(32, nat) thread_env" where
  "sample_env = \<lparr>env_target = optimsoc, env_lay = sample_layout, zero_page = (\<lambda>_. 0), SYS_THREAD_MAX = 2, THREAD_MAX = 2,
    context_create = (\<lambda>_ _. 0x401f00), context_save = (\<lambda>_. 0x401e00), core_start = (\<lambda>_ _. 0)\<rparr>"

definition sample_booted :: "(32, nat) tm" where
  "sample_booted = the (thread_init sample_env 0x100400 (tm_boot sample_env 0x100000 (sample_kpool [0, 0, 0, 0])))"

definition sample_created :: "(32, nat) tm" where "sample_created = snd (snd (the (thread_create sample_env 0x100800 5 sample_booted)))"

definition sample_running :: "(32, nat) tm" where "sample_running = snd (the (thread_yield_switch sample_env 1 sample_created))"

definition sample_joined :: "(32, nat) tm" where "sample_joined = snd (the (thread_join 0 2 sample_running))"

lemma sample_booted_init: "thread_init sample_env 0x100400 (tm_boot sample_env 0x100000 (sample_kpool [0, 0, 0, 0])) = Some sample_booted"
proof -
  have "\<not> Option.is_none (thread_init sample_env 0x100400 (tm_boot sample_env 0x100000 (sample_kpool [0, 0, 0, 0])))" by code_simp
  then show ?thesis by (simp add: sample_booted_def Option.is_none_def)
qed

lemma sample_created_run: "thread_create sample_env 0x100800 5 sample_booted = Some (0, Some 2, sample_created)"
proof -
  have "\<not> Option.is_none (thread_create sample_env 0x100800 5 sample_booted)
      \<and> map_option (\<lambda>(r, t, s). (r, t)) (thread_create sample_env 0x100800 5 sample_booted) = Some (0, Some 2)" by code_simp
  then show ?thesis by (auto simp: sample_created_def)
qed

lemma sample_running_run: "thread_yield_switch sample_env 1 sample_created = Some (Inr 2, sample_running)"
proof -
  have "map_option fst (thread_yield_switch sample_env 1 sample_created) = Some (Inr 2)" by code_simp
  then show ?thesis by (auto simp: sample_running_def)
qed

lemma sample_joined_run: "thread_join 0 2 sample_running = Some (None, sample_joined)"
proof -
  have "map_option fst (thread_join 0 2 sample_running) = Some None" by code_simp
  then show ?thesis by (auto simp: sample_joined_def)
qed

lemma awake_none: "list_all (\<lambda>q. q = None) (queues s) \<Longrightarrow> awake s t"
proof -
  have "links ts None ws \<Longrightarrow> ws = []" for ts :: "'a thread list" and ws by (cases ws) auto
  then show "list_all (\<lambda>q. q = None) (queues s) \<Longrightarrow> awake s t" by (fastforce simp: awake_def list_all_iff)
qed

lemma sample_laws: "thread_laws sample_env"
  unfolding thread_laws_def by (auto simp: sample_env_def good_ctx_def mm_is_kaddr_def core_start_trials.simps word_le_nat_alt word_less_nat_alt)

lemma sample_SYS [simp]: "SYS_THREAD_MAX sample_env = 2" "KTHREAD_MAX sample_env = 4"
  by (simp_all add: sample_env_def KTHREAD_MAX_def)

lemma sample_created_reachable: "tm_reachable sample_env sample_created"
  unfolding tm_reachable_def using sample_booted_init tm_step.create [OF _ sample_created_run] by fastforce

lemma sample_created_current: "thread_get_curr (int 1) sample_created = Some 1" "awake sample_created 1"
    "links (threads sample_created) (sq_head sample_created) [2]" "sq_size sample_created = 1" "th_state (threads sample_created ! 1) \<noteq> TERMINATED"
proof -
  show "thread_get_curr (int 1) sample_created = Some 1" by code_simp
  show "awake sample_created 1" by (rule awake_none) code_simp
qed code_simp+

lemma sample_running_reachable: "tm_reachable sample_env sample_running"
proof -
  have "tm_step sample_env sample_created sample_running"
    by (rule tm_step.yield [of 1]) (use sample_created_current sample_running_run in simp_all)
  then show ?thesis using sample_created_reachable unfolding tm_reachable_def by (meson rtranclp.rtrancl_into_rtrancl)
qed

lemma sample_joined_reachable: "tm_reachable sample_env sample_joined"
proof -
  have "thread_get_curr (int 0) sample_running = Some 0" "th_state (threads sample_running ! 0) = RUNNING" "2 \<noteq> th_tid (threads sample_running ! 0)"
    by code_simp+
  moreover have "awake sample_running 0" by (rule awake_none) code_simp
  ultimately have "tm_step sample_env sample_running sample_joined"
    by (intro tm_step.join [of 0 _ _ _ 2 None]) (use sample_joined_run in simp_all)
  then show ?thesis using sample_running_reachable unfolding tm_reachable_def by (meson rtranclp.rtrancl_into_rtrancl)
qed

lemma sample_joined_current: "thread_get_curr (int 1) sample_joined = Some 2" "awake sample_joined 2" "is_user_thread sample_env 2"
    "links (threads sample_joined) (joincond sample_joined ! 2) [0]" "map (\<lambda>u. th_coreid (threads sample_joined ! u)) [0] = [0]" "woken sample_joined = []"
proof -
  have q: "queues sample_joined = [None, None, None, Some 0, None]" "th_next (threads sample_joined ! 0) = None" by code_simp+
  have "links (threads sample_joined) q ws \<Longrightarrow> q \<in> {None, Some 0} \<Longrightarrow> ws = [] \<or> ws = [0]" for q ws
    using q(2) by (cases ws; cases "tl ws") auto
  then show "awake sample_joined 2" using q(1) unfolding awake_def by fastforce
qed code_simp+

lemma sample_joined_queue: "joincond sample_joined ! 2 = Some 0" "th_next (threads sample_joined ! 0) = None" "th_coreid (threads sample_joined ! 0) = 0"
  by code_simp+

section \<open>Properties\<close>

lemma one_current:
  assumes ok: "tm_ok E g xs wss s" and c: "c < SYS_THREAD_MAX E"
  shows "\<exists>t < KTHREAD_MAX E. thread_get_curr (int c) s = Some t
    \<and> (\<forall>u < KTHREAD_MAX E. on_core (threads s ! u) \<and> th_coreid (threads s ! u) = int c \<longleftrightarrow> u = t)"
proof -
  note t = tm_okD(1) [OF ok] and len = threads_okD(1) [OF tm_okD(1) [OF ok]]
  note cur = core_threadD [OF t c, unfolded len] and unique = core_thread_unique [OF t c, unfolded len]
  have "on_core (threads s ! u) \<and> th_coreid (threads s ! u) = int c \<longleftrightarrow> u = core_thread g c" if "u < KTHREAD_MAX E" for u
    using cur(3,4) unique [OF that] by blast
  then show ?thesis using cur(1,2) by blast
qed



lemma current_awake:
  assumes ok: "tm_ok E g xs wss s" and c: "0 < c" "c < SYS_THREAD_MAX E" and cur: "thread_get_curr (int c) s = Some t" "awake s t"
  shows "t = g c" "g c \<notin> set (concat wss)"
  using core_threadD(1) [OF tm_okD(1) [OF ok] c(2)] awake_waits [OF ok cur(2)] cur(1) c(1) by (simp_all add: core_thread_def)



text \<open>(C4) \<open>thread_yield\<close> implements round robin: it switches to the thread at the head of the
  schedule queue, which becomes the current thread of the core, and puts the caller, unless
  it has terminated or is the idle thread, at the end of the queue; with an empty queue the
  caller goes on, or the idle thread of the core runs when the caller has terminated.\<close>

theorem thread_yield_round_robin:
  assumes laws: "thread_laws E" and reach: "tm_reachable E s"
    and c: "0 < c" "c < SYS_THREAD_MAX E" and cur: "thread_get_curr (int c) s = Some t" "awake s t"
    and queue: "links (threads s) (sq_head s) xs" "length xs = sq_size s"
  shows "\<exists>x ys s'. yield_abs (th_state (threads s ! t) = TERMINATED) c t xs = (x, ys) \<and> thread_yield_switch E (int c) s = Some (Inr x, s')
    \<and> links (threads s') (sq_head s') ys \<and> sq_size s' = length ys \<and> thread_get_curr (int c) s' = Some x
    \<and> (th_state (threads s ! t) = TERMINATED \<longrightarrow> th_state (threads s' ! t) = ZOMBIE \<and> th_next (threads s' ! x) = Some t)"
proof -
  obtain g xs' ws wss where ok: "tm_ok E g xs' (ws # wss) s" using tm_reachable_inv [OF laws reach] tm_ok_waits unfolding tm_inv_def by blast
  have xs: "xs' = xs" using tm_okD(2) [OF ok] queue(1) links_unique unfolding ready_def by blast
  have save: "\<And>t. good_ctx E (context_save E t)" using laws by (simp add: thread_laws_def)
  note t = current_awake [OF ok c cur]
  obtain x ys where y: "yield_abs (th_state (threads s ! g c) = TERMINATED) c (g c) xs = (x, ys)" by force
  obtain s' ws' where s': "thread_yield_switch E (int c) s = Some (Inr x, s')" and ok': "tm_ok E (g(c := x)) ys (ws' # wss) s'"
    and z: "th_state (threads s ! g c) = TERMINATED \<longrightarrow> th_state (threads s' ! g c) = ZOMBIE \<and> th_next (threads s' ! x) = Some (g c)"
    using yield_spec [OF ok [unfolded xs] c t(2) y save] by blast
  have "thread_get_curr (int c) s' = Some x" using get_curr_core [OF tm_okD(1) [OF ok'] c] by simp
  moreover have "links (threads s') (sq_head s') ys \<and> sq_size s' = length ys" using tm_okD(2) [OF ok'] by (simp add: ready_def)
  ultimately show ?thesis using s' y z unfolding t(1) by blast
qed

theorem thread_yield_round_robin_witness:
  "\<exists>s'. thread_yield_switch sample_env (int 1) sample_created = Some (Inr 2, s') \<and> links (threads s') (sq_head s') []
    \<and> thread_get_curr (int 1) s' = Some 2"
  using thread_yield_round_robin [OF sample_laws sample_created_reachable _ _ sample_created_current(1-3)] sample_created_current(4,5)
  by (auto simp: yield_abs_def)

text \<open>(C31) A thread that exits wakes every thread that waits for its end, each on its core and in
  the order of the queue, and leaves no one in the queue.\<close>

theorem thread_exit_wakes_joiners:
  assumes laws: "thread_laws E" and reach: "tm_reachable E s" and c: "0 < c" "c < SYS_THREAD_MAX E"
    and cur: "thread_get_curr (int c) s = Some t" "awake s t" and user: "is_user_thread E t" and joiners: "links (threads s) (joincond s ! t) ws"
  shows "\<exists>s'. thread_exit E (int c) retval s = Some s' \<and> woken s' = woken s @ map (\<lambda>u. th_coreid (threads s ! u)) ws
    \<and> joincond s' ! t = None \<and> (\<forall>u \<in> set ws. awake s' u)"
proof -
  obtain g xs wss where ok: "tm_ok E g xs wss s" using tm_reachable_inv [OF laws reach] unfolding tm_inv_def by blast
  note t = current_awake [OF ok c cur] and len = threads_okD(1) [OF tm_okD(1) [OF ok]]
  have k: "Suc t < length wss" using waits_length [OF ok] cores_okD(4) [OF tm_okD(1) [OF ok] c] t(1) len by simp
  have W: "length wss = length (queues s)" "\<And>k. k < length wss \<Longrightarrow> links (threads s) (queues s ! k) (wss ! k)" "distinct (concat wss)"
    using tm_okD(3) [OF ok] unfolding waits_queues by auto
  have ws: "wss ! Suc t = ws" using W(2) [OF k] joiners links_unique by (simp add: queues_def) blast
  obtain s' where s': "thread_exit E (int c) retval s = Some s'" "tm_ok E g xs (wss[Suc t := []]) s'"
      "woken s' = woken s @ map (\<lambda>u. th_coreid (threads s ! u)) ws"
    using exit_spec [OF ok c _ t(2), of retval] user t(1) ws by blast
  have none: "links (threads s') (queues s' ! Suc t) []" using tm_okD(3) [OF s'(2)] k unfolding waits_queues by fastforce
  have "awake s' u" if u: "u \<in> set ws" for u
    unfolding awake_def
  proof (intro ballI allI impI notI)
    fix q vs
    assume q: "q \<in> set (queues s')" and vs: "links (threads s') q vs" "u \<in> set vs"
    then obtain j where j: "j < length (queues s')" "q = queues s' ! j" by (metis in_set_conv_nth)
    have W': "length (wss[Suc t := []]) = length (queues s')" "links (threads s') (queues s' ! j) (wss[Suc t := []] ! j)"
      using tm_okD(3) [OF s'(2)] j(1) unfolding waits_queues by auto
    then have "vs = wss[Suc t := []] ! j" using vs(1) j(2) links_unique by blast
    then have "vs \<in> set (wss[Suc t := []])" using j(1) W'(1) by (metis nth_mem)
    then have "u \<in> set (concat (wss[Suc t := []]))" using vs(2) by auto
    then show False using W(3) u unfolding concat_update [OF k] concat_split [OF k] ws by auto
  qed
  then show ?thesis using s' none by (auto simp: queues_def)
qed

theorem thread_exit_wakes_joiners_witness:
  "\<exists>s'. thread_exit sample_env (int 1) 9 sample_joined = Some s' \<and> woken s' = [0] \<and> joincond s' ! 2 = None \<and> awake s' 0"
  using thread_exit_wakes_joiners [OF sample_laws sample_joined_reachable _ _ sample_joined_current(1-4), of 9] sample_joined_current(5,6) by simp

text \<open>(C30) \<open>cond_broadcast\<close> returns exactly when the threads that wait form a finite chain, and then it
  wakes each of them once, in order, and empties the queue; a thread that waits twice in a
  row on the same condition variable makes it hang.\<close>

theorem cond_broadcast_returns_iff:
  "((\<exists>r. cond_broadcast queue s = Some r) \<longleftrightarrow> (\<exists>ws. links (threads s) queue ws))
    \<and> (links (threads s) queue ws \<longrightarrow> distinct ws
        \<and> cond_broadcast queue s = Some (None, s\<lparr>woken := woken s @ map (\<lambda>t. th_coreid (threads s ! t)) ws\<rparr>))
    \<and> (thread_get_curr c s = Some t \<and> cond_wait c queue s = Some (q1, s1) \<and> cond_wait c q1 s1 = Some (q2, s2)
        \<longrightarrow> cond_broadcast q2 s2 = None)"
proof (intro conjI impI)
  show "(\<exists>r. cond_broadcast queue s = Some r) \<longleftrightarrow> (\<exists>ws. links (threads s) queue ws)"
    using cond_broadcast_links broadcast_returns by (fastforce simp: cond_broadcast_def bind_eq_Some_conv)
next
  assume "links (threads s) queue ws"
  then show "distinct ws" "cond_broadcast queue s = Some (None, s\<lparr>woken := woken s @ map (\<lambda>t. th_coreid (threads s ! t)) ws\<rparr>)"
    using links_distinct cond_broadcast_links by blast+
next
  assume run: "thread_get_curr c s = Some t \<and> cond_wait c queue s = Some (q1, s1) \<and> cond_wait c q1 s1 = Some (q2, s2)"
  have t: "t < length (threads s)" "on_core (threads s ! t)" "th_coreid (threads s ! t) = c" using get_curr_Some run by blast+
  have q1: "q1 = Some t" "s1 = set_thread t (\<lambda>u. u\<lparr>th_next := queue\<rparr>) s" using run by (auto simp: cond_wait_def)
  have "map view (threads s1) = map view (threads s)" using t(1) by (simp add: q1(2) map_update list_update_same_conv)
  then have "thread_get_curr c s1 = Some t" using get_curr_view [of "threads s1" "threads s"] run by (simp add: thread_get_curr_def)
  then have q2: "q2 = Some t" "th_next (threads s2 ! t) = Some t" using run q1 t(1) by (auto simp: cond_wait_def)
  have "\<not> links (threads s2) q2 ws" for ws
  proof
    assume l: "links (threads s2) q2 ws"
    then obtain vs where vs: "ws = t # vs" "links (threads s2) (Some t) vs" using q2 by (cases ws) auto
    then have "t \<in> set vs" by (cases vs) auto
    then show False using links_distinct [OF l] vs(1) by simp
  qed
  then show "cond_broadcast q2 s2 = None" using broadcast_returns by (fastforce simp: cond_broadcast_def bind_eq_None_conv)
qed

theorem cond_broadcast_returns_iff_witness:
  "cond_broadcast (Some 0) sample_joined = Some (None, sample_joined\<lparr>woken := [0]\<rparr>)"
  using cond_broadcast_returns_iff [of "Some 0" sample_joined "[0]"] sample_joined_current(4,5,6) by (simp add: sample_joined_queue)

end
