(* ===== verification/Thread_Limits.thy ===== *)
theory Thread_Limits
  imports Thread_Manager
begin

text \<open>
  How long the exit value of a thread is kept, what a failed creation costs, and what the
  release of the lock before the context switch of \<open>thread_yield\<close> allows.
\<close>

section \<open>Exit values\<close>

definition exits :: "('w::len, 'm) thread_env \<Rightarrow> ('w word \<times> nat) list \<Rightarrow> ('w, 'm) tm \<Rightarrow> ('w, 'm) tm" where
  "exits E rs s = fold (\<lambda>(retval, t). thread_save_retval E retval t) rs s"

text \<open>The value of \<open>tid\<close> is the entry \<open>p\<close>, and \<open>d\<close> values have been saved since.\<close>

definition kept :: "('w::len, 'm) thread_env \<Rightarrow> int \<Rightarrow> 'w word \<Rightarrow> nat \<Rightarrow> nat \<Rightarrow> ('w, 'm) tm \<Rightarrow> bool" where
  "kept E tid v p d s \<longleftrightarrow> length (exit_values s) = KTHREAD_EXIT_VALUE_NUM E \<and> p < KTHREAD_EXIT_VALUE_NUM E \<and> exit_values s ! p = (tid, v)
    \<and> (\<forall>i < KTHREAD_EXIT_VALUE_NUM E. i \<noteq> p \<longrightarrow> fst (exit_values s ! i) \<noteq> tid)
    \<and> next_exit_value s = (p + 1 + d) mod KTHREAD_EXIT_VALUE_NUM E"

lemma mod_other: "p < n \<Longrightarrow> 0 < k \<Longrightarrow> k < n \<Longrightarrow> (p + k) mod n \<noteq> (p :: nat)"
  by (cases "p + k < n") (simp_all add: le_mod_geq)

lemma kept_save:
  assumes k: "kept E tid v p d s" and d: "d + 1 < KTHREAD_EXIT_VALUE_NUM E" and t: "th_tid (threads s ! t) \<noteq> tid"
  shows "kept E tid v p (if retval = 0 then d else d + 1) (thread_save_retval E retval t s)"
proof -
  let ?n = "KTHREAD_EXIT_VALUE_NUM E"
  have p: "p < ?n" and nx: "next_exit_value s = (p + (d + 1)) mod ?n" and len: "length (exit_values s) = ?n" using k by (simp_all add: kept_def)
  have ne: "next_exit_value s \<noteq> p" using mod_other [OF p _ d] by (simp add: nx)
  have lt: "next_exit_value s < ?n" using p by (simp add: nx)
  have "(next_exit_value s + 1) mod ?n = (p + 1 + (d + 1)) mod ?n" by (simp add: nx mod_Suc_eq)
  then show ?thesis using k t ne lt len by (auto simp: kept_def thread_save_retval_def nth_list_update)
qed

lemma kept_exits:
  assumes "kept E tid v p d s" "d + length rs < KTHREAD_EXIT_VALUE_NUM E" "\<forall>(retval, t) \<in> set rs. th_tid (threads s ! t) \<noteq> tid"
  shows "\<exists>d'. kept E tid v p d' (exits E rs s)"
  using assms
proof (induction rs arbitrary: d s)
  case Nil
  then show ?case by (auto simp: exits_def)
next
  case (Cons r rs)
  obtain retval t where r: "r = (retval, t)" by force
  let ?s = "thread_save_retval E retval t s"
  have k: "kept E tid v p (if retval = 0 then d else d + 1) ?s" using Cons.prems r by (intro kept_save) auto
  have "threads ?s = threads s" by (simp add: thread_save_retval_def)
  then have "\<exists>d'. kept E tid v p d' (exits E rs ?s)" using Cons.prems by (intro Cons.IH [OF k]) (auto split: if_splits)
  then show ?case by (simp add: exits_def r)
qed

lemma kept_search:
  assumes "kept E tid v p d s"
  shows "thread_search_retval tid s = v"
proof -
  have "first_index (\<lambda>e. fst e = tid) (exit_values s) = Some p"
    unfolding first_index_Some_iff using assms by (auto simp: kept_def)
  then show ?thesis using assms by (simp add: thread_search_retval_def kept_def)
qed



section \<open>Failed creations\<close>

abbreviation free_slot :: "('w::len) thread \<Rightarrow> bool" where "free_slot t \<equiv> th_state t = NOT_STARTED \<or> th_state t = ZOMBIE"

definition free_slots :: "('w::len, 'm) tm \<Rightarrow> nat" where "free_slots s = length (filter free_slot (tl (threads s)))"

lemma length_filter_update:
  assumes "i < length xs" "P (xs ! i)" "\<not> P u"
  shows "length (filter P (xs[i := u])) + 1 = length (filter P xs)"
proof -
  have "xs = take i xs @ xs ! i # drop (Suc i) xs" using assms(1) by (rule id_take_nth_drop)
  then have "length (filter P xs) = length (filter P (take i xs @ xs ! i # drop (Suc i) xs))" by simp
  then show ?thesis using assms by (simp add: upd_conv_take_nth_drop)
qed

lemma alloc_threads:
  assumes "thread_alloc E s = Some (Some t, s1)"
  shows "0 < t \<and> t < length (threads s) \<and> free_slot (threads s ! t) \<and> sq_head s1 = sq_head s \<and> sq_size s1 = sq_size s
    \<and> (\<exists>u. threads s1 = (threads s)[t := u] \<and> th_state u = STARTED)"
proof -
  obtain i where i: "first_index free_slot (tl (threads s)) = Some i" "t = Suc i" using assms by (auto simp: thread_alloc_def bind_eq_Some_conv split: option.splits)
  have t: "t < length (threads s)" "free_slot (threads s ! t)" using first_index_SomeD [OF i(1)] i(2) by (auto simp: nth_tl)
  have run: "(if th_state (threads s ! t) = NOT_STARTED then Some (s\<lparr>nthreads := nthreads s + 1\<rparr>) else thread_free E t s)
      \<bind> (\<lambda>s. Some (Some t, set_thread t (\<lambda>t. t\<lparr>th_state := STARTED\<rparr>) s)) = Some (Some t, s1)"
    using assms i by (simp add: thread_alloc_def split: if_splits)
  show ?thesis
  proof (cases "th_state (threads s ! t) = NOT_STARTED")
    case True
    then have "s1 = set_thread t (\<lambda>t. t\<lparr>th_state := STARTED\<rparr>) (s\<lparr>nthreads := nthreads s + 1\<rparr>)" using run by simp
    then show ?thesis using t i(2) by auto
  next
    case False
    then obtain s2 where s2: "thread_free E t s = Some s2" "s1 = set_thread t (\<lambda>t. t\<lparr>th_state := STARTED\<rparr>) s2"
      using run by (auto simp: bind_eq_Some_conv)
    have "threads s2 = (threads s)[t := (threads s ! t)\<lparr>th_coreid := - 1, th_state := NOT_STARTED, th_tid := - 1\<rparr>]" "sq_head s2 = sq_head s" "sq_size s2 = sq_size s"
      using s2(1) by (auto simp: thread_free_def Let_def bind_eq_Some_conv)
    then show ?thesis using s2(2) t i(2) by auto
  qed
qed


definition sample_full :: "(32, nat) tm" where "sample_full = sample_booted\<lparr>tm_kpool := sample_kpool [1, 1, 1, 1]\<rparr>"


section \<open>Context switches outside the lock\<close>

definition race_env :: "(32, nat) thread_env" where "race_env = sample_env\<lparr>SYS_THREAD_MAX := 3\<rparr>"

text \<open>Two user threads have been created and core 1 runs the first of them.\<close>

definition race_state :: "(32, nat) tm option" where
  "race_state =
    do {
      s \<leftarrow> thread_init race_env 0x100400 (tm_boot race_env 0x100000 (sample_kpool [0, 0, 0, 0]));
      (_, _, s) \<leftarrow> thread_create race_env 0x100800 5 s;
      (_, _, s) \<leftarrow> thread_create race_env 0x100800 6 s;
      (_, s) \<leftarrow> thread_yield_switch race_env 1 s;
      Some s
    }"

text \<open>\<open>thread_yield\<close> on core 1 up to the release of the lock, all of \<open>thread_yield\<close> on core 2 in
  between, and the context switch of core 1; then \<open>thread_yield\<close> on core 2 again.\<close>

definition race_run :: "(32, nat) tm \<Rightarrow> (nat \<times> nat \<times> int \<times> int \<times> thread_state \<times> bool \<times> bool) option" where
  "race_run s =
    do {
      (r1, s) \<leftarrow> thread_yield_select race_env 1 s;
      (r2, s) \<leftarrow> thread_yield_select race_env 2 s;
      case (r1, r2) of
        (Inr (cur1, nxt1), Inr (cur2, nxt2)) \<Rightarrow> do {
          (e2, s) \<leftarrow> thread_switch_to race_env 2 cur2 nxt2 s;
          (e1, s) \<leftarrow> thread_switch_to race_env 1 cur1 nxt1 s;
          Some (cur1, nxt2, e1, e2, th_state (threads s ! nxt2), th_ctx (threads s ! nxt2) = 0,
            Option.is_none (thread_yield_switch race_env 2 s))
        }
      | _ \<Rightarrow> None
    }"


end
