(* ===== verification/Spec2Isabelle.thy ===== *)
theory Spec2Isabelle
  imports Paging Mailbox_Facts Vmailbox_Facts Vportal_Facts Sync_Facts Thread_Limits
begin

text \<open>
  Verification of the Nanvix microkernel.

  \<^bold>\<open>The program.\<close>  The kernel runs on the cores of a cluster of a manycore processor.  Its
  parts are memory management (\<^verbatim>\<open>src/kernel/mm\<close>: page frames, kernel pages,
  user paging), communication over the network on chip (\<^verbatim>\<open>src/kernel/noc\<close>), thread
  management (\<^verbatim>\<open>src/kernel/pm\<close>), system calls (\<^verbatim>\<open>src/kernel/sys\<close>), device
  drivers (\<^verbatim>\<open>src/kernel/dev\<close>) and a bundled TCP/IP stack
  (\<^verbatim>\<open>src/lwip\<close>).  User pages are backed by frames and their page tables live in kernel
  pages.  A user communicates through a virtual mailbox or portal; it is a communicator
  bound to a port of a physical channel, which buffers messages, queues the requests of
  its ports and drives the device.

  \<^bold>\<open>Conventions.\<close>  A C \<open>int\<close> that carries a status or an identifier is an \<^typ>\<open>int\<close>,
  negative for an error; addresses, ages, clocks and counters are machine words that wrap
  around.  Each structure of the source is a record, the variables of a module form a
  state record, and an operation takes the state and returns it with its result.
  \<^const>\<open>None\<close> stands for a kernel panic, a failed assertion or an access outside an
  array.  A spinlock held over a whole operation is the atomicity of that operation in the
  model; where an operation gives up its lock in between, it is split there.  The hardware
  abstraction layer and the support library are not part of the repository: they are
  records of functions (\<open>layout\<close>, \<open>bitmap_ops\<close>, \<open>mmu_ops\<close>, \<open>klib\<close>, \<open>noc_hal\<close>,
  \<open>mailbox_hal\<close>, \<open>portal_hal\<close>, \<open>sync_hal\<close>, \<open>resource_pool\<close>, \<open>thread_env\<close>), and what the code relies on
  is stated by predicates such as \<open>klib_laws\<close> and \<open>pool_laws\<close>, which concrete sample
  instances satisfy.

  \<^bold>\<open>Memory management.\<close>  \<open>Memory_Layout\<close> holds the address checks of
  \<^verbatim>\<open>include/nanvix/kernel/mm.h\<close>, \<open>Frame\<close> the frame allocator (\<^verbatim>\<open>mm/frame.c\<close>),
  \<open>Kpool\<close> the pool of kernel pages (\<^verbatim>\<open>mm/kpool.c\<close>) and \<open>Paging\<close> the page tables, user
  pages and the TLB fault handler (\<^verbatim>\<open>mm/page.c\<close>).  Both allocators fulfil the
  interface \<open>page_allocator\<close> of \<open>Interfaces\<close>.  Shown: first fit and exhaustion, double
  frees refused, numbers and addresses convert to each other, mapping and unmapping on
  every branch, and that no two user pages ever share a frame unless they were linked.

  \<^bold>\<open>Channels.\<close>  \<open>Support\<close> states what is used of the support library.  \<open>Mbuffer\<close> models
  message buffers (\<^verbatim>\<open>noc/mbuffer.c\<close>), \<open>Port\<close> ports (\<^verbatim>\<open>noc/port.c\<close>), \<open>Requests\<close> the
  ring of requests and \<open>Active\<close> the operations on channels (\<^verbatim>\<open>noc/active.c\<close>).
  \<open>Channels\<close> has the invariant of a channel and \<open>Facility\<close> the interface between channels
  and a facility that configures them, with the outcome of every operation; \<open>Channel_Ops\<close>,
  \<open>Channel_Flow\<close> and \<open>Port_Uses\<close> add creation, the flow of messages and the account of
  used ports.  \<open>Mailbox\<close> and \<open>Portal\<close> are the two facilities (\<^verbatim>\<open>noc/mailbox.c\<close>,
  \<^verbatim>\<open>noc/portal.c\<close>); each interprets the interface.  Shown: stored messages form a
  queue by age, requests are served in turn, no operation panics in a reachable state,
  messages to the local node arrive byte for byte, and what each call returns.

  \<^bold>\<open>Virtual mailboxes and portals.\<close>  \<open>Communicator\<close> models \<^verbatim>\<open>noc/communicator.c\<close>;
  \<open>Virtual\<close> has the interface \<open>port_provider\<close> between communicators and the channels
  below, which \<open>Vmailbox\<close> (\<^verbatim>\<open>noc/vmailbox.c\<close>) and \<open>Vportal\<close>
  (\<^verbatim>\<open>noc/vportal.c\<close>) interpret.  Shown: every port in use is held by exactly one
  used communicator, messages move end to end, and a portal never completes more reads
  than it allowed.

  \<^bold>\<open>Synchronisation points.\<close>  \<open>Sync\<close> models \<^verbatim>\<open>noc/sync.c\<close>; \<open>Sync_Facts\<close> interleaves
  the calls of several cores and shows that used points are distinct and cannot be released
  while the device works on them.

  \<^bold>\<open>Threads.\<close>  \<open>Thread\<close> models \<^verbatim>\<open>pm/thread/multithread.c\<close>,
  \<^verbatim>\<open>pm/thread/common.c\<close>, \<^verbatim>\<open>pm/cond.c\<close>, \<^verbatim>\<open>pm/semaphore.c\<close> and
  \<^verbatim>\<open>pm/sleep.c\<close>: the table of threads, condition variables and semaphores, the
  schedule queue, yielding, creation, exit, joining and initialisation, over the functions
  of the hardware abstraction layer (\<open>thread_env\<close>, with \<open>thread_laws\<close>).  Stacks come from
  \<open>Kpool\<close>.  \<open>Thread_Facts\<close> sees the chains through the threads as lists and has the
  invariant of the table, \<open>Thread_Ops\<close> the refinement of \<open>thread_yield\<close> to round robin,
  \<open>Thread_Steps\<close> the other operations, and \<open>Thread_Manager\<close> the states reachable from
  \<open>thread_init\<close>.  Shown: each core has exactly one current thread, identifiers are unique,
  no operation panics or hangs in a reachable state, and an exit wakes every joiner.  These
  states take a call of \<open>thread_yield\<close> as one step, up to and with its context switch.
  \<open>Thread_Limits\<close> shows how long an exit value is kept, what a failed creation loses, and a
  run in which another core enters between the release of the lock and the switch, after
  which an assertion fails.

  \<^bold>\<open>Loops.\<close>  Loops over a table are first-match searches or recursion over the table, and the
  trials to start a core are a recursive function with a termination proof.  Two loops of
  the source may run forever, the one that clears a request from the ring and the one that
  wakes the sleepers of a condition variable; they are partial functions into options, where
  \<^const>\<open>None\<close> also stands for a loop that does not end, and it is shown when they return.  No
  fuel is used.

  \<^bold>\<open>Not modelled.\<close>  Spinlocks and memory barriers; assertions on the alignment of
  pointers; printing; the device drivers, which read and write device registers and DMA
  memory; the start-up sequence, which only calls the initialisations; the variant of the
  thread manager without multithreading and the shutdown of the idle threads; exceptions and
  signals; system calls; and the TCP/IP stack.
\<close>

end
